(* ===== verification/Knock_Prelude.thy ===== *)
theory Knock_Prelude
  imports Main "HOL-Library.AList"
begin

text \<open>
  What every component shares: the type synonyms of the model (a Go \<open>string\<close> or \<open>[]byte\<close>
  is a list of bytes), the \<open>outcome\<close> of a step that can panic, the fact collections the
  proofs draw on, small facts on lists and association lists, and two interfaces that several
  components provide: a codec (an encoder whose output its decoder reads back) and a
  machine (legal steps, an invariant, and a specification it refines).
\<close>

named_theorems byte_simps \<open>facts that evaluate and bound the bytes of a string\<close>
named_theorems frame_simps \<open>what an operation leaves unchanged\<close>
named_theorems go_simps \<open>unfolding of the panic and error plumbing\<close>

type_synonym bytes = string

subsection \<open>Panics\<close>

text \<open>
  A Go function either returns or panics; no function of the repository recovers from a panic,
  so one in any goroutine ends the process.  \<open>Panic p\<close> keeps in \<open>p\<close> what outlives the process.
\<close>

datatype ('p, 'a) outcome = Panic 'p | Ret 'a

primrec bind_outcome :: "('p, 'a) outcome \<Rightarrow> ('a \<Rightarrow> ('p, 'b) outcome) \<Rightarrow> ('p, 'b) outcome" where
  "bind_outcome (Panic p) f = Panic p"
| "bind_outcome (Ret x) f = f x"

primrec is_panic :: "('p, 'a) outcome \<Rightarrow> bool" where
  "is_panic (Panic p) = True"
| "is_panic (Ret x) = False"

lemma bind_outcome_eq_Ret [go_simps]:
  "bind_outcome m f = Ret y \<longleftrightarrow> (\<exists>x. m = Ret x \<and> f x = Ret y)"
  by (cases m) auto

lemma bind_outcome_eq_Panic [go_simps]:
  "bind_outcome m f = Panic p \<longleftrightarrow> m = Panic p \<or> (\<exists>x. m = Ret x \<and> f x = Panic p)"
  by (cases m) auto

lemma is_panic_bind [go_simps]:
  "is_panic (bind_outcome m f) \<longleftrightarrow> is_panic m \<or> (\<exists>x. m = Ret x \<and> is_panic (f x))"
  by (cases m) auto

lemma not_is_panic_iff: "\<not> is_panic m \<longleftrightarrow> (\<exists>x. m = Ret x)"
  by (cases m) auto

lemma bind_outcome_assoc:
  "bind_outcome (bind_outcome m f) g = bind_outcome m (\<lambda>x. bind_outcome (f x) g)"
  by (cases m) auto

primrec fold_outcome :: "('b \<Rightarrow> 'a \<Rightarrow> ('p, 'a) outcome) \<Rightarrow> 'b list \<Rightarrow> 'a \<Rightarrow> ('p, 'a) outcome" where
  "fold_outcome f [] s = Ret s"
| "fold_outcome f (x # xs) s = bind_outcome (f x s) (fold_outcome f xs)"

lemma fold_outcome_inv:
  assumes "fold_outcome f xs s = Ret s'" and "P s"
    and "\<And>x s s'. x \<in> set xs \<Longrightarrow> f x s = Ret s' \<Longrightarrow> P s \<Longrightarrow> P s'"
  shows "P s'"
  using assms by (induction xs arbitrary: s) (auto simp: go_simps)

lemma fold_outcome_append:
  "fold_outcome f (xs @ ys) s = bind_outcome (fold_outcome f xs s) (fold_outcome f ys)"
proof (induction xs arbitrary: s)
  case (Cons x xs)
  then show ?case by (cases "f x s") auto
qed simp

subsection \<open>Bytes\<close>

abbreviation byte :: "char \<Rightarrow> nat" where
  "byte c \<equiv> of_char c"

lemma byte_less_256 [simp, byte_simps]: "byte c < 256"
  using of_char_mod_256 [of c, where 'a = nat] mod_less_divisor [of 256 "byte c"] by simp

lemma byte_inj [simp, byte_simps]: "byte c = byte d \<longleftrightarrow> c = d"
  by (rule of_char_eq_iff)

lemma byte_char_of [simp, byte_simps]: "n < 256 \<Longrightarrow> byte (char_of n) = n"
  by (simp add: of_char_of)

subsection \<open>Lists and association lists\<close>

lemma takeWhile_append_stop [simp]:
  "\<forall>x \<in> set xs. P x \<Longrightarrow> \<not> P y \<Longrightarrow> takeWhile P (xs @ y # ys) = xs"
  by (induction xs) auto

lemma dropWhile_append_stop [simp]:
  "\<forall>x \<in> set xs. P x \<Longrightarrow> \<not> P y \<Longrightarrow> dropWhile P (xs @ y # ys) = y # ys"
  by (induction xs) auto

lemma map_of_filter_fst:
  "map_of (filter (\<lambda>(k, _). P k) xs) k = (if P k then map_of xs k else None)"
  by (induction xs) auto

lemma map_of_map_values:
  "map_of (map (\<lambda>(k, v). (k, f k v)) xs) k = map_option (f k) (map_of xs k)"
  by (induction xs) auto

subsection \<open>Interface: a codec\<close>

locale codec =
  fixes enc :: "'a \<Rightarrow> bytes"
    and dec :: "bytes \<Rightarrow> 'a option"
    and ok :: "'a \<Rightarrow> bool"
  assumes decode_encode: "ok x \<Longrightarrow> dec (enc x) = Some x"
begin

lemma encode_inject: "ok x \<Longrightarrow> ok y \<Longrightarrow> enc x = enc y \<longleftrightarrow> x = y"
  by (metis decode_encode option.inject)

lemma encode_in_domain: "ok x \<Longrightarrow> enc x \<in> dom dec"
  by (auto simp: decode_encode)

lemma inj_on_encode: "inj_on enc {x. ok x}"
  by (auto intro!: inj_onI simp: encode_inject)

end

subsection \<open>Interfaces: a machine, and a machine that refines a specification\<close>

text \<open>What a machine gets to by legal steps.\<close>

inductive reaches :: "('s \<Rightarrow> 'e \<Rightarrow> bool) \<Rightarrow> ('s \<Rightarrow> 'e \<Rightarrow> 's \<Rightarrow> bool) \<Rightarrow> 's \<Rightarrow> 's \<Rightarrow> bool"
  for legal :: "'s \<Rightarrow> 'e \<Rightarrow> bool" and step :: "'s \<Rightarrow> 'e \<Rightarrow> 's \<Rightarrow> bool"
where
  here: "reaches legal step s s"
| onward: "reaches legal step s s' \<Longrightarrow> legal s' e \<Longrightarrow> step s' e s'' \<Longrightarrow> reaches legal step s s''"

lemma reaches_mono:
  "reaches legal step s s' \<Longrightarrow> (\<And>s e. legal s e \<Longrightarrow> legal' s e) \<Longrightarrow> reaches legal' step s s'"
  by (induction rule: reaches.induct) (auto intro: reaches.intros)

lemma reaches_trans:
  "reaches legal step s' s'' \<Longrightarrow> reaches legal step s s' \<Longrightarrow> reaches legal step s s''"
  by (induction rule: reaches.induct) (auto intro: reaches.intros)

locale machine =
  fixes legal :: "'s \<Rightarrow> 'e \<Rightarrow> bool"
    and step :: "'s \<Rightarrow> 'e \<Rightarrow> 's \<Rightarrow> bool"
    and inv :: "'s \<Rightarrow> bool"
  assumes inv_step: "inv s \<Longrightarrow> legal s e \<Longrightarrow> step s e s' \<Longrightarrow> inv s'"
begin

lemma inv_reaches: "reaches legal step s s' \<Longrightarrow> inv s \<Longrightarrow> inv s'"
  by (induction rule: reaches.induct) (auto intro: inv_step)

text \<open>A property kept by the steps that satisfy \<open>Q\<close> holds after any number of them.\<close>

lemma kept_reaches:
  assumes "reaches (\<lambda>s e. legal s e \<and> Q s e) step s s'" and "inv s" and "P s"
    and keep: "\<And>s e s'. inv s \<Longrightarrow> legal s e \<Longrightarrow> Q s e \<Longrightarrow> step s e s' \<Longrightarrow> P s \<Longrightarrow> P s'"
  shows "P s' \<and> inv s'"
  using assms(1-3) by (induction rule: reaches.induct) (auto intro: keep inv_step)

end

text \<open>
  The machine refines a specification: seen through \<open>abs\<close>, each step is one of the operations
  \<open>ops\<close> allows for its event.
\<close>

locale refined_machine = machine legal step inv
  for legal :: "'s \<Rightarrow> 'e \<Rightarrow> bool" and step :: "'s \<Rightarrow> 'e \<Rightarrow> 's \<Rightarrow> bool" and inv :: "'s \<Rightarrow> bool" +
  fixes abs :: "'s \<Rightarrow> 'a"
    and ops :: "'s \<Rightarrow> 'e \<Rightarrow> 'o set"
    and astep :: "'o \<Rightarrow> 'a \<Rightarrow> 'a"
  assumes simulates: "inv s \<Longrightarrow> legal s e \<Longrightarrow> step s e s' \<Longrightarrow> \<exists>x \<in> ops s e. abs s' = astep x (abs s)"
begin

lemma spec_kept:
  assumes "reaches (\<lambda>s e. legal s e \<and> Q s e) step s s'" and "inv s" and "P (abs s)"
    and keep: "\<And>s e x. inv s \<Longrightarrow> Q s e \<Longrightarrow> x \<in> ops s e \<Longrightarrow> P (abs s) \<Longrightarrow> P (astep x (abs s))"
  shows "P (abs s')"
proof -
  have "P (abs s') \<and> inv s'"
  proof (rule kept_reaches [OF assms(1,2), where P = "\<lambda>s. P (abs s)"])
    fix s e s'
    assume *: "inv s" "legal s e" "Q s e" "step s e s'" "P (abs s)"
    from simulates [OF *(1,2,4)] keep [OF *(1,3)] *(5) show "P (abs s')" by auto
  qed (rule assms(3))
  then show ?thesis by simp
qed

end

end
