(* ===== verification/Go_Strings.thy ===== *)
theory Go_Strings
  imports Knock_Prelude
begin

text \<open>
  The parts of Go's string library the repository uses, on byte strings: \<open>encoding/hex\<close>,
  decimal conversion (\<open>strconv\<close>, \<open>fmt\<close> verb d), prefixes, splitting and trimming.  Each
  encoder is interpreted as a \<open>codec\<close>.
\<close>

subsection \<open>Hexadecimal (encoding/hex)\<close>

definition hex_digit :: "nat \<Rightarrow> char" where
  "hex_digit n = ''0123456789abcdef'' ! n"

definition is_dec_digit :: "char \<Rightarrow> bool" where
  "is_dec_digit c \<longleftrightarrow> 48 \<le> byte c \<and> byte c \<le> 57"

definition is_lower_hex :: "char \<Rightarrow> bool" where
  "is_lower_hex c \<longleftrightarrow> is_dec_digit c \<or> 97 \<le> byte c \<and> byte c \<le> 102"

definition hex_val :: "char \<Rightarrow> nat option" where
  "hex_val c =
     (if 48 \<le> byte c \<and> byte c \<le> 57 then Some (byte c - 48)
      else if 97 \<le> byte c \<and> byte c \<le> 102 then Some (byte c - 87)
      else if 65 \<le> byte c \<and> byte c \<le> 70 then Some (byte c - 55)
      else None)"

definition hex_byte :: "char \<Rightarrow> string" where
  "hex_byte c = [hex_digit (byte c div 16), hex_digit (byte c mod 16)]"

definition hex_encode :: "bytes \<Rightarrow> string" where
  "hex_encode bs = concat (map hex_byte bs)"

fun hex_decode :: "string \<Rightarrow> bytes option" where
  "hex_decode [] = Some []"
| "hex_decode [c] = None"
| "hex_decode (c # d # s) =
     (case (hex_val c, hex_val d) of
        (Some h, Some l) \<Rightarrow> map_option (\<lambda>bs. char_of (16 * h + l) # bs) (hex_decode s)
      | _ \<Rightarrow> None)"

lemma lt16_cases: "(n::nat) < 16 \<Longrightarrow> n \<in> set [0..<16]"
  by simp

lemma hex_digit_props:
  assumes "n < 16"
  shows "hex_val (hex_digit n) = Some n" and "is_lower_hex (hex_digit n)"
  using lt16_cases [OF assms]
  by (auto simp: upt_rec hex_digit_def hex_val_def is_lower_hex_def is_dec_digit_def)

lemma nibble_less [simp]: "byte c div 16 < 16" "byte c mod 16 < 16"
proof -
  have "byte c < 16 * 16" using byte_less_256 [of c] by simp
  then show "byte c div 16 < 16" by (rule less_mult_imp_div_less)
qed simp

lemma hex_val_hex_digit [simp]: "n < 16 \<Longrightarrow> hex_val (hex_digit n) = Some n"
  by (rule hex_digit_props)

lemma hex_decode_encode [simp]: "hex_decode (hex_encode bs) = Some bs"
proof (induction bs)
  case Nil
  show ?case by (simp add: hex_encode_def)
next
  case (Cons c bs)
  have "16 * (byte c div 16) + byte c mod 16 = byte c" by simp
  with Cons show ?case
    by (simp add: hex_encode_def hex_byte_def char_of_char)
qed

lemma length_hex_encode [simp]: "length (hex_encode bs) = 2 * length bs"
  by (induction bs) (auto simp: hex_encode_def hex_byte_def)

lemma hex_encode_lower: "list_all is_lower_hex (hex_encode bs)"
  by (induction bs) (auto simp: hex_encode_def hex_byte_def hex_digit_props(2))

interpretation hex: codec hex_encode hex_decode "\<lambda>_. True"
  by unfold_locales simp

lemma hex_val_lower: "is_lower_hex c \<Longrightarrow> hex_val c \<noteq> None"
  by (auto simp: is_lower_hex_def is_dec_digit_def hex_val_def)

lemma hex_decode_total:
  assumes "even (length s)" and "list_all (\<lambda>c. hex_val c \<noteq> None) s"
  shows "\<exists>bs. hex_decode s = Some bs"
  using assms by (induction s rule: hex_decode.induct) auto

lemma hex_decode_SomeD:
  assumes "hex_decode s = Some bs"
  shows "list_all (\<lambda>c. hex_val c \<noteq> None) s \<and> length s = 2 * length bs"
  using assms
  by (induction s arbitrary: bs rule: hex_decode.induct) (auto split: option.splits)

lemma hex_decode_iff:
  "hex_decode s \<noteq> None \<longleftrightarrow> even (length s) \<and> list_all (\<lambda>c. hex_val c \<noteq> None) s"
  using hex_decode_total hex_decode_SomeD by fastforce

subsection \<open>Decimal numbers\<close>

fun show_nat :: "nat \<Rightarrow> string" where
  "show_nat n = (if n < 10 then [char_of (48 + n)] else show_nat (n div 10) @ [char_of (48 + n mod 10)])"

declare show_nat.simps [simp del]

definition show_int :: "int \<Rightarrow> string" where
  "show_int i = (if i < 0 then CHR ''-'' # show_nat (nat (- i)) else show_nat (nat i))"

definition digit_val :: "char \<Rightarrow> nat" where
  "digit_val c = byte c - 48"

definition nat_of_digits :: "string \<Rightarrow> nat" where
  "nat_of_digits s = foldl (\<lambda>n c. 10 * n + digit_val c) 0 s"

definition int64_range :: "int \<Rightarrow> bool" where
  "int64_range i \<longleftrightarrow> - (2 ^ 63) \<le> i \<and> i < 2 ^ 63"

definition parse_digits :: "string \<Rightarrow> nat option" where
  "parse_digits s = (if s \<noteq> [] \<and> list_all is_dec_digit s then Some (nat_of_digits s) else None)"

text \<open>
  \<open>strconv.ParseInt(s, 10, 64)\<close> and, \<open>int\<close> being 64 bits wide, \<open>strconv.Atoi(s)\<close>: an optional
  sign, then decimal digits only, and a value in range.
\<close>

definition parse_int :: "string \<Rightarrow> int option" where
  "parse_int s =
     (let (neg, ds) = (case s of c # r \<Rightarrow> if c = CHR ''-'' then (True, r)
                                          else if c = CHR ''+'' then (False, r) else (False, s)
                        | [] \<Rightarrow> (False, s))
      in case parse_digits ds of
           None \<Rightarrow> None
         | Some n \<Rightarrow> let i = (if neg then - int n else int n)
                     in if int64_range i then Some i else None)"

lemma show_nat_digits: "show_nat n \<noteq> [] \<and> list_all is_dec_digit (show_nat n)"
proof (induction n rule: show_nat.induct)
  case (1 n)
  then show ?case by (cases "n < 10") (auto simp: show_nat.simps [of n] is_dec_digit_def)
qed

lemma nat_of_digits_snoc [simp]: "nat_of_digits (s @ [c]) = 10 * nat_of_digits s + digit_val c"
  by (simp add: nat_of_digits_def)

lemma nat_of_digits_show [simp]: "nat_of_digits (show_nat n) = n"
proof (induction n rule: show_nat.induct)
  case (1 n)
  show ?case
  proof (cases "n < 10")
    case True
    then show ?thesis by (simp add: show_nat.simps [of n] nat_of_digits_def digit_val_def)
  next
    case False
    with 1 have "nat_of_digits (show_nat n) = 10 * (n div 10) + n mod 10"
      by (simp add: show_nat.simps [of n] digit_val_def)
    then show ?thesis by simp
  qed
qed

lemma parse_digits_show [simp]: "parse_digits (show_nat n) = Some n"
  using show_nat_digits [of n] by (simp add: parse_digits_def)

lemma show_nat_Cons: "\<exists>c r. show_nat n = c # r \<and> is_dec_digit c"
  using show_nat_digits [of n] by (cases "show_nat n") auto

lemma not_sign_digit: "is_dec_digit c \<Longrightarrow> c \<noteq> CHR ''-'' \<and> c \<noteq> CHR ''+''"
  by (auto simp: is_dec_digit_def)

lemma parse_int_show [simp]: "int64_range i \<Longrightarrow> parse_int (show_int i) = Some i"
proof -
  assume r: "int64_range i"
  obtain c s where "show_nat (nat i) = c # s" "is_dec_digit c"
    using show_nat_Cons [of "nat i"] by blast
  then show ?thesis
    using r parse_digits_show [of "nat i"] not_sign_digit [of c]
    by (auto simp: parse_int_def show_int_def)
qed

interpretation dec64: codec show_int parse_int int64_range
  by unfold_locales simp

subsection \<open>Prefixes, splitting, trimming (strings)\<close>

fun has_prefix :: "string \<Rightarrow> string \<Rightarrow> bool" where
  "has_prefix [] s = True"
| "has_prefix (p # ps) [] = False"
| "has_prefix (p # ps) (c # s) = (p = c \<and> has_prefix ps s)"

lemma has_prefix_iff: "has_prefix p s \<longleftrightarrow> (\<exists>r. s = p @ r)"
  by (induction p s rule: has_prefix.induct) auto

definition trim_prefix :: "string \<Rightarrow> string \<Rightarrow> string" where
  "trim_prefix p s = (if has_prefix p s then drop (length p) s else s)"

text \<open>\<open>strings.Split\<close> for a separator of one byte: always at least one piece.\<close>

fun split_on :: "char \<Rightarrow> string \<Rightarrow> string list" where
  "split_on c [] = [[]]"
| "split_on c (x # s) =
     (if x = c then [] # split_on c s
      else case split_on c s of p # ps \<Rightarrow> (x # p) # ps | [] \<Rightarrow> [[x]])"

lemma split_on_nonempty [simp]: "split_on c s \<noteq> []"
  by (induction c s rule: split_on.induct) (auto split: list.splits)

lemma split_on_no_sep [simp]: "c \<notin> set s \<Longrightarrow> split_on c s = [s]"
  by (induction s) auto

lemma split_on_append_sep [simp]:
  "c \<notin> set s \<Longrightarrow> split_on c (s @ c # t) = s # split_on c t"
  by (induction s) auto

definition remove_all :: "char \<Rightarrow> string \<Rightarrow> string" where
  "remove_all c s = filter (\<lambda>x. x \<noteq> c) s"

end
