(* ===== verification/Go_Json.thy ===== *)
theory Go_Json
  imports Go_Strings
begin

text \<open>
  Go's \<open>encoding/json\<close> as the repository uses it, on bytes: the UTF-8 decoder behind it, the
  string encoder (with its HTML escapes and its replacement of invalid UTF-8), the validating
  parser (with its nesting limit), \<open>compact\<close> for raw messages, string unquoting, and the
  lookup of a struct field by an object key.  The parser returns a value tree in which every
  string literal and every member's value keeps its source text.
\<close>

subsection \<open>UTF-8\<close>

definition in_range :: "nat \<Rightarrow> nat \<Rightarrow> char \<Rightarrow> bool" where
  "in_range lo hi c \<longleftrightarrow> lo \<le> byte c \<and> byte c \<le> hi"

text \<open>Length of the valid multi-byte sequence the string starts with; \<open>None\<close> is \<open>RuneError\<close> of width 1.\<close>

fun utf8_len :: "bytes \<Rightarrow> nat option" where
  "utf8_len [] = None"
| "utf8_len (b0 # r) =
     (if in_range 194 223 b0 then
        (case r of b1 # _ \<Rightarrow> if in_range 128 191 b1 then Some 2 else None | _ \<Rightarrow> None)
      else if in_range 224 239 b0 then
        (case r of b1 # b2 # _ \<Rightarrow>
           if in_range (if byte b0 = 224 then 160 else 128) (if byte b0 = 237 then 159 else 191) b1
              \<and> in_range 128 191 b2 then Some 3 else None
         | _ \<Rightarrow> None)
      else if in_range 240 244 b0 then
        (case r of b1 # b2 # b3 # _ \<Rightarrow>
           if in_range (if byte b0 = 240 then 144 else 128) (if byte b0 = 244 then 143 else 191) b1
              \<and> in_range 128 191 b2 \<and> in_range 128 191 b3 then Some 4 else None
         | _ \<Rightarrow> None)
      else None)"

definition is_ascii :: "char \<Rightarrow> bool" where
  "is_ascii c \<longleftrightarrow> byte c < 128"

definition rune_error :: bytes where
  "rune_error = [CHR 0xEF, CHR 0xBF, CHR 0xBD]"

definition utf8_encode :: "nat \<Rightarrow> bytes" where
  "utf8_encode r =
     (if r < 128 then [char_of r]
      else if r < 2048 then [char_of (192 + r div 64), char_of (128 + r mod 64)]
      else if 55296 \<le> r \<and> r < 57344 \<or> 1114112 \<le> r then rune_error
      else if r < 65536 then
        [char_of (224 + r div 4096), char_of (128 + r div 64 mod 64), char_of (128 + r mod 64)]
      else [char_of (240 + r div 262144), char_of (128 + r div 4096 mod 64),
            char_of (128 + r div 64 mod 64), char_of (128 + r mod 64)])"

lemma utf8_len_bounds:
  "utf8_len s = Some n \<Longrightarrow> 2 \<le> n \<and> n \<le> length s"
  by (cases s) (auto split: if_splits list.splits)

text \<open>Every invalid byte replaced by U+FFFD, as Go's decoder reads the string.\<close>

function to_valid_utf8 :: "bytes \<Rightarrow> bytes" where
  "to_valid_utf8 s =
     (case s of [] \<Rightarrow> []
      | c # r \<Rightarrow>
          if is_ascii c then c # to_valid_utf8 r
          else (case utf8_len s of
                  None \<Rightarrow> rune_error @ to_valid_utf8 r
                | Some n \<Rightarrow> take n s @ to_valid_utf8 (drop n s)))"
  by pat_completeness auto
termination
  by (relation "measure length") (auto dest: utf8_len_bounds simp del: utf8_len.simps)

declare to_valid_utf8.simps [simp del]

definition valid_utf8 :: "bytes \<Rightarrow> bool" where
  "valid_utf8 s \<longleftrightarrow> to_valid_utf8 s = s"

subsection \<open>Encoding strings\<close>

abbreviation dquote :: char where "dquote \<equiv> CHR 0x22"
abbreviation bslash :: char where "bslash \<equiv> CHR 0x5C"

text \<open>\<open>htmlSafeSet\<close>\<close>

definition html_safe :: "char \<Rightarrow> bool" where
  "html_safe c \<longleftrightarrow> 32 \<le> byte c \<and> byte c < 128 \<and>
     c \<noteq> dquote \<and> c \<noteq> bslash \<and> c \<noteq> CHR ''<'' \<and> c \<noteq> CHR ''>'' \<and> c \<noteq> CHR ''&''"

definition u00 :: "char \<Rightarrow> string" where
  "u00 c = bslash # ''u00'' @ hex_byte c"

definition esc_ascii :: "char \<Rightarrow> string" where
  "esc_ascii c =
     (if html_safe c then [c]
      else if c = dquote \<or> c = bslash then [bslash, c]
      else if byte c = 8 then bslash # ''b''
      else if byte c = 12 then bslash # ''f''
      else if byte c = 10 then bslash # ''n''
      else if byte c = 13 then bslash # ''r''
      else if byte c = 9 then bslash # ''t''
      else u00 c)"

text \<open>U+2028 and U+2029 are \<open>E2 80 A8\<close> and \<open>E2 80 A9\<close>.\<close>

fun line_sep :: "bytes \<Rightarrow> char option" where
  "line_sep (a # b # c # _) =
     (if byte a = 226 \<and> byte b = 128 \<and> (byte c = 168 \<or> byte c = 169) then Some c else None)"
| "line_sep _ = None"

definition u202 :: "char \<Rightarrow> string" where
  "u202 c = bslash # ''u202'' @ [hex_digit (byte c mod 16)]"

function esc_string :: "bytes \<Rightarrow> string" where
  "esc_string s =
     (case s of [] \<Rightarrow> []
      | c # r \<Rightarrow>
          if is_ascii c then esc_ascii c @ esc_string r
          else (case utf8_len s of
                  None \<Rightarrow> (bslash # ''ufffd'') @ esc_string r
                | Some n \<Rightarrow>
                    (case line_sep s of Some x \<Rightarrow> u202 x | None \<Rightarrow> take n s) @ esc_string (drop n s)))"
  by pat_completeness auto
termination
  by (relation "measure length") (auto dest: utf8_len_bounds simp del: utf8_len.simps)

declare esc_string.simps [simp del]

definition enc_string :: "bytes \<Rightarrow> string" where
  "enc_string s = dquote # esc_string s @ [dquote]"

subsection \<open>Parsing\<close>

datatype json =
    JNull
  | JBool bool
  | JNum string
  | JStr string
  | JArr "json list"
  | JObj "(string \<times> json \<times> string) list"

definition is_ws :: "char \<Rightarrow> bool" where
  "is_ws c \<longleftrightarrow> c = CHR '' '' \<or> byte c = 9 \<or> byte c = 10 \<or> byte c = 13"

definition skip_ws :: "string \<Rightarrow> string" where
  "skip_ws s = dropWhile is_ws s"

definition is_hex :: "char \<Rightarrow> bool" where
  "is_hex c \<longleftrightarrow> hex_val c \<noteq> None"

definition esc_letter :: "char \<Rightarrow> bool" where
  "esc_letter c \<longleftrightarrow> c \<in> set ''bfnrt/'' \<or> c = bslash \<or> c = dquote"

text \<open>The literal after its opening quote: its text and what follows the closing quote.\<close>

fun jstring :: "string \<Rightarrow> (string \<times> string) option" where
  "jstring [] = None"
| "jstring (c # r) =
     (if c = dquote then Some ([], r)
      else if c = bslash then
        (case r of
           [] \<Rightarrow> None
         | e # r' \<Rightarrow>
             if esc_letter e then map_option (\<lambda>(t, u). (c # e # t, u)) (jstring r')
             else if e = CHR ''u'' then
               (case r' of
                  h1 # h2 # h3 # h4 # r'' \<Rightarrow>
                    if is_hex h1 \<and> is_hex h2 \<and> is_hex h3 \<and> is_hex h4
                    then map_option (\<lambda>(t, u). (c # e # h1 # h2 # h3 # h4 # t, u)) (jstring r'')
                    else None
                | _ \<Rightarrow> None)
             else None)
      else if byte c < 32 then None
      else map_option (\<lambda>(t, u). (c # t, u)) (jstring r))"

definition jdigits1 :: "string \<Rightarrow> (string \<times> string) option" where
  "jdigits1 s = (let d = takeWhile is_dec_digit s
                 in if d = [] then None else Some (d, dropWhile is_dec_digit s))"

definition jint :: "string \<Rightarrow> (string \<times> string) option" where
  "jint s = (case s of c # r \<Rightarrow> if c = CHR ''0'' then Some ([c], r) else jdigits1 s | [] \<Rightarrow> None)"

definition jfrac :: "string \<Rightarrow> (string \<times> string) option" where
  "jfrac s = (case s of c # r \<Rightarrow>
                if c = CHR ''.'' then map_option (\<lambda>(d, u). (c # d, u)) (jdigits1 r) else Some ([], s)
              | [] \<Rightarrow> Some ([], s))"

definition jexp :: "string \<Rightarrow> (string \<times> string) option" where
  "jexp s = (case s of c # r \<Rightarrow>
               if c = CHR ''e'' \<or> c = CHR ''E'' then
                 (case r of g # r' \<Rightarrow>
                    if g = CHR ''+'' \<or> g = CHR ''-''
                    then map_option (\<lambda>(d, u). (c # g # d, u)) (jdigits1 r')
                    else map_option (\<lambda>(d, u). (c # d, u)) (jdigits1 r)
                  | [] \<Rightarrow> None)
               else Some ([], s)
             | [] \<Rightarrow> Some ([], s))"

definition jnumber :: "string \<Rightarrow> (string \<times> string) option" where
  "jnumber s =
     (let (sg, s1) = (case s of c # r \<Rightarrow> if c = CHR ''-'' then ([c], r) else ([], s) | [] \<Rightarrow> ([], s))
      in case jint s1 of None \<Rightarrow> None
         | Some (i, s2) \<Rightarrow> (case jfrac s2 of None \<Rightarrow> None
           | Some (f, s3) \<Rightarrow> (case jexp s3 of None \<Rightarrow> None
             | Some (e, s4) \<Rightarrow> Some (sg @ i @ f @ e, s4))))"

definition jlit :: "string \<Rightarrow> json \<Rightarrow> string \<Rightarrow> (json \<times> string) option" where
  "jlit w v s = (if has_prefix w s then Some (v, drop (length w) s) else None)"

text \<open>
  The first number is fuel (more than twice the length of the text is enough, see
  \<open>jvalue_fuel_enough\<close>), the second the containers that may still be opened: Go's scanner refuses a nesting deeper than
  10000.
\<close>

fun jvalue :: "nat \<Rightarrow> nat \<Rightarrow> string \<Rightarrow> (json \<times> string) option"
  and jelems :: "nat \<Rightarrow> nat \<Rightarrow> string \<Rightarrow> (json list \<times> string) option"
  and jmembers :: "nat \<Rightarrow> nat \<Rightarrow> string \<Rightarrow> ((string \<times> json \<times> string) list \<times> string) option"
where
  "jvalue 0 d s = None"
| "jvalue (Suc f) d s =
     (case s of
        [] \<Rightarrow> None
      | c # r \<Rightarrow>
          if c = dquote then map_option (\<lambda>(t, u). (JStr t, u)) (jstring r)
          else if c = CHR ''{'' then
            (if d = 0 then None
             else case skip_ws r of
                    [] \<Rightarrow> None
                  | x # r' \<Rightarrow> if x = CHR ''}'' then Some (JObj [], r')
                             else map_option (\<lambda>(m, u). (JObj m, u)) (jmembers f (d - 1) (x # r')))
          else if c = CHR ''['' then
            (if d = 0 then None
             else case skip_ws r of
                    [] \<Rightarrow> None
                  | x # r' \<Rightarrow> if x = CHR '']'' then Some (JArr [], r')
                             else map_option (\<lambda>(m, u). (JArr m, u)) (jelems f (d - 1) (x # r')))
          else if c = CHR ''t'' then jlit ''true'' (JBool True) s
          else if c = CHR ''f'' then jlit ''false'' (JBool False) s
          else if c = CHR ''n'' then jlit ''null'' JNull s
          else map_option (\<lambda>(t, u). (JNum t, u)) (jnumber s))"
| "jelems 0 d s = None"
| "jelems (Suc f) d s =
     (case jvalue f d s of
        None \<Rightarrow> None
      | Some (v, r) \<Rightarrow>
          (case skip_ws r of
             [] \<Rightarrow> None
           | x # r' \<Rightarrow>
               if x = CHR '']'' then Some ([v], r')
               else if x = CHR '','' then map_option (\<lambda>(vs, u). (v # vs, u)) (jelems f d (skip_ws r'))
               else None))"
| "jmembers 0 d s = None"
| "jmembers (Suc f) d s =
     (case s of
        [] \<Rightarrow> None
      | c # r \<Rightarrow>
          if c \<noteq> dquote then None
          else (case jstring r of
                  None \<Rightarrow> None
                | Some (k, r1) \<Rightarrow>
                    (case skip_ws r1 of
                       [] \<Rightarrow> None
                     | y # r2 \<Rightarrow>
                         if y \<noteq> CHR '':'' then None
                         else (case jvalue f d (skip_ws r2) of
                                 None \<Rightarrow> None
                               | Some (v, r3) \<Rightarrow>
                                   (let raw = take (length (skip_ws r2) - length r3) (skip_ws r2)
                                    in case skip_ws r3 of
                                         [] \<Rightarrow> None
                                       | x # r4 \<Rightarrow>
                                           if x = CHR ''}'' then Some ([(k, v, raw)], r4)
                                           else if x = CHR '','' then
                                             map_option (\<lambda>(ms, u). ((k, v, raw) # ms, u))
                                               (jmembers f d (skip_ws r4))
                                           else None)))))"

definition max_nesting :: nat where
  "max_nesting = 10000"

definition json_parse :: "string \<Rightarrow> json option" where
  "json_parse s =
     (case jvalue (Suc (2 * length s)) max_nesting (skip_ws s) of
        None \<Rightarrow> None
      | Some (v, r) \<Rightarrow> if skip_ws r = [] then Some v else None)"

definition json_valid :: "string \<Rightarrow> bool" where
  "json_valid s \<longleftrightarrow> json_parse s \<noteq> None"

subsection \<open>Compacting a raw message\<close>

fun compact_out :: "string \<Rightarrow> string" and compact_in :: "string \<Rightarrow> string" where
  "compact_out [] = []"
| "compact_out (c # r) =
     (if is_ws c then compact_out r else if c = dquote then c # compact_in r else c # compact_out r)"
| "compact_in [] = []"
| "compact_in (c # r) =
     (if c = dquote then c # compact_out r
      else if c = bslash then (case r of [] \<Rightarrow> [c] | e # r' \<Rightarrow> c # e # compact_in r')
      else if c = CHR ''<'' \<or> c = CHR ''>'' \<or> c = CHR ''&'' then u00 c @ compact_in r
      else case r of
             b # x # r' \<Rightarrow> (case line_sep (c # r) of
                              Some y \<Rightarrow> u202 y @ compact_in r'
                            | None \<Rightarrow> c # compact_in r)
           | _ \<Rightarrow> c # compact_in r)"

text \<open>\<open>appendCompact(b, src, true)\<close>: an error for text that is not one JSON value.\<close>

definition json_compact :: "string \<Rightarrow> string option" where
  "json_compact s = (if json_valid s then Some (compact_out s) else None)"

subsection \<open>Unquoting\<close>

definition simple_escape :: "char \<Rightarrow> char" where
  "simple_escape e =
     (if e = CHR ''b'' then CHR 0x08 else if e = CHR ''f'' then CHR 0x0C
      else if e = CHR ''n'' then CHR 0x0A else if e = CHR ''r'' then CHR 0x0D
      else if e = CHR ''t'' then CHR 0x09 else e)"

definition hex4 :: "char \<Rightarrow> char \<Rightarrow> char \<Rightarrow> char \<Rightarrow> nat" where
  "hex4 a b c d = 4096 * the (hex_val a) + 256 * the (hex_val b) + 16 * the (hex_val c) + the (hex_val d)"

text \<open>\<open>getu4\<close>: the code unit of a leading \<open>\uXXXX\<close>.\<close>

fun getu4 :: "string \<Rightarrow> nat option" where
  "getu4 (x # u # a # b # c # d # _) =
     (if x = bslash \<and> u = CHR ''u'' \<and> is_hex a \<and> is_hex b \<and> is_hex c \<and> is_hex d
      then Some (hex4 a b c d) else None)"
| "getu4 _ = None"

definition is_surrogate :: "nat \<Rightarrow> bool" where
  "is_surrogate r \<longleftrightarrow> 55296 \<le> r \<and> r < 57344"

definition surrogate_pair :: "nat \<Rightarrow> nat option \<Rightarrow> nat option" where
  "surrogate_pair hi lo =
     (case lo of None \<Rightarrow> None
      | Some l \<Rightarrow> if 55296 \<le> hi \<and> hi < 56320 \<and> 56320 \<le> l \<and> l < 57344
                 then Some ((hi - 55296) * 1024 + (l - 56320) + 65536) else None)"

text \<open>On the text of a string literal; where no literal can go on, the result ends.\<close>

function unquote :: "string \<Rightarrow> bytes" where
  "unquote s =
     (case s of [] \<Rightarrow> []
      | c # r \<Rightarrow>
          if c = bslash then
            (case getu4 s of
               Some u \<Rightarrow>
                 if is_surrogate u then
                   (case surrogate_pair u (getu4 (drop 6 s)) of
                      Some p \<Rightarrow> utf8_encode p @ unquote (drop 12 s)
                    | None \<Rightarrow> rune_error @ unquote (drop 6 s))
                 else utf8_encode u @ unquote (drop 6 s)
             | None \<Rightarrow>
                 (case r of [] \<Rightarrow> []
                  | e # r' \<Rightarrow> if esc_letter e then simple_escape e # unquote r' else []))
          else if is_ascii c then c # unquote r
          else (case utf8_len s of
                  None \<Rightarrow> rune_error @ unquote r
                | Some n \<Rightarrow> take n s @ unquote (drop n s)))"
  by pat_completeness auto
termination
  by (relation "measure length") (auto dest: utf8_len_bounds simp del: utf8_len.simps)

declare unquote.simps [simp del]

subsection \<open>Struct fields by object key\<close>

text \<open>
  \<open>foldName\<close>: ASCII letters in upper case, and the two other runes that fold to an ASCII
  letter, U+017F (long s) and U+212A (Kelvin sign).  No other key can fold to the name of a
  field of this repository, which are all ASCII.
\<close>

fun fold_name :: "bytes \<Rightarrow> bytes" where
  "fold_name [] = []"
| "fold_name (c # r) =
     (if 97 \<le> byte c \<and> byte c \<le> 122 then char_of (byte c - 32) # fold_name r
      else case r of
             b # r' \<Rightarrow>
               if byte c = 197 \<and> byte b = 191 then CHR ''S'' # fold_name r'
               else (case r' of
                       x # r'' \<Rightarrow>
                         if byte c = 226 \<and> byte b = 132 \<and> byte x = 170 then CHR ''K'' # fold_name r''
                         else c # fold_name r
                     | [] \<Rightarrow> c # fold_name r)
           | [] \<Rightarrow> c # fold_name r)"

text \<open>The field of a struct with the given names that an object key selects, if any.\<close>

definition field_of :: "string list \<Rightarrow> bytes \<Rightarrow> string option" where
  "field_of names k =
     (if k \<in> set names then Some k else find (\<lambda>n. fold_name n = fold_name k) names)"

subsection \<open>Structs\<close>

text \<open>An object whose member values are given as texts, as the struct encoder writes it.\<close>

fun enc_fields :: "(string \<times> string) list \<Rightarrow> string" where
  "enc_fields [] = []"
| "enc_fields [(k, t)] = enc_string k @ '':'' @ t"
| "enc_fields ((k, t) # f # fs) = enc_string k @ '':'' @ t @ '','' @ enc_fields (f # fs)"

definition enc_object :: "(string \<times> string) list \<Rightarrow> string" where
  "enc_object fs = ''{'' @ enc_fields fs @ ''}''"

text \<open>Storing a value into a struct field: the new content and whether a type error was recorded.\<close>

definition put_string :: "json \<Rightarrow> string \<Rightarrow> string \<times> bool" where
  "put_string v old = (case v of JNull \<Rightarrow> (old, False) | JStr t \<Rightarrow> (unquote t, False) | _ \<Rightarrow> (old, True))"

definition put_int :: "json \<Rightarrow> int \<Rightarrow> int \<times> bool" where
  "put_int v old =
     (case v of JNull \<Rightarrow> (old, False)
      | JNum t \<Rightarrow> (case parse_int t of Some i \<Rightarrow> (i, False) | None \<Rightarrow> (old, True))
      | _ \<Rightarrow> (old, True))"

text \<open>Decoding into a struct: the members in order, each into the field its key selects.\<close>

fun decode_members ::
  "string list \<Rightarrow> (string \<Rightarrow> json \<Rightarrow> string \<Rightarrow> 's \<Rightarrow> 's \<times> bool) \<Rightarrow> (string \<times> json \<times> string) list \<Rightarrow> 's \<times> bool \<Rightarrow> 's \<times> bool"
where
  "decode_members names put [] (s, e) = (s, e)"
| "decode_members names put ((k, v, raw) # ms) (s, e) =
     (case field_of names (unquote k) of
        None \<Rightarrow> decode_members names put ms (s, e)
      | Some n \<Rightarrow> (let (s', e') = put n v raw s in decode_members names put ms (s', e \<or> e')))"

text \<open>\<open>json.Unmarshal(data, &s)\<close>: the struct afterwards and whether an error is returned.\<close>

definition unmarshal ::
  "string list \<Rightarrow> (string \<Rightarrow> json \<Rightarrow> string \<Rightarrow> 's \<Rightarrow> 's \<times> bool) \<Rightarrow> string \<Rightarrow> 's \<Rightarrow> 's \<times> bool"
where
  "unmarshal names put data s =
     (case json_parse data of
        None \<Rightarrow> (s, True)
      | Some JNull \<Rightarrow> (s, False)
      | Some (JObj ms) \<Rightarrow> decode_members names put ms (s, False)
      | Some _ \<Rightarrow> (s, True))"

definition json_text :: "nat \<Rightarrow> string \<Rightarrow> bool" where
  "json_text d p \<longleftrightarrow> (\<exists>v. jvalue (Suc (2 * length p)) d p = Some (v, []))"

definition json_tree :: "nat \<Rightarrow> string \<Rightarrow> json" where
  "json_tree d p = fst (the (jvalue (Suc (2 * length p)) d p))"

text \<open>The parser and the compactor are unfolded by form (\<open>Go_Json_Facts\<close>), not blindly.\<close>

declare jstring.simps(2) [simp del]
declare jvalue.simps(2) [simp del] jelems.simps(2) [simp del] jmembers.simps(2) [simp del]
declare compact_out.simps(2) [simp del] compact_in.simps(2) [simp del]

end
