(* ===== verification/Go_Json_Facts.thy ===== *)
theory Go_Json_Facts
  imports Go_Json
begin

text \<open>
  What the model of \<open>encoding/json\<close> guarantees: parsing consumes a non-empty prefix and is
  independent of the fuel once there is enough; a parsed value does not depend on the text
  after it; an encoded string literal scans as itself and unquotes to the string (invalid UTF-8
  replaced); compacting keeps a value a value and is idempotent; the raw text of an object
  member is a value; an encoded object parses to its members.
\<close>

subsection \<open>Successful parses, by the form of the text\<close>

lemma jstring_text: "jstring s = Some (t, u) \<Longrightarrow> s = t @ dquote # u"
proof (induction s arbitrary: t u rule: jstring.induct)
  case (2 c r)
  consider "c = dquote" | "c = bslash" | "c \<noteq> dquote" "c \<noteq> bslash" by blast
  then show ?case
  proof cases
    case 1
    with "2.prems" show ?thesis by (simp add: jstring.simps(2))
  next
    case b: 2
    then obtain e r' where r: "r = e # r'" using "2.prems"
      by (cases r) (simp_all add: jstring.simps(2))
    show ?thesis
    proof (cases "esc_letter e")
      case True
      with b r "2.prems" "2.IH"(1) [OF _ _ r] show ?thesis
        by (auto simp: jstring.simps(2))
    next
      case False
      with b r "2.prems" "2.IH"(2) [OF _ _ r] show ?thesis
        by (auto simp: jstring.simps(2) split: if_splits list.splits)
    qed
  next
    case 3
    with "2.prems" show ?thesis
      by (auto simp: jstring.simps(2) split: if_splits dest: "2.IH"(3))
  qed
qed simp

lemma jdigits1_text: "jdigits1 s = Some (t, u) \<Longrightarrow> s = t @ u \<and> t \<noteq> []"
  by (auto simp: jdigits1_def Let_def split: if_splits)

lemma jint_text: "jint s = Some (t, u) \<Longrightarrow> s = t @ u \<and> t \<noteq> []"
  by (auto simp: jint_def dest!: jdigits1_text split: if_splits list.splits)

lemma jfrac_text: "jfrac s = Some (t, u) \<Longrightarrow> s = t @ u"
  by (auto simp: jfrac_def dest!: jdigits1_text split: if_splits list.splits)

lemma jexp_text: "jexp s = Some (t, u) \<Longrightarrow> s = t @ u"
  by (auto simp: jexp_def dest!: jdigits1_text split: if_splits list.splits)

lemma jnumber_text: "jnumber s = Some (t, u) \<Longrightarrow> s = t @ u \<and> t \<noteq> []"
  by (auto simp: jnumber_def Let_def dest!: jint_text jfrac_text jexp_text
      split: if_splits list.splits option.splits)

lemma jlit_text: "jlit w v s = Some (x, u) \<Longrightarrow> s = w @ u \<and> x = v"
  by (auto simp: jlit_def has_prefix_iff split: if_splits)

lemma skip_ws_text: "\<exists>w. s = w @ skip_ws s"
  by (metis skip_ws_def takeWhile_dropWhile_id)

definition consumes :: "string \<Rightarrow> string \<Rightarrow> bool" where
  "consumes s u \<longleftrightarrow> (\<exists>p. p \<noteq> [] \<and> s = p @ u)"

lemma consumes_Cons [simp]: "consumes (c # s) s"
  unfolding consumes_def by (rule exI [of _ "[c]"]) simp

lemma consumes_trans [trans]: "consumes s t \<Longrightarrow> consumes t u \<Longrightarrow> consumes s u"
  unfolding consumes_def by (metis append_assoc append_is_Nil_conv)

lemma consumes_Cons_left: "consumes s t \<Longrightarrow> consumes (c # s) t"
  by (metis consumes_Cons consumes_trans)

lemma consumes_skip: "consumes (skip_ws s) u \<Longrightarrow> consumes s u"
  unfolding consumes_def by (metis append_assoc append_is_Nil_conv skip_ws_text)

lemma consumes_length: "consumes s u \<Longrightarrow> length u < length s"
  by (auto simp: consumes_def)

lemma jstring_consumes: "jstring s = Some (t, u) \<Longrightarrow> consumes s u"
  by (drule jstring_text) (auto simp: consumes_def)

lemma skip_eq_consumes: "skip_ws s = c # r \<Longrightarrow> consumes s r"
  by (rule consumes_skip) simp

definition opens :: "char \<Rightarrow> bool" where
  "opens c \<longleftrightarrow> c = dquote \<or> c = CHR ''{'' \<or> c = CHR ''[''"

lemma jvalue_string: "jvalue (Suc f) d (dquote # r) = map_option (\<lambda>(t, u). (JStr t, u)) (jstring r)"
  by (simp add: jvalue.simps(2))

lemma jvalue_object:
  "jvalue (Suc f) d (CHR ''{'' # r) =
     (if d = 0 then None
      else case skip_ws r of
             [] \<Rightarrow> None
           | x # r' \<Rightarrow> if x = CHR ''}'' then Some (JObj [], r')
                      else map_option (\<lambda>(m, u). (JObj m, u)) (jmembers f (d - 1) (x # r')))"
  by (simp add: jvalue.simps(2))

lemma jvalue_array:
  "jvalue (Suc f) d (CHR ''['' # r) =
     (if d = 0 then None
      else case skip_ws r of
             [] \<Rightarrow> None
           | x # r' \<Rightarrow> if x = CHR '']'' then Some (JArr [], r')
                      else map_option (\<lambda>(m, u). (JArr m, u)) (jelems f (d - 1) (x # r')))"
  by (simp add: jvalue.simps(2))

definition jscalar :: "string \<Rightarrow> (json \<times> string) option" where
  "jscalar s =
     (case s of [] \<Rightarrow> None
      | c # r \<Rightarrow> if c = CHR ''t'' then jlit ''true'' (JBool True) s
                else if c = CHR ''f'' then jlit ''false'' (JBool False) s
                else if c = CHR ''n'' then jlit ''null'' JNull s
                else map_option (\<lambda>(t, u). (JNum t, u)) (jnumber s))"

lemma jvalue_scalar: "\<not> opens c \<Longrightarrow> jvalue (Suc f) d (c # r) = jscalar (c # r)"
  by (simp add: jvalue.simps(2) opens_def jscalar_def)

lemma jvalue_Nil [simp]: "jvalue f d [] = None"
  by (cases f) (simp_all add: jvalue.simps(2))

lemma jelems_Nil [simp]: "jelems f d [] = None"
  by (cases f) (simp_all add: jelems.simps(2))

lemma jmembers_Nil [simp]: "jmembers f d [] = None"
  by (cases f) (simp_all add: jmembers.simps(2))

lemma jscalar_text: "jscalar s = Some (v, u) \<Longrightarrow> \<exists>p. p \<noteq> [] \<and> s = p @ u"
  by (fastforce simp: jscalar_def dest!: jlit_text jnumber_text split: list.splits if_splits)

lemma jscalar_consumes: "jscalar s = Some (v, u) \<Longrightarrow> consumes s u"
  by (drule jscalar_text) (simp add: consumes_def)

lemma jelems_SomeD:
  assumes "jelems f d s = Some (vs, u)"
  shows "\<exists>f' v r x r'. f = Suc f' \<and> jvalue f' d s = Some (v, r) \<and> skip_ws r = x # r' \<and>
    (x = CHR '']'' \<and> vs = [v] \<and> u = r' \<or>
     x = CHR '','' \<and> (\<exists>ws. vs = v # ws \<and> jelems f' d (skip_ws r') = Some (ws, u)))"
  using assms
  by (cases f) (auto simp: jelems.simps(2) split: option.splits list.splits if_splits)

lemma jmembers_SomeD:
  assumes "jmembers f d s = Some (ms, u)"
  shows "\<exists>f' r k r1 r2 v r3 x r4. f = Suc f' \<and> s = dquote # r \<and> jstring r = Some (k, r1) \<and>
    skip_ws r1 = CHR '':'' # r2 \<and> jvalue f' d (skip_ws r2) = Some (v, r3) \<and> skip_ws r3 = x # r4 \<and>
    (let raw = take (length (skip_ws r2) - length r3) (skip_ws r2) in
     x = CHR ''}'' \<and> ms = [(k, v, raw)] \<and> u = r4 \<or>
     x = CHR '','' \<and> (\<exists>ns. ms = (k, v, raw) # ns \<and> jmembers f' d (skip_ws r4) = Some (ns, u)))"
proof (cases f)
  case 0
  with assms show ?thesis by simp
next
  case (Suc f')
  from assms Suc obtain r where s: "s = dquote # r"
    by (auto simp: jmembers.simps(2) split: list.splits if_splits)
  from assms Suc s obtain k r1 where k: "jstring r = Some (k, r1)"
    by (auto simp: jmembers.simps(2) split: option.splits)
  from assms Suc s k obtain r2 where r2: "skip_ws r1 = CHR '':'' # r2"
    by (auto simp: jmembers.simps(2) split: list.splits if_splits)
  from assms Suc s k r2 obtain v r3 where v: "jvalue f' d (skip_ws r2) = Some (v, r3)"
    by (auto simp: jmembers.simps(2) split: option.splits)
  from assms Suc s k r2 v obtain x r4 where x: "skip_ws r3 = x # r4"
    by (auto simp: jmembers.simps(2) Let_def split: list.splits)
  from assms Suc s k r2 v x show ?thesis
    by (auto simp: jmembers.simps(2) Let_def split: if_splits)
qed

lemma jvalue_SomeD:
  assumes "jvalue f d s = Some (v, u)"
  obtains (string) f' r t where "f = Suc f'" "s = dquote # r" "jstring r = Some (t, u)" "v = JStr t"
  | (obj0) f' r where "f = Suc f'" "s = CHR ''{'' # r" "0 < d" "skip_ws r = CHR ''}'' # u" "v = JObj []"
  | (obj) f' r x r' m where "f = Suc f'" "s = CHR ''{'' # r" "0 < d" "skip_ws r = x # r'" "x \<noteq> CHR ''}''"
      "jmembers f' (d - 1) (x # r') = Some (m, u)" "v = JObj m"
  | (arr0) f' r where "f = Suc f'" "s = CHR ''['' # r" "0 < d" "skip_ws r = CHR '']'' # u" "v = JArr []"
  | (arr) f' r x r' m where "f = Suc f'" "s = CHR ''['' # r" "0 < d" "skip_ws r = x # r'" "x \<noteq> CHR '']''"
      "jelems f' (d - 1) (x # r') = Some (m, u)" "v = JArr m"
  | (scalar) f' c r where "f = Suc f'" "s = c # r" "\<not> opens c" "jscalar s = Some (v, u)"
proof -
  from assms obtain f' c r where f: "f = Suc f'" and s: "s = c # r"
    by (cases f; cases s) simp_all
  consider "c = dquote" | "c = CHR ''{''" | "c = CHR ''[''" | "\<not> opens c"
    by (auto simp: opens_def)
  then show thesis
  proof cases
    case 1
    with assms f s show ?thesis by (auto simp: jvalue_string intro: string)
  next
    case 2
    with assms f s show ?thesis
      by (auto simp: jvalue_object split: if_splits list.splits intro: obj0 obj)
  next
    case 3
    with assms f s show ?thesis
      by (auto simp: jvalue_array split: if_splits list.splits intro: arr0 arr)
  next
    case 4
    with assms f s show ?thesis by (auto simp: jvalue_scalar intro: scalar)
  qed
qed

lemma jparse_consumes:
  shows "\<And>d s v u. jvalue f d s = Some (v, u) \<Longrightarrow> consumes s u"
    and "\<And>d s vs u. jelems f d s = Some (vs, u) \<Longrightarrow> consumes s u"
    and "\<And>d s ms u. jmembers f d s = Some (ms, u) \<Longrightarrow> consumes s u"
proof (induction f)
  case 0
  { case 1 then show ?case by simp next case 2 then show ?case by simp next case 3 then show ?case by simp }
next
  case (Suc f)
  { case 1
    then show ?case
    proof (cases rule: jvalue_SomeD)
      case string
      then show ?thesis by (auto intro: consumes_Cons_left jstring_consumes)
    next
      case obj0
      then show ?thesis by (auto intro: consumes_Cons_left skip_eq_consumes)
    next
      case (obj f' r x r' m)
      then have "consumes (skip_ws r) u" using Suc.IH(3) by auto
      then have "consumes r u" by (rule consumes_skip)
      with obj(2) show ?thesis by (simp add: consumes_Cons_left)
    next
      case arr0
      then show ?thesis by (auto intro: consumes_Cons_left skip_eq_consumes)
    next
      case (arr f' r x r' m)
      then have "consumes (skip_ws r) u" using Suc.IH(2) by auto
      then have "consumes r u" by (rule consumes_skip)
      with arr(2) show ?thesis by (simp add: consumes_Cons_left)
    next
      case scalar
      then show ?thesis by (auto intro: jscalar_consumes)
    qed
  next
    case 2
    from jelems_SomeD [OF this] obtain v r x r' where *: "jvalue f d s = Some (v, r)" "skip_ws r = x # r'"
      and u: "u = r' \<or> (\<exists>ws. jelems f d (skip_ws r') = Some (ws, u))"
      by auto
    have "consumes s r" using *(1) by (rule Suc.IH)
    also have "consumes r r'" using * by (simp add: skip_eq_consumes)
    finally have r': "consumes s r'" .
    from u show ?case
    proof
      assume "\<exists>ws. jelems f d (skip_ws r') = Some (ws, u)"
      then have "consumes r' u" by (auto intro: consumes_skip Suc.IH)
      with r' show ?thesis by (rule consumes_trans)
    qed (use r' in simp)
  next
    case 3
    from jmembers_SomeD [OF this] obtain r k r1 r2 v r3 x r4 where
      *: "s = dquote # r" "jstring r = Some (k, r1)" "skip_ws r1 = CHR '':'' # r2"
         "jvalue f d (skip_ws r2) = Some (v, r3)" "skip_ws r3 = x # r4"
      and u: "u = r4 \<or> (\<exists>ns. jmembers f d (skip_ws r4) = Some (ns, u))"
      by (auto simp: Let_def)
    have "consumes s r1" using * by (simp add: consumes_Cons_left jstring_consumes)
    also have "consumes r1 r2" using * by (simp add: skip_eq_consumes)
    also have "consumes r2 r3" using * by (auto intro: consumes_skip Suc.IH)
    also have "consumes r3 r4" using * by (simp add: skip_eq_consumes)
    finally have r4: "consumes s r4" .
    from u show ?case
    proof
      assume "\<exists>ns. jmembers f d (skip_ws r4) = Some (ns, u)"
      then have "consumes r4 u" by (auto intro: consumes_skip Suc.IH)
      with r4 show ?thesis by (rule consumes_trans)
    qed (use r4 in simp)
  }
qed

subsection \<open>Consumption and fuel\<close>

lemma skip_ws_length: "length (skip_ws s) \<le> length s"
  by (simp add: skip_ws_def length_dropWhile_le)

lemma skip_eq_length: "skip_ws s = c # r \<Longrightarrow> length r < length s"
  by (rule consumes_length) (rule skip_eq_consumes)

lemma jparse_length:
  "jvalue f d s = Some (v, u) \<Longrightarrow> length u < length s"
  "jstring s = Some (t, u) \<Longrightarrow> length u < length s"
  by (auto intro: consumes_length jparse_consumes jstring_consumes)

lemma jparse_fuel:
  shows "\<And>g d s. 2 * length s < f \<Longrightarrow> 2 * length s < g \<Longrightarrow> jvalue f d s = jvalue g d s"
    and "\<And>g d s. 2 * length s + 1 < f \<Longrightarrow> 2 * length s + 1 < g \<Longrightarrow> jelems f d s = jelems g d s"
    and "\<And>g d s. 2 * length s + 1 < f \<Longrightarrow> 2 * length s + 1 < g \<Longrightarrow> jmembers f d s = jmembers g d s"
proof (induction f)
  case 0
  { case 1 then show ?case by simp next case 2 then show ?case by simp next case 3 then show ?case by simp }
next
  case (Suc f)
  { case (1 g d s)
    then obtain h where g: "g = Suc h" by (cases g) auto
    show ?case
    proof (cases s)
      case (Cons c r)
      have b: "jmembers f (d - 1) (x # r') = jmembers h (d - 1) (x # r')"
              "jelems f (d - 1) (x # r') = jelems h (d - 1) (x # r')"
        if "skip_ws r = x # r'" for x r'
      proof -
        have "length (x # r') \<le> length r" using that skip_ws_length [of r] by simp
        then have "2 * length (x # r') + 1 < f" "2 * length (x # r') + 1 < h"
          using "1.prems" g Cons by auto
        then show "jmembers f (d - 1) (x # r') = jmembers h (d - 1) (x # r')"
                  "jelems f (d - 1) (x # r') = jelems h (d - 1) (x # r')"
          by (auto intro: Suc.IH)
      qed
      consider "c = dquote" | "c = CHR ''{''" | "c = CHR ''[''" | "\<not> opens c"
        by (auto simp: opens_def)
      then show ?thesis
        by cases (auto simp: g Cons jvalue_string jvalue_object jvalue_array jvalue_scalar b
            split: list.split simp del: One_nat_def)
    qed simp
  next
    case (2 g d s)
    then obtain h where g: "g = Suc h" by (cases g) auto
    have v: "jvalue f d s = jvalue h d s" using "2.prems" g by (intro Suc.IH) auto
    have e: "jelems f d (skip_ws r') = jelems h d (skip_ws r')"
      if "jvalue h d s = Some (x, r)" "skip_ws r = y # r'" for x r y r'
    proof -
      have "length (skip_ws r') < length s"
        using jparse_length(1) [OF that(1)] skip_eq_length [OF that(2)] skip_ws_length [of r'] by simp
      with "2.prems" g show ?thesis by (intro Suc.IH) auto
    qed
    show ?case
      by (simp add: g jelems.simps(2) v e split: option.split list.split prod.split)
  next
    case (3 g d s)
    then obtain h where g: "g = Suc h" by (cases g) auto
    have v: "jvalue f d (skip_ws r2) = jvalue h d (skip_ws r2)"
      if "s = c # r" "jstring r = Some (k, r1)" "skip_ws r1 = y # r2" for c r k r1 y r2
    proof -
      have "length (skip_ws r2) < length s"
        using that(1) jparse_length(2) [OF that(2)] skip_eq_length [OF that(3)] skip_ws_length [of r2]
        by simp
      with "3.prems" g show ?thesis by (intro Suc.IH) auto
    qed
    have e: "jmembers f d (skip_ws r4) = jmembers h d (skip_ws r4)"
      if "s = c # r" "jstring r = Some (k, r1)" "skip_ws r1 = y # r2"
        "jvalue h d (skip_ws r2) = Some (z, r3)" "skip_ws r3 = x # r4" for c r k r1 y r2 z r3 x r4
    proof -
      have "length (skip_ws r4) < length s"
        using that(1) jparse_length(2) [OF that(2)] skip_eq_length [OF that(3)] skip_ws_length [of r2]
          jparse_length(1) [OF that(4)] skip_eq_length [OF that(5)] skip_ws_length [of r4]
        by simp
      with "3.prems" g show ?thesis by (intro Suc.IH) auto
    qed
    show ?case
    proof (cases s)
      case (Cons c r)
      then show ?thesis
        by (simp add: g jmembers.simps(2) v e Let_def split: option.split list.split prod.split)
    qed (simp add: g jmembers.simps(2))
  }
qed

lemma jvalue_fuel_enough:
  "2 * length s < f \<Longrightarrow> jvalue f d s = jvalue (Suc (2 * length s)) d s"
  by (rule jparse_fuel) auto

subsection \<open>Text appended to a parsed prefix\<close>

definition num_char :: "char \<Rightarrow> bool" where
  "num_char c \<longleftrightarrow> is_dec_digit c \<or> c \<in> set ''.eE''"

definition stops :: "string \<Rightarrow> bool" where
  "stops w \<longleftrightarrow> (case w of [] \<Rightarrow> True | c # _ \<Rightarrow> \<not> num_char c)"

lemma stops_Cons [simp]: "stops (c # w) \<longleftrightarrow> \<not> num_char c"
  by (simp add: stops_def)

lemma skip_ws_append [simp]: "skip_ws s = c # r \<Longrightarrow> skip_ws (s @ w) = c # r @ w"
  unfolding skip_ws_def
  by (metis append_Cons dropWhile_append2 dropWhile_append dropWhile_eq_Nil_conv list.distinct(1))

lemma jdigits1_append:
  "jdigits1 s = Some (t, u) \<Longrightarrow> u \<noteq> [] \<or> stops w \<Longrightarrow> jdigits1 (s @ w) = Some (t, u @ w)"
proof -
  assume a: "jdigits1 s = Some (t, u)" and w: "u \<noteq> [] \<or> stops w"
  show ?thesis
  proof (cases "\<forall>x \<in> set s. is_dec_digit x")
    case True
    then have "takeWhile is_dec_digit s = s" "dropWhile is_dec_digit s = []" by simp_all
    with a have "t = s" "u = []" "s \<noteq> []" by (auto simp: jdigits1_def Let_def split: if_splits)
    with w have "takeWhile is_dec_digit w = []" "dropWhile is_dec_digit w = w"
      by (auto simp: stops_def num_char_def split: list.splits)
    with True \<open>t = s\<close> \<open>u = []\<close> \<open>s \<noteq> []\<close> show ?thesis
      by (auto simp: jdigits1_def Let_def takeWhile_append dropWhile_append)
  next
    case False
    with a show ?thesis
      by (auto simp: jdigits1_def Let_def takeWhile_append dropWhile_append split: if_splits)
  qed
qed

lemma jint_append:
  "jint s = Some (t, u) \<Longrightarrow> u \<noteq> [] \<or> stops w \<Longrightarrow> jint (s @ w) = Some (t, u @ w)"
  by (cases s) (use jdigits1_append [of s t u w] in \<open>auto simp: jint_def\<close>)

lemma jfrac_append:
  "jfrac s = Some (t, u) \<Longrightarrow> u \<noteq> [] \<or> stops w \<Longrightarrow> jfrac (s @ w) = Some (t, u @ w)"
  using jdigits1_append [of "tl s" _ u w]
  by (cases s; cases w) (auto simp: jfrac_def num_char_def)

lemma jexp_append:
  "jexp s = Some (t, u) \<Longrightarrow> u \<noteq> [] \<or> stops w \<Longrightarrow> jexp (s @ w) = Some (t, u @ w)"
proof (cases s)
  case Nil
  then show "jexp s = Some (t, u) \<Longrightarrow> u \<noteq> [] \<or> stops w \<Longrightarrow> ?thesis"
    by (cases w) (auto simp: jexp_def num_char_def)
next
  case (Cons c r)
  then show "jexp s = Some (t, u) \<Longrightarrow> u \<noteq> [] \<or> stops w \<Longrightarrow> ?thesis"
    using jdigits1_append [of r _ u w] jdigits1_append [of "tl r" _ u w]
    by (cases r) (auto simp: jexp_def)
qed

lemma jnumber_SomeD:
  assumes "jnumber s = Some (t, u)"
  shows "\<exists>sg s1 i s2 f s3 e. s = sg @ s1 \<and> (sg = ''-'' \<or> sg = [] \<and> (\<forall>r. s1 \<noteq> CHR ''-'' # r)) \<and>
    jint s1 = Some (i, s2) \<and> jfrac s2 = Some (f, s3) \<and> jexp s3 = Some (e, u) \<and> t = sg @ i @ f @ e"
proof -
  define p where "p = (case s of c # r \<Rightarrow> if c = CHR ''-'' then ([c], r) else ([], s) | [] \<Rightarrow> ([], s))"
  obtain sg s1 where p: "p = (sg, s1)" by (cases p)
  have sg: "s = sg @ s1" "sg = ''-'' \<or> sg = [] \<and> (\<forall>r. s1 \<noteq> CHR ''-'' # r)"
    using p by (auto simp: p_def split: list.splits if_splits)
  from assms p obtain i s2 f s3 e where
    "jint s1 = Some (i, s2)" "jfrac s2 = Some (f, s3)" "jexp s3 = Some (e, u)" "t = sg @ i @ f @ e"
    unfolding jnumber_def p_def [symmetric] by (auto split: option.splits)
  with sg show ?thesis by blast
qed

lemma jnumber_append:
  assumes "jnumber s = Some (t, u)" and w: "u \<noteq> [] \<or> stops w"
  shows "jnumber (s @ w) = Some (t, u @ w)"
proof -
  from jnumber_SomeD [OF assms(1)] obtain sg s1 i s2 f s3 e where
    *: "s = sg @ s1" "sg = ''-'' \<or> sg = [] \<and> (\<forall>r. s1 \<noteq> CHR ''-'' # r)"
       "jint s1 = Some (i, s2)" "jfrac s2 = Some (f, s3)" "jexp s3 = Some (e, u)" "t = sg @ i @ f @ e"
    by blast
  have "s3 \<noteq> [] \<or> stops w" using w jexp_text [OF *(5)] by auto
  moreover from this have "s2 \<noteq> [] \<or> stops w" using jfrac_text [OF *(4)] by auto
  ultimately have a: "jint (s1 @ w) = Some (i, s2 @ w)" "jfrac (s2 @ w) = Some (f, s3 @ w)"
    "jexp (s3 @ w) = Some (e, u @ w)"
    using * w by (auto intro: jint_append jfrac_append jexp_append)
  have ne: "s1 \<noteq> []" using *(3) by (auto simp: jint_def)
  from *(2) a ne show ?thesis
    by (cases s1) (auto simp: jnumber_def Let_def *(1) *(6))
qed

lemma jlit_append: "jlit x v s = Some (y, u) \<Longrightarrow> jlit x v (s @ w) = Some (y, u @ w)"
  by (auto simp: jlit_def has_prefix_iff split: if_splits)

lemma jscalar_append:
  assumes "jscalar s = Some (v, u)" and "u \<noteq> [] \<or> stops w"
  shows "jscalar (s @ w) = Some (v, u @ w)"
proof -
  from assms(1) obtain c r where s: "s = c # r" by (auto simp: jscalar_def split: list.splits)
  consider "c = CHR ''t''" | "c = CHR ''f''" | "c = CHR ''n''"
    | "c \<noteq> CHR ''t''" "c \<noteq> CHR ''f''" "c \<noteq> CHR ''n''" by blast
  then show ?thesis
  proof cases
    case 1
    with assms s jlit_append [of "''true''" "JBool True" s v u w] show ?thesis
      by (simp add: jscalar_def)
  next
    case 2
    with assms s jlit_append [of "''false''" "JBool False" s v u w] show ?thesis
      by (simp add: jscalar_def)
  next
    case 3
    with assms s jlit_append [of "''null''" JNull s v u w] show ?thesis
      by (simp add: jscalar_def)
  next
    case 4
    then have eq: "jscalar (c # x) = map_option (\<lambda>(t, u). (JNum t, u)) (jnumber (c # x))" for x
      by (simp add: jscalar_def)
    from assms(1) obtain t where "jnumber s = Some (t, u)" "v = JNum t" by (auto simp: s eq)
    with jnumber_append [OF this(1) assms(2)] show ?thesis by (simp add: s eq)
  qed
qed

lemma jstring_append: "jstring s = Some (t, u) \<Longrightarrow> jstring (s @ w) = Some (t, u @ w)"
proof (induction s arbitrary: t u rule: jstring.induct)
  case (2 c r)
  consider "c = dquote" | "c = bslash" | "c \<noteq> dquote" "c \<noteq> bslash" by blast
  then show ?case
  proof cases
    case 1
    with "2.prems" show ?thesis by (simp add: jstring.simps(2))
  next
    case b: 2
    then obtain e r' where r: "r = e # r'" using "2.prems"
      by (cases r) (simp_all add: jstring.simps(2))
    show ?thesis
    proof (cases "esc_letter e")
      case True
      with b r "2.prems" "2.IH"(1) [OF _ _ r] show ?thesis
        by (auto simp: jstring.simps(2))
    next
      case False
      with b r "2.prems" "2.IH"(2) [OF _ _ r] show ?thesis
        by (auto simp: jstring.simps(2) split: if_splits list.splits)
    qed
  next
    case 3
    with "2.prems" show ?thesis
      by (auto simp: jstring.simps(2) split: if_splits dest: "2.IH"(3))
  qed
qed simp

lemma raw_append:
  "length r \<le> length s \<Longrightarrow>
   take (length (s @ w) - length (r @ w)) (s @ w) = take (length s - length r) s"
  by simp

lemma opens_append:
  assumes "skip_ws r = x # r'"
  shows "jvalue (Suc f) d (CHR ''{'' # r @ w) =
     (if d = 0 then None else if x = CHR ''}'' then Some (JObj [], r' @ w)
      else map_option (\<lambda>(m, u). (JObj m, u)) (jmembers f (d - 1) (x # r' @ w)))"
    and "jvalue (Suc f) d (CHR ''['' # r @ w) =
     (if d = 0 then None else if x = CHR '']'' then Some (JArr [], r' @ w)
      else map_option (\<lambda>(m, u). (JArr m, u)) (jelems f (d - 1) (x # r' @ w)))"
  using assms by (simp_all add: jvalue_object jvalue_array)

text \<open>One level of the parser, the levels below given: \<open>appends w f\<close> is the statement for fuel \<open>f\<close>.\<close>

definition appends :: "string \<Rightarrow> nat \<Rightarrow> bool" where
  "appends w f \<longleftrightarrow>
     (\<forall>d s v u g d'. jvalue f d s = Some (v, u) \<longrightarrow> u \<noteq> [] \<or> stops w \<longrightarrow> f \<le> g \<longrightarrow> d \<le> d' \<longrightarrow> jvalue g d' (s @ w) = Some (v, u @ w)) \<and>
     (\<forall>d s vs u g d'. jelems f d s = Some (vs, u) \<longrightarrow> f \<le> g \<longrightarrow> d \<le> d' \<longrightarrow> jelems g d' (s @ w) = Some (vs, u @ w)) \<and>
     (\<forall>d s ms u g d'. jmembers f d s = Some (ms, u) \<longrightarrow> f \<le> g \<longrightarrow> d \<le> d' \<longrightarrow> jmembers g d' (s @ w) = Some (ms, u @ w))"

lemma appendsD:
  assumes "appends w f"
  shows "jvalue f d s = Some (v, u) \<Longrightarrow> u \<noteq> [] \<or> stops w \<Longrightarrow> f \<le> g \<Longrightarrow> d \<le> d' \<Longrightarrow> jvalue g d' (s @ w) = Some (v, u @ w)"
    and "jelems f d s = Some (vs, u) \<Longrightarrow> f \<le> g \<Longrightarrow> d \<le> d' \<Longrightarrow> jelems g d' (s @ w) = Some (vs, u @ w)"
    and "jmembers f d s = Some (ms, u) \<Longrightarrow> f \<le> g \<Longrightarrow> d \<le> d' \<Longrightarrow> jmembers g d' (s @ w) = Some (ms, u @ w)"
  using assms by (simp_all add: appends_def)

lemma appends_value:
  assumes "appends w f" and 1: "jvalue (Suc f) d s = Some (v, u)" "u \<noteq> [] \<or> stops w" "Suc f \<le> g" "d \<le> d'"
  shows "jvalue g d' (s @ w) = Some (v, u @ w)"
proof -
  note IH = appendsD [OF assms(1)]
  from 1 obtain h where g: "g = Suc h" and h: "f \<le> h" by (cases g) auto
  have d: "d - 1 \<le> d' - 1" using 1 by simp
  from 1(1) show ?thesis
  proof (cases rule: jvalue_SomeD)
    case (string f' r t)
    then show ?thesis by (simp add: g jvalue_string jstring_append)
  next
    case (obj0 f' r)
    with 1 show ?thesis by (simp add: g opens_append)
  next
    case (obj f' r x r' m)
    then have "jmembers h (d' - 1) ((x # r') @ w) = Some (m, u @ w)"
      using h d by (intro IH(3)) auto
    with obj 1 show ?thesis by (simp add: g opens_append)
  next
    case (arr0 f' r)
    with 1 show ?thesis by (simp add: g opens_append)
  next
    case (arr f' r x r' m)
    then have "jelems h (d' - 1) ((x # r') @ w) = Some (m, u @ w)"
      using h d by (intro IH(2)) auto
    with arr 1 show ?thesis by (simp add: g opens_append)
  next
    case (scalar f' c r)
    with jscalar_append [OF scalar(4) 1(2)] show ?thesis by (simp add: g jvalue_scalar)
  qed
qed

lemma appends_elems:
  assumes "appends w f" and 2: "jelems (Suc f) d s = Some (vs, u)" "Suc f \<le> g" "d \<le> d'"
  shows "jelems g d' (s @ w) = Some (vs, u @ w)"
proof -
  note IH = appendsD [OF assms(1)]
  from 2 obtain h where g: "g = Suc h" and h: "f \<le> h" by (cases g) auto
  from jelems_SomeD [OF 2(1)] obtain v r x r' where *: "jvalue f d s = Some (v, r)" "skip_ws r = x # r'"
    and u: "x = CHR '']'' \<and> vs = [v] \<and> u = r' \<or>
      x = CHR '','' \<and> (\<exists>ws. vs = v # ws \<and> jelems f d (skip_ws r') = Some (ws, u))"
    by auto
  have "r \<noteq> []" using *(2) by (auto simp: skip_ws_def)
  then have v: "jvalue h d' (s @ w) = Some (v, r @ w)"
    using * 2 h by (intro IH(1)) auto
  from u show ?thesis
  proof (elim disjE conjE exE)
    fix ws assume x: "x = CHR '',''" "vs = v # ws" and e: "jelems f d (skip_ws r') = Some (ws, u)"
    then obtain y r'' where y: "skip_ws r' = y # r''"
      by (cases "skip_ws r'") simp_all
    have "jelems h d' (skip_ws r' @ w) = Some (ws, u @ w)"
      using e 2 h by (intro IH(2)) auto
    with v * x y show ?thesis by (simp add: g jelems.simps(2))
  qed (use v * in \<open>simp add: g jelems.simps(2)\<close>)
qed

lemma appends_members:
  assumes "appends w f" and 3: "jmembers (Suc f) d s = Some (ms, u)" "Suc f \<le> g" "d \<le> d'"
  shows "jmembers g d' (s @ w) = Some (ms, u @ w)"
proof -
  note IH = appendsD [OF assms(1)]
  from 3 obtain h where g: "g = Suc h" and h: "f \<le> h" by (cases g) auto
  from jmembers_SomeD [OF 3(1)] obtain r k r1 r2 v r3 x r4 where
    *: "s = dquote # r" "jstring r = Some (k, r1)" "skip_ws r1 = CHR '':'' # r2"
       "jvalue f d (skip_ws r2) = Some (v, r3)" "skip_ws r3 = x # r4"
    and u: "x = CHR ''}'' \<and> ms = [(k, v, take (length (skip_ws r2) - length r3) (skip_ws r2))] \<and> u = r4 \<or>
      x = CHR '','' \<and> (\<exists>ns. ms = (k, v, take (length (skip_ws r2) - length r3) (skip_ws r2)) # ns \<and>
        jmembers f d (skip_ws r4) = Some (ns, u))"
    by (auto simp: Let_def)
  have "r3 \<noteq> []" using *(5) by (auto simp: skip_ws_def)
  then have v: "jvalue h d' (skip_ws r2 @ w) = Some (v, r3 @ w)"
    using * 3 h by (intro IH(1)) auto
  obtain y r2' where y: "skip_ws r2 = y # r2'" using *(4) by (cases "skip_ws r2") auto
  have l: "length r3 \<le> length (y # r2')" using jparse_length(1) [OF *(4)] y by simp
  have raw: "take (length (skip_ws (r2 @ w)) - length (r3 @ w)) (skip_ws (r2 @ w))
      = take (length (skip_ws r2) - length r3) (skip_ws r2)"
    using raw_append [OF l, of w] y by simp
  have v': "jvalue h d' (skip_ws (r2 @ w)) = Some (v, r3 @ w)" using v y by simp
  note step = *(1) *(2) *(3) *(5) jstring_append [OF *(2), of w] v' raw
  from u show ?thesis
  proof (elim disjE conjE exE)
    assume "x = CHR ''}''" "u = r4"
      "ms = [(k, v, take (length (skip_ws r2) - length r3) (skip_ws r2))]"
    then show ?thesis using step by (simp only: g jmembers.simps(2)) (simp add: Let_def)
  next
    fix ns assume x: "x = CHR '',''" and e: "jmembers f d (skip_ws r4) = Some (ns, u)"
      and ms: "ms = (k, v, take (length (skip_ws r2) - length r3) (skip_ws r2)) # ns"
    then obtain z r'' where z: "skip_ws r4 = z # r''"
      by (cases "skip_ws r4") simp_all
    have "jmembers h d' (skip_ws r4 @ w) = Some (ns, u @ w)"
      using e 3 h by (intro IH(3)) auto
    with step x z ms show ?thesis by (simp only: g jmembers.simps(2)) (simp add: Let_def)
  qed
qed

lemma appends_always: "appends w f"
proof (induction f)
  case (Suc f)
  show ?case using appends_value [OF Suc] appends_elems [OF Suc] appends_members [OF Suc] unfolding appends_def by blast
qed (simp add: appends_def)

lemmas jparse_append = appendsD [OF appends_always]

subsection \<open>String literals\<close>

lemma unquote_Nil [simp]: "unquote [] = []"
  by (simp add: unquote.simps)

lemma unquote_ascii: "c \<noteq> bslash \<Longrightarrow> is_ascii c \<Longrightarrow> unquote (c # r) = c # unquote r"
  by (subst unquote.simps) simp

lemma unquote_rune:
  "\<not> is_ascii c \<Longrightarrow> utf8_len (c # r) = Some n \<Longrightarrow>
   unquote (c # r) = take n (c # r) @ unquote (drop n (c # r))"
  by (subst unquote.simps) (auto simp: is_ascii_def simp del: utf8_len.simps)

lemma unquote_u:
  "is_hex a \<Longrightarrow> is_hex b \<Longrightarrow> is_hex c \<Longrightarrow> is_hex d \<Longrightarrow> \<not> is_surrogate (hex4 a b c d) \<Longrightarrow>
   unquote (bslash # CHR ''u'' # a # b # c # d # r) = utf8_encode (hex4 a b c d) @ unquote r"
  by (subst unquote.simps) simp

lemma unquote_letter:
  "esc_letter e \<Longrightarrow> unquote (bslash # e # r) = simple_escape e # unquote r"
proof -
  assume l: "esc_letter e"
  then have e: "e \<noteq> CHR ''u''" by (auto simp: esc_letter_def)
  have "getu4 (bslash # e # r) = None"
    using e by (cases "bslash # e # r" rule: getu4.cases) simp_all
  with l show ?thesis by (subst unquote.simps) simp
qed

lemma jstring_plain:
  "c \<noteq> dquote \<Longrightarrow> c \<noteq> bslash \<Longrightarrow> 32 \<le> byte c \<Longrightarrow>
   jstring (c # r) = map_option (\<lambda>(t, u). (c # t, u)) (jstring r)"
  by (simp add: jstring.simps(2))

lemma jstring_letter:
  "esc_letter e \<Longrightarrow> jstring (bslash # e # r) = map_option (\<lambda>(t, u). (bslash # e # t, u)) (jstring r)"
  by (simp add: jstring.simps(2))

lemma jstring_u:
  "is_hex a \<Longrightarrow> is_hex b \<Longrightarrow> is_hex c \<Longrightarrow> is_hex d \<Longrightarrow>
   jstring (bslash # CHR ''u'' # a # b # c # d # r)
     = map_option (\<lambda>(t, u). (bslash # CHR ''u'' # a # b # c # d # t, u)) (jstring r)"
proof -
  have "\<not> esc_letter (CHR ''u'')" by (simp add: esc_letter_def)
  moreover assume "is_hex a" "is_hex b" "is_hex c" "is_hex d"
  ultimately show ?thesis by (simp add: jstring.simps(2))
qed

lemma is_hex_digit [simp]: "n < 16 \<Longrightarrow> is_hex (hex_digit n)"
  by (simp add: is_hex_def)

lemma is_hex_zero [simp]: "is_hex (CHR ''0'')" "is_hex (CHR ''2'')" "is_hex (CHR ''f'')" "is_hex (CHR ''d'')"
  by (simp_all add: is_hex_def hex_val_def)

text \<open>\<open>echo p q\<close>: inside a literal, \<open>p\<close> scans as itself and unquotes to \<open>q\<close>.\<close>

definition echo :: "string \<Rightarrow> bytes \<Rightarrow> bool" where
  "echo p q \<longleftrightarrow> (\<forall>r. jstring (p @ r) = map_option (\<lambda>(t, u). (p @ t, u)) (jstring r) \<and>
                    unquote (p @ r) = q @ unquote r)"

lemma echoD:
  assumes "echo p q"
  shows "jstring (p @ r) = map_option (\<lambda>(t, u). (p @ t, u)) (jstring r)"
    and "unquote (p @ r) = q @ unquote r"
  using assms by (auto simp: echo_def)

lemma echo_append: "echo p q \<Longrightarrow> echo p' q' \<Longrightarrow> echo (p @ p') (q @ q')"
  by (simp add: echo_def option.map_comp comp_def case_prod_unfold)

lemma echo_Nil: "echo [] []"
  by (simp add: echo_def option.map_id)

lemma echo_plain: "c \<noteq> dquote \<Longrightarrow> c \<noteq> bslash \<Longrightarrow> 32 \<le> byte c \<Longrightarrow> is_ascii c \<Longrightarrow> echo [c] [c]"
  by (simp add: echo_def jstring_plain unquote_ascii)

lemma echo_letter:
  "esc_letter e \<Longrightarrow> echo [bslash, e] [simple_escape e]"
  by (simp add: echo_def jstring_letter unquote_letter)

lemma echo_u:
  "is_hex a \<Longrightarrow> is_hex b \<Longrightarrow> is_hex c \<Longrightarrow> is_hex d \<Longrightarrow> \<not> is_surrogate (hex4 a b c d) \<Longrightarrow>
   echo [bslash, CHR ''u'', a, b, c, d] (utf8_encode (hex4 a b c d))"
  by (simp add: echo_def jstring_u unquote_u)

lemma char_of_eq_iff [simp]: "n < 256 \<Longrightarrow> char_of n = c \<longleftrightarrow> byte c = n"
  by (metis byte_char_of char_of_char)

lemma hex_val_letters [simp]:
  "hex_val (CHR ''0'') = Some 0" "hex_val (CHR ''2'') = Some 2"
  "hex_val (CHR ''f'') = Some 15" "hex_val (CHR ''d'') = Some 13"
  by (simp_all add: hex_val_def)

lemma byte_eqI: "byte c = byte d \<Longrightarrow> c = d"
  by simp

lemma echo_esc_ascii:
  assumes "is_ascii c"
  shows "echo (esc_ascii c) [c]"
proof -
  have ctl: "c = d" if "byte c = byte d" for d using that by simp
  consider "html_safe c" | "c = dquote" | "c = bslash"
    | "c = CHR 0x08" | "c = CHR 0x0C" | "c = CHR 0x0A" | "c = CHR 0x0D" | "c = CHR 0x09"
    | (u) "esc_ascii c = u00 c"
    using ctl [of "CHR 0x08"] ctl [of "CHR 0x0C"] ctl [of "CHR 0x0A"] ctl [of "CHR 0x0D"] ctl [of "CHR 0x09"]
    unfolding esc_ascii_def by fastforce
  then show ?thesis
  proof cases
    case 1
    then show ?thesis using echo_plain [of c] by (simp add: esc_ascii_def html_safe_def is_ascii_def)
  next
    case u
    have "16 * (byte c div 16) + byte c mod 16 = byte c" by simp
    then have v: "hex4 (CHR ''0'') (CHR ''0'') (hex_digit (byte c div 16)) (hex_digit (byte c mod 16)) = byte c"
      by (simp add: hex4_def)
    have "utf8_encode (byte c) = [c]" "\<not> is_surrogate (byte c)"
      using assms by (simp_all add: utf8_encode_def is_ascii_def is_surrogate_def)
    with u echo_u [of "CHR ''0''" "CHR ''0''" "hex_digit (byte c div 16)" "hex_digit (byte c mod 16)"]
    show ?thesis by (simp add: v u00_def hex_byte_def)
  qed (use echo_letter [of c] echo_letter [of "CHR ''b''"] echo_letter [of "CHR ''f''"]
        echo_letter [of "CHR ''n''"] echo_letter [of "CHR ''r''"] echo_letter [of "CHR ''t''"] in
      \<open>simp_all add: esc_ascii_def html_safe_def esc_letter_def simple_escape_def\<close>)
qed

lemma echo_ufffd: "echo (bslash # ''ufffd'') rune_error"
proof -
  have "utf8_encode (hex4 (CHR ''f'') (CHR ''f'') (CHR ''f'') (CHR ''d'')) = rune_error"
    by (simp add: hex4_def utf8_encode_def rune_error_def)
  with echo_u [of "CHR ''f''" "CHR ''f''" "CHR ''f''" "CHR ''d''"] show ?thesis
    by (simp add: is_surrogate_def hex4_def)
qed

lemma line_sep_SomeD:
  "line_sep s = Some x \<Longrightarrow>
   \<exists>r. s = CHR 0xE2 # CHR 0x80 # x # r \<and> (x = CHR 0xA8 \<or> x = CHR 0xA9)"
  by (cases s rule: line_sep.cases)
    (auto split: if_splits intro: byte_eqI)

lemma echo_u202: "x = CHR 0xA8 \<or> x = CHR 0xA9 \<Longrightarrow> echo (u202 x) [CHR 0xE2, CHR 0x80, x]"
proof -
  assume x: "x = CHR 0xA8 \<or> x = CHR 0xA9"
  have c: "char_of (226::nat) = CHR 0xE2" "char_of (128::nat) = CHR 0x80"
    "char_of (168::nat) = CHR 0xA8" "char_of (169::nat) = CHR 0xA9" by simp_all
  from x show ?thesis
    using echo_u [of "CHR ''2''" "CHR ''0''" "CHR ''2''" "hex_digit 8"]
      echo_u [of "CHR ''2''" "CHR ''0''" "CHR ''2''" "hex_digit 9"]
    by (auto simp: u202_def is_surrogate_def hex4_def utf8_encode_def c simp del: char_of_eq_iff)
qed

lemma utf8_len_SomeD:
  assumes "utf8_len s = Some n"
  obtains (two) a b r where "n = 2" "s = a # b # r" "in_range 194 223 a" "in_range 128 191 b"
  | (three) a b c r where "n = 3" "s = a # b # c # r" "\<not> in_range 194 223 a" "in_range 224 239 a"
      "in_range (if byte a = 224 then 160 else 128) (if byte a = 237 then 159 else 191) b"
      "in_range 128 191 c"
  | (four) a b c d r where "n = 4" "s = a # b # c # d # r" "\<not> in_range 194 223 a"
      "\<not> in_range 224 239 a" "in_range 240 244 a"
      "in_range (if byte a = 240 then 144 else 128) (if byte a = 244 then 143 else 191) b"
      "in_range 128 191 c" "in_range 128 191 d"
proof -
  from assms obtain a r where s: "s = a # r" by (cases s) auto
  consider "in_range 194 223 a" | "\<not> in_range 194 223 a" "in_range 224 239 a"
    | "\<not> in_range 194 223 a" "\<not> in_range 224 239 a" "in_range 240 244 a"
    | "\<not> in_range 194 223 a" "\<not> in_range 224 239 a" "\<not> in_range 240 244 a" by blast
  then show thesis
  proof cases
    case 1
    with assms s two show ?thesis by (auto split: list.splits if_split_asm)
  next
    case 2
    with assms s obtain b c r' where r: "r = b # c # r'" by (auto split: list.splits)
    from 2 assms s r have "in_range 128 191 c \<and> n = 3 \<and>
      in_range (if byte a = 224 then 160 else 128) (if byte a = 237 then 159 else 191) b"
      by (simp split: if_split_asm)
    with 2 s r three show ?thesis by blast
  next
    case 3
    with assms s obtain b c d r' where r: "r = b # c # d # r'" by (auto split: list.splits)
    from 3 assms s r have "in_range 128 191 c \<and> in_range 128 191 d \<and> n = 4 \<and>
      in_range (if byte a = 240 then 144 else 128) (if byte a = 244 then 143 else 191) b"
      by (simp split: if_split_asm)
    with 3 s r four show ?thesis by blast
  next
    case 4
    with assms s show ?thesis by simp
  qed
qed

lemma in_range_high: "in_range lo hi c \<Longrightarrow> 128 \<le> lo \<Longrightarrow> 128 \<le> byte c"
  by (simp add: in_range_def)

lemma utf8_len_high:
  assumes "utf8_len s = Some n"
  shows "\<forall>c \<in> set (take n s). 128 \<le> byte c"
  using assms
  by (cases rule: utf8_len_SomeD)
    (auto intro: in_range_high split: if_split_asm)

lemma utf8_len_take:
  assumes "utf8_len s = Some n"
  shows "utf8_len (take n s @ r) = Some n"
  using assms by (cases rule: utf8_len_SomeD) simp_all

lemma jstring_high:
  "\<forall>c \<in> set p. 128 \<le> byte c \<Longrightarrow> jstring (p @ r) = map_option (\<lambda>(t, u). (p @ t, u)) (jstring r)"
proof (induction p)
  case (Cons c p)
  then have "c \<noteq> dquote" "c \<noteq> bslash" by auto
  with Cons show ?case
    by (simp add: jstring_plain option.map_comp comp_def case_prod_unfold)
qed (simp add: option.map_id)

lemma echo_rune:
  assumes "utf8_len s = Some n"
  shows "echo (take n s) (take n s)"
proof -
  from assms obtain c s' where s: "s = c # s'" by (cases s) auto
  from utf8_len_bounds [OF assms] obtain m where n: "n = Suc m" by (cases n) auto
  have hi: "\<forall>c \<in> set (take n s). 128 \<le> byte c" using assms by (rule utf8_len_high)
  then have c: "\<not> is_ascii c" by (simp add: s n is_ascii_def)
  have l: "length (take n s) = n" using utf8_len_bounds [OF assms] by simp
  have "unquote (take n s @ r) = take n s @ unquote r" for r
    using unquote_rune [OF c, of "take m s' @ r" n] utf8_len_take [OF assms, of r] l
    by (simp add: s n del: utf8_len.simps)
  with jstring_high [OF hi] show ?thesis by (simp add: echo_def)
qed

theorem echo_esc_string: "echo (esc_string s) (to_valid_utf8 s)"
proof (induction s rule: esc_string.induct)
  case (1 s)
  show ?case
  proof (cases s)
    case Nil
    then show ?thesis by (simp add: esc_string.simps to_valid_utf8.simps echo_Nil)
  next
    case s: (Cons c r)
    show ?thesis
    proof (cases "is_ascii c")
      case True
      have "echo (esc_ascii c @ esc_string r) ([c] @ to_valid_utf8 r)"
        using 1(1) [OF s True] True by (intro echo_append echo_esc_ascii)
      with s True show ?thesis
        by (subst esc_string.simps, subst to_valid_utf8.simps) simp
    next
      case na: False
      show ?thesis
      proof (cases "utf8_len s")
        case None
        have "echo ((bslash # ''ufffd'') @ esc_string r) (rune_error @ to_valid_utf8 r)"
          by (intro echo_append echo_ufffd 1(2) [OF s na None])
        with s na None show ?thesis
          by (subst esc_string.simps, subst to_valid_utf8.simps) (simp del: utf8_len.simps)
      next
        case (Some n)
        have e: "echo (case line_sep s of Some x \<Rightarrow> u202 x | None \<Rightarrow> take n s) (take n s)"
        proof (cases "line_sep s")
          case None
          with echo_rune [OF Some] show ?thesis by simp
        next
          case (Some x)
          from line_sep_SomeD [OF this] obtain q where q: "s = CHR 0xE2 # CHR 0x80 # x # q"
            and x: "x = CHR 0xA8 \<or> x = CHR 0xA9" by blast
          have "n = 3" using \<open>utf8_len s = Some n\<close> x by (auto simp: q in_range_def)
          with Some echo_u202 [OF x] q show ?thesis by simp
        qed
        have "echo ((case line_sep s of Some x \<Rightarrow> u202 x | None \<Rightarrow> take n s) @ esc_string (drop n s))
           (take n s @ to_valid_utf8 (drop n s))"
          by (intro echo_append e 1(3) [OF s na Some])
        with s na Some show ?thesis
          by (subst esc_string.simps, subst to_valid_utf8.simps) (simp del: utf8_len.simps)
      qed
    qed
  qed
qed

lemma jstring_esc [simp]: "jstring (esc_string s @ dquote # u) = Some (esc_string s, u)"
  using echoD(1) [OF echo_esc_string [of s], of "dquote # u"] by (simp add: jstring.simps(2))

lemma unquote_esc [simp]: "unquote (esc_string s) = to_valid_utf8 s"
  using echoD(2) [OF echo_esc_string [of s], of "[]"] by simp

subsection \<open>Compacting: strings and idempotence\<close>

lemma skip_ws_Nil [simp]: "skip_ws [] = []"
  by (simp add: skip_ws_def)

lemma skip_ws_Cons: "skip_ws (c # s) = (if is_ws c then skip_ws s else c # s)"
  by (simp add: skip_ws_def)

lemma skip_ws_head: "skip_ws s = c # r \<Longrightarrow> \<not> is_ws c"
  by (induction s) (auto simp: skip_ws_Cons split: if_splits)

lemma compact_out_skip: "compact_out (skip_ws s) = compact_out s"
  by (induction s) (auto simp: skip_ws_Cons compact_out.simps(2))

lemma compact_out_plain:
  "\<forall>c \<in> set p. \<not> is_ws c \<and> c \<noteq> dquote \<Longrightarrow> compact_out (p @ u) = p @ compact_out u"
  by (induction p) (auto simp: compact_out.simps(2))

lemma compact_out_token:
  "skip_ws s = c # r \<Longrightarrow> c \<noteq> dquote \<Longrightarrow> compact_out s = c # compact_out r"
  using skip_ws_head [of s c r] compact_out_skip [of s] by (simp add: compact_out.simps(2))

lemma compact_out_quote:
  "skip_ws s = dquote # r \<Longrightarrow> compact_out s = dquote # compact_in r"
  using skip_ws_head [of s dquote r] compact_out_skip [of s] by (simp add: compact_out.simps(2))

lemma skip_ws_compact [simp]: "skip_ws (compact_out s) = compact_out s"
  by (induction s) (auto simp: skip_ws_Cons compact_out.simps(2))

definition plain :: "char \<Rightarrow> bool" where
  "plain c \<longleftrightarrow> c \<noteq> dquote \<and> c \<noteq> bslash \<and> c \<notin> set ''<>&'' \<and> byte c \<noteq> 226"

lemma line_sep_None: "byte c \<noteq> 226 \<Longrightarrow> line_sep (c # r) = None"
  by (cases "c # r" rule: line_sep.cases) auto

lemma compact_in_plain: "plain c \<Longrightarrow> compact_in (c # r) = c # compact_in r"
  using line_sep_None [of c]
  by (simp add: compact_in.simps(2) [of c r] plain_def split: list.split del: line_sep.simps)

lemma plain_hex: "is_hex c \<Longrightarrow> plain c"
  by (auto simp: is_hex_def plain_def hex_val_def split: if_splits)

lemma compact_in_bslash [simp]: "compact_in (bslash # e # r) = bslash # e # compact_in r"
  by (simp add: compact_in.simps(2))

lemma compact_in_dquote [simp]: "compact_in (dquote # r) = dquote # compact_out r"
  by (simp add: compact_in.simps(2))

lemma compact_in_html: "c \<in> set ''<>&'' \<Longrightarrow> compact_in (c # r) = u00 c @ compact_in r"
  by (auto simp: compact_in.simps(2) [of c r])

lemma compact_in_sep:
  "x = CHR 0xA8 \<or> x = CHR 0xA9 \<Longrightarrow>
   compact_in (CHR 0xE2 # CHR 0x80 # x # r) = u202 x @ compact_in r"
  by (auto simp: compact_in.simps(2) [of "CHR 0xE2"])

lemma compact_in_E2:
  "line_sep (CHR 0xE2 # r) = None \<Longrightarrow> compact_in (CHR 0xE2 # r) = CHR 0xE2 # compact_in r"
  by (auto simp: compact_in.simps(2) [of "CHR 0xE2" r] split: list.split simp del: line_sep.simps)

lemma char_in_cases:
  obtains "c = dquote" | "c = bslash" | "c \<in> set ''<>&''" | "c = CHR 0xE2" | "plain c"
proof -
  have "byte c = 226 \<Longrightarrow> c = CHR 0xE2" by (rule byte_eqI) simp
  then show thesis using that unfolding plain_def by blast
qed

lemma jstring_u00:
  "jstring (u00 c @ r) = map_option (\<lambda>(t, u). (u00 c @ t, u)) (jstring r)"
  using jstring_u [of "CHR ''0''" "CHR ''0''" "hex_digit (byte c div 16)" "hex_digit (byte c mod 16)" r]
  by (simp add: u00_def hex_byte_def)

lemma jstring_u202:
  "jstring (u202 c @ r) = map_option (\<lambda>(t, u). (u202 c @ t, u)) (jstring r)"
  using jstring_u [of "CHR ''2''" "CHR ''0''" "CHR ''2''" "hex_digit (byte c mod 16 mod 16)" r]
  by (simp add: u202_def)

lemma jstring_compact:
  "jstring s = Some (t, u) \<Longrightarrow> \<exists>t'. jstring (compact_in s) = Some (t', compact_out u)"
proof (induction s arbitrary: t u rule: jstring.induct)
  case (2 c r)
  show ?case
  proof (cases c rule: char_in_cases)
    case 1
    with "2.prems" show ?thesis by (simp add: jstring.simps(2))
  next
    case b: 2
    then obtain e r' where r: "r = e # r'" using "2.prems"
      by (cases r) (simp_all add: jstring.simps(2))
    show ?thesis
    proof (cases "esc_letter e")
      case True
      with b r "2.prems" obtain t' where "jstring r' = Some (t', u)" by (auto simp: jstring_letter)
      with "2.IH"(1) [OF _ b r True] b r True show ?thesis by (auto simp: jstring_letter)
    next
      case False
      with b r "2.prems" obtain h1 h2 h3 h4 q t' where
        e: "e = CHR ''u''" and q: "r' = h1 # h2 # h3 # h4 # q" and
        h: "is_hex h1" "is_hex h2" "is_hex h3" "is_hex h4" and
        t': "jstring q = Some (t', u)"
        by (auto simp: jstring.simps(2) split: if_splits list.splits)
      have "\<exists>t''. jstring (compact_in q) = Some (t'', compact_out u)"
        using "2.IH"(2) [OF _ b r False e q] h t' b by auto
      with h show ?thesis
        by (auto simp: b r e q compact_in_plain plain_hex jstring_u)
    qed
  next
    case h: 3
    then have n: "c \<noteq> dquote" "c \<noteq> bslash" "\<not> byte c < 32" by auto
    with "2.prems" obtain t' where "jstring r = Some (t', u)" by (auto simp: jstring.simps(2))
    with "2.IH"(3) [OF n] show ?thesis by (auto simp: compact_in_html [OF h] jstring_u00)
  next
    case E: 4
    then have n: "c \<noteq> dquote" "c \<noteq> bslash" "\<not> byte c < 32" by auto
    with "2.prems" obtain t' where "jstring r = Some (t', u)" by (auto simp: jstring.simps(2))
    with "2.IH"(3) [OF n] obtain t'' where i: "jstring (compact_in r) = Some (t'', compact_out u)"
      by blast
    show ?thesis
    proof (cases "line_sep (c # r)")
      case None
      with i E show ?thesis by (simp add: compact_in_E2 jstring_plain)
    next
      case (Some x)
      from line_sep_SomeD [OF this] obtain q where q: "r = CHR 0x80 # x # q"
        and x: "x = CHR 0xA8 \<or> x = CHR 0xA9" by auto
      have "plain x" "plain (CHR 0x80)" using x by (auto simp: plain_def)
      with i q x have "\<exists>t3. jstring (compact_in q) = Some (t3, compact_out u)"
        by (auto simp: compact_in_plain jstring_plain)
      with E q x show ?thesis by (auto simp: compact_in_sep jstring_u202)
    qed
  next
    case p: 5
    then have n: "c \<noteq> dquote" "c \<noteq> bslash" by (auto simp: plain_def)
    with "2.prems" have "\<not> byte c < 32" by (auto simp: jstring.simps(2))
    moreover from n this "2.prems" obtain t' where "jstring r = Some (t', u)"
      by (auto simp: jstring.simps(2))
    ultimately show ?thesis using "2.IH"(3) n
      by (auto simp: compact_in_plain [OF p] jstring_plain)
  qed
qed simp

lemma compact_head_no_sep:
  "line_sep (CHR 0xE2 # r) = None \<Longrightarrow> line_sep (CHR 0xE2 # compact_in r) = None"
proof (cases r)
  case (Cons b q)
  assume n: "line_sep (CHR 0xE2 # r) = None"
  show ?thesis
  proof (cases "b = CHR 0x80")
    case True
    then have b: "compact_in r = CHR 0x80 # compact_in q" by (simp add: Cons compact_in_plain plain_def)
    show ?thesis
    proof (cases q)
      case (Cons x q')
      have "byte x \<noteq> 168 \<and> byte x \<noteq> 169" using n True \<open>r = b # q\<close> Cons by auto
      moreover have "\<exists>y q''. compact_in q = y # q'' \<and> (y = x \<or> y = bslash)"
        by (cases x rule: char_in_cases)
          (auto simp: Cons compact_in.simps(2) u00_def u202_def split: list.splits option.splits)
      ultimately show ?thesis by (auto simp: b)
    qed (simp add: b)
  next
    case False
    have "\<exists>y q''. compact_in r = y # q'' \<and> (y = b \<or> y = bslash)"
      by (cases b rule: char_in_cases)
        (auto simp: Cons compact_in.simps(2) u00_def u202_def split: list.splits option.splits)
    moreover have "byte b \<noteq> 128" using False byte_eqI [of b "CHR 0x80"] by auto
    ultimately obtain y q'' where "compact_in r = y # q''" "byte y \<noteq> 128" by auto
    then show ?thesis by (cases q'') auto
  qed
qed simp

lemma compact_idem:
  "compact_out (compact_out s) = compact_out s"
  "compact_in (compact_in s) = compact_in s"
proof (induction s and s rule: compact_out_compact_in.induct)
  case (2 c r)
  then show ?case by (auto simp: compact_out.simps(2))
next
  case (4 c r)
  have keep: "compact_in (compact_in r) = compact_in r"
    if n: "c \<noteq> dquote" "c \<noteq> bslash" "\<not> (c = CHR ''<'' \<or> c = CHR ''>'' \<or> c = CHR ''&'')"
      and l: "line_sep (c # r) = None"
  proof (cases r)
    case r: (Cons b q)
    show ?thesis
    proof (cases q)
      case Nil
      with "4.IH"(5) [OF n r] show ?thesis .
    next
      case (Cons x q')
      from "4.IH"(6) [OF n r Cons l] show ?thesis .
    qed
  qed simp
  show ?case
  proof (cases c rule: char_in_cases)
    case 1
    with "4.IH"(1) show ?thesis by simp
  next
    case b: 2
    show ?thesis
    proof (cases r)
      case Nil
      with b show ?thesis by (simp add: compact_in.simps(2))
    next
      case (Cons e r')
      with "4.IH"(2) [OF _ b] b show ?thesis by simp
    qed
  next
    case h: 3
    then have "c \<noteq> dquote" "c \<noteq> bslash" "c = CHR ''<'' \<or> c = CHR ''>'' \<or> c = CHR ''&''" by auto
    from "4.IH"(3) [OF this] h show ?thesis
      by (simp add: compact_in_html u00_def hex_byte_def compact_in_plain plain_hex)
  next
    case E: 4
    show ?thesis
    proof (cases "line_sep (c # r)")
      case None
      with keep E have "compact_in (compact_in r) = compact_in r" by simp
      with None E show ?thesis by (simp add: compact_in_E2 compact_head_no_sep)
    next
      case (Some x)
      from line_sep_SomeD [OF this] obtain q where q: "r = CHR 0x80 # x # q"
        and x: "x = CHR 0xA8 \<or> x = CHR 0xA9" by auto
      have "compact_in (compact_in q) = compact_in q"
        using "4.IH"(7) [OF _ _ _ q _ Some] E by simp
      with E q x show ?thesis
        by (auto simp: compact_in_sep u202_def compact_in_plain plain_hex)
    qed
  next
    case p: 5
    with keep have "compact_in (compact_in r) = compact_in r"
      by (auto simp: plain_def line_sep_None)
    with p show ?thesis by (simp add: compact_in_plain)
  qed
qed simp_all

subsection \<open>Compacting: values\<close>

text \<open>What follows a number can be replaced by any text that does not continue it.\<close>

lemma stops_digits: "stops w \<Longrightarrow> takeWhile is_dec_digit w = [] \<and> dropWhile is_dec_digit w = w"
  by (cases w) (auto simp: num_char_def)

lemma jdigits1_swap:
  assumes "jdigits1 s = Some (t, u)" and "takeWhile is_dec_digit w = []"
  shows "jdigits1 (t @ w) = Some (t, w)"
proof -
  have t: "t = takeWhile is_dec_digit s" "t \<noteq> []"
    using assms(1) by (auto simp: jdigits1_def Let_def split: if_splits)
  then have d: "\<forall>x \<in> set t. is_dec_digit x" by (metis set_takeWhileD)
  have "dropWhile is_dec_digit w = w" using assms(2) by (metis append_Nil takeWhile_dropWhile_id)
  with d t(2) assms(2) show ?thesis
    by (auto simp: jdigits1_def Let_def takeWhile_append dropWhile_append)
qed

lemma jnumber_swap:
  assumes "jnumber s = Some (t, u)" and w: "stops w"
  shows "jnumber (t @ w) = Some (t, w)"
proof -
  from jnumber_SomeD [OF assms(1)] obtain sg s1 i s2 f s3 e where
    *: "s = sg @ s1" "sg = ''-'' \<or> sg = [] \<and> (\<forall>r. s1 \<noteq> CHR ''-'' # r)"
       "jint s1 = Some (i, s2)" "jfrac s2 = Some (f, s3)" "jexp s3 = Some (e, u)" "t = sg @ i @ f @ e"
    by blast
  note w = stops_digits [OF assms(2)]
  have e: "jexp (e @ w) = Some (e, w)" "e = [] \<or> hd e = CHR ''e'' \<or> hd e = CHR ''E''"
  proof -
    consider "e = []" | c r where "s3 = c # r" "c = CHR ''e'' \<or> c = CHR ''E''"
      using *(5) by (auto simp: jexp_def split: list.splits if_splits)
    then have "jexp (e @ w) = Some (e, w) \<and> (e = [] \<or> hd e = CHR ''e'' \<or> hd e = CHR ''E'')"
    proof cases
      case 1
      with assms(2) show ?thesis by (cases w) (auto simp: jexp_def num_char_def)
    next
      case 2
      with *(5) obtain g r' where r: "r = g # r'" by (auto simp: jexp_def split: list.splits)
      show ?thesis
      proof (cases "g = CHR ''+'' \<or> g = CHR ''-''")
        case True
        with *(5) 2 r obtain d where "jdigits1 r' = Some (d, u)" "e = c # g # d"
          by (auto simp: jexp_def)
        with 2 True jdigits1_swap [of r' d u w] w show ?thesis by (auto simp: jexp_def)
      next
        case False
        with *(5) 2 r obtain d where d: "jdigits1 (g # r') = Some (d, u)" "e = c # d"
          by (auto simp: jexp_def)
        then have "d = g # tl d" using jdigits1_text [OF d(1)] by (cases d) auto
        then obtain d' where "d = g # d'" by blast
        with 2 d False jdigits1_swap [of "g # r'" d u w] w show ?thesis by (auto simp: jexp_def)
      qed
    qed
    then show "jexp (e @ w) = Some (e, w)" "e = [] \<or> hd e = CHR ''e'' \<or> hd e = CHR ''E''" by auto
  qed
  have ew: "takeWhile is_dec_digit (e @ w) = []" "\<forall>r. e @ w \<noteq> CHR ''.'' # r"
    using e(2) w assms(2) by (cases e; cases w; auto simp: is_dec_digit_def num_char_def)+
  have f: "jfrac (f @ e @ w) = Some (f, e @ w)" "f = [] \<or> hd f = CHR ''.''"
  proof -
    consider "f = []" | r d where "s2 = CHR ''.'' # r" "jdigits1 r = Some (d, s3)" "f = CHR ''.'' # d"
      using *(4) by (auto simp: jfrac_def split: list.splits if_splits)
    then have "jfrac (f @ e @ w) = Some (f, e @ w) \<and> (f = [] \<or> hd f = CHR ''.'')"
    proof cases
      case 1
      with ew(2) show ?thesis by (auto simp: jfrac_def split: list.split)
    next
      case 2
      with jdigits1_swap [of r d s3 "e @ w"] ew(1) show ?thesis by (auto simp: jfrac_def)
    qed
    then show "jfrac (f @ e @ w) = Some (f, e @ w)" "f = [] \<or> hd f = CHR ''.''" by auto
  qed
  have fw: "takeWhile is_dec_digit (f @ e @ w) = []"
    using f(2) ew(1) by (cases f) (auto simp: is_dec_digit_def)
  have i: "jint (i @ f @ e @ w) = Some (i, f @ e @ w)"
  proof -
    from *(3) obtain c r where s1: "s1 = c # r" by (auto simp: jint_def split: list.splits)
    show ?thesis
    proof (cases "c = CHR ''0''")
      case True
      with *(3) s1 show ?thesis by (auto simp: jint_def)
    next
      case False
      with *(3) s1 have d: "jdigits1 s1 = Some (i, s2)" by (simp add: jint_def)
      then obtain i' where "i = c # i'" using jdigits1_text [OF d] s1 by (cases i) auto
      with False jdigits1_swap [OF d fw] show ?thesis by (simp add: jint_def)
    qed
  qed
  have "i \<noteq> []" using jint_text [OF *(3)] by simp
  have "sg = [] \<Longrightarrow> i @ f @ e @ w = CHR ''-'' # r \<Longrightarrow> False" for r
    using *(2) *(3) jint_text [OF *(3)] \<open>i \<noteq> []\<close> by (cases i) auto
  then have sign: "(case t @ w of c # r \<Rightarrow> if c = CHR ''-'' then ([c], r) else ([], t @ w)
      | [] \<Rightarrow> ([], t @ w)) = (sg, i @ f @ e @ w)"
    using *(2) by (auto simp: *(6) split: list.split)
  show ?thesis
    unfolding jnumber_def sign by (simp add: i f(1) e(1) *(6))
qed

definition number_char :: "char \<Rightarrow> bool" where
  "number_char c \<longleftrightarrow> is_dec_digit c \<or> c \<in> set ''-+.eE''"

lemma jdigits1_chars: "jdigits1 s = Some (t, u) \<Longrightarrow> \<forall>c \<in> set t. number_char c"
  by (auto simp: jdigits1_def Let_def number_char_def dest: set_takeWhileD split: if_splits)

lemma jnumber_chars:
  assumes "jnumber s = Some (t, u)" shows "\<forall>c \<in> set t. number_char c"
proof -
  from jnumber_SomeD [OF assms(1)] obtain sg s1 i s2 f s3 e where
    *: "sg = ''-'' \<or> sg = []"
       "jint s1 = Some (i, s2)" "jfrac s2 = Some (f, s3)" "jexp s3 = Some (e, u)" "t = sg @ i @ f @ e"
    by blast
  have "\<forall>c \<in> set i. number_char c"
    using *(2) by (auto simp: jint_def number_char_def dest: jdigits1_chars split: list.splits if_splits)
      (auto simp: is_dec_digit_def number_char_def dest!: jdigits1_chars)
  moreover have "\<forall>c \<in> set f. number_char c"
    using *(3) by (auto simp: jfrac_def number_char_def split: list.splits if_splits)
      (auto simp: number_char_def dest!: jdigits1_chars)
  moreover have "\<forall>c \<in> set e. number_char c"
    using *(4) by (auto simp: jexp_def number_char_def split: list.splits if_splits)
      (auto simp: number_char_def dest!: jdigits1_chars)
  moreover have "\<forall>c \<in> set sg. number_char c" using *(1) by (auto simp: number_char_def)
  ultimately show ?thesis by (auto simp: *(5))
qed

text \<open>Compacting keeps a value a value.\<close>

lemma jscalar_swap:
  assumes "jscalar s = Some (v, u)" and "stops w"
  shows "\<exists>p. s = p @ u \<and> p \<noteq> [] \<and> \<not> opens (hd p) \<and> (\<forall>c \<in> set p. \<not> is_ws c \<and> c \<noteq> dquote) \<and>
    jscalar (p @ w) = Some (v, w)"
proof -
  from assms(1) obtain c r where s: "s = c # r" by (auto simp: jscalar_def split: list.splits)
  consider (t) "c = CHR ''t''" | (f) "c = CHR ''f''" | (n) "c = CHR ''n''"
    | (num) "c \<noteq> CHR ''t''" "c \<noteq> CHR ''f''" "c \<noteq> CHR ''n''" by blast
  then show ?thesis
  proof cases
    case t
    with assms s have "jlit ''true'' (JBool True) s = Some (v, u)" by (simp add: jscalar_def)
    from jlit_text [OF this] have "s = ''true'' @ u" "v = JBool True" by auto
    then show ?thesis
      by (intro exI [of _ "''true''"]) (simp add: jscalar_def jlit_def opens_def is_ws_def)
  next
    case f
    with assms s have "jlit ''false'' (JBool False) s = Some (v, u)" by (simp add: jscalar_def)
    from jlit_text [OF this] have "s = ''false'' @ u" "v = JBool False" by auto
    then show ?thesis
      by (intro exI [of _ "''false''"]) (simp add: jscalar_def jlit_def opens_def is_ws_def)
  next
    case n
    with assms s have "jlit ''null'' JNull s = Some (v, u)" by (simp add: jscalar_def)
    from jlit_text [OF this] have "s = ''null'' @ u" "v = JNull" by auto
    then show ?thesis
      by (intro exI [of _ "''null''"]) (simp add: jscalar_def jlit_def opens_def is_ws_def)
  next
    case num
    with assms s obtain t where t: "jnumber s = Some (t, u)" "v = JNum t" by (auto simp: jscalar_def)
    from jnumber_text [OF t(1)] have tu: "s = t @ u" "t \<noteq> []" by auto
    have ch: "\<forall>c \<in> set t. number_char c" by (rule jnumber_chars [OF t(1)])
    have plain: "\<not> is_ws c \<and> c \<noteq> dquote \<and> \<not> opens c" if "number_char c" for c
      using that by (auto simp: number_char_def is_ws_def is_dec_digit_def opens_def)
    from tu s obtain t' where "t = c # t'" by (cases t) auto
    moreover have "jscalar (t @ w) = Some (v, w)"
      using num jnumber_swap [OF t(1) assms(2)] t(2) \<open>t = c # t'\<close> by (simp add: jscalar_def)
    ultimately show ?thesis using tu ch plain by (intro exI [of _ t]) auto
  qed
qed

lemma stops_delimiter: "x = CHR '',''  \<or> x = CHR '']'' \<or> x = CHR ''}'' \<Longrightarrow> stops (x # r)"
  by (auto simp: num_char_def is_dec_digit_def)

lemma skip_ws_hd: "skip_ws r \<noteq> [] \<Longrightarrow> \<not> is_ws (hd (skip_ws r))"
  using skip_ws_head by (cases "skip_ws r") auto

text \<open>One level of the parser, the levels below given: \<open>compacts f\<close> is the statement for fuel \<open>f\<close>.\<close>

definition compacts :: "nat \<Rightarrow> bool" where
  "compacts f \<longleftrightarrow>
     (\<forall>d s v u. jvalue f d s = Some (v, u) \<longrightarrow> \<not> is_ws (hd s) \<longrightarrow> stops (compact_out u) \<longrightarrow> (\<exists>v'. jvalue f d (compact_out s) = Some (v', compact_out u))) \<and>
     (\<forall>d s vs u. jelems f d s = Some (vs, u) \<longrightarrow> \<not> is_ws (hd s) \<longrightarrow> (\<exists>vs'. jelems f d (compact_out s) = Some (vs', compact_out u))) \<and>
     (\<forall>d s ms u. jmembers f d s = Some (ms, u) \<longrightarrow> (\<exists>ms'. jmembers f d (compact_out s) = Some (ms', compact_out u)))"

lemma compactsD:
  assumes "compacts f"
  shows "jvalue f d s = Some (v, u) \<Longrightarrow> \<not> is_ws (hd s) \<Longrightarrow> stops (compact_out u) \<Longrightarrow> \<exists>v'. jvalue f d (compact_out s) = Some (v', compact_out u)"
    and "jelems f d s = Some (vs, u) \<Longrightarrow> \<not> is_ws (hd s) \<Longrightarrow> \<exists>vs'. jelems f d (compact_out s) = Some (vs', compact_out u)"
    and "jmembers f d s = Some (ms, u) \<Longrightarrow> \<exists>ms'. jmembers f d (compact_out s) = Some (ms', compact_out u)"
  using assms by (simp_all add: compacts_def)

lemma compacts_value:
  assumes "compacts f" and 1: "jvalue (Suc f) d s = Some (v, u)" "\<not> is_ws (hd s)" "stops (compact_out u)"
  shows "\<exists>v'. jvalue (Suc f) d (compact_out s) = Some (v', compact_out u)"
proof -
  note IH = compactsD [OF assms(1)]
  from 1(1) show ?thesis
  proof (cases rule: jvalue_SomeD)
    case (string f' r t)
    then show ?thesis using jstring_compact [OF string(3)]
      by (auto simp: compact_out.simps(2) is_ws_def jvalue_string)
  next
    case (obj0 f' r)
    then show ?thesis using compact_out_token [OF obj0(4)]
      by (auto simp: compact_out.simps(2) is_ws_def jvalue_object skip_ws_Cons)
  next
    case (obj f' r x r' m)
    have "\<exists>m'. jmembers f (d - 1) (compact_out (x # r')) = Some (m', compact_out u)"
      using obj by (intro IH(3)) auto
    moreover have "x = dquote" using jmembers_SomeD [OF obj(6)] by auto
    ultimately show ?thesis using obj compact_out_quote [of r r'] compact_out_quote [of "x # r'" r']
      by (auto simp: compact_out.simps(2) is_ws_def jvalue_object skip_ws_Cons)
  next
    case (arr0 f' r)
    then show ?thesis using compact_out_token [OF arr0(4)]
      by (auto simp: compact_out.simps(2) is_ws_def jvalue_array skip_ws_Cons)
  next
    case (arr f' r x r' m)
    have "\<exists>m'. jelems f (d - 1) (compact_out (x # r')) = Some (m', compact_out u)"
      using arr skip_ws_head [OF arr(4)] by (intro IH(2)) auto
    moreover have "compact_out r = compact_out (x # r')"
      using compact_out_skip [of r] arr(4) by simp
    moreover have "\<exists>y. compact_out (x # r') = x # y"
      using skip_ws_head [OF arr(4)] by (auto simp: compact_out.simps(2))
    ultimately show ?thesis using arr skip_ws_compact [of r]
      by (auto simp: compact_out.simps(2) [of "CHR ''[''"] is_ws_def jvalue_array)
  next
    case (scalar f' c r)
    from jscalar_swap [OF scalar(4) 1(3)] obtain p where
      p: "s = p @ u" "p \<noteq> []" "\<not> opens (hd p)" "\<forall>c \<in> set p. \<not> is_ws c \<and> c \<noteq> dquote"
        "jscalar (p @ compact_out u) = Some (v, compact_out u)" by blast
    from p(2) obtain c' p' where "p = c' # p'" by (cases p) auto
    with p scalar show ?thesis
      using compact_out_plain [OF p(4), of u] by (auto simp: jvalue_scalar)
  qed
qed

lemma compacts_elems:
  assumes "compacts f" and 2: "jelems (Suc f) d s = Some (vs, u)" "\<not> is_ws (hd s)"
  shows "\<exists>vs'. jelems (Suc f) d (compact_out s) = Some (vs', compact_out u)"
proof -
  note IH = compactsD [OF assms(1)]
  from jelems_SomeD [OF 2(1)] obtain v r x r' where *: "jvalue f d s = Some (v, r)" "skip_ws r = x # r'"
    and u: "x = CHR '']'' \<and> vs = [v] \<and> u = r' \<or>
      x = CHR '','' \<and> (\<exists>ws. vs = v # ws \<and> jelems f d (skip_ws r') = Some (ws, u))"
    by auto
  then have x: "x \<noteq> dquote" "x = CHR '',''  \<or> x = CHR '']'' \<or> x = CHR ''}''" by auto
  have r: "compact_out r = x # compact_out r'" using *(2) x(1) by (rule compact_out_token)
  then obtain v' where v': "jvalue f d (compact_out s) = Some (v', x # compact_out r')"
    using IH(1) [OF *(1) 2(2)] stops_delimiter [OF x(2)] by auto
  have sk: "skip_ws (x # q) = x # q" for q
    using skip_ws_head [OF *(2)] by (simp add: skip_ws_Cons)
  from u show ?thesis
  proof (elim disjE conjE exE)
    fix ws assume a: "x = CHR '',''" "jelems f d (skip_ws r') = Some (ws, u)"
    then have "skip_ws r' \<noteq> []" by auto
    from IH(2) [OF a(2) skip_ws_hd [OF this]] obtain ws' where
      "jelems f d (compact_out r') = Some (ws', compact_out u)" by (auto simp: compact_out_skip)
    with v' a sk show ?thesis by (simp add: jelems.simps(2))
  qed (use v' sk in \<open>simp add: jelems.simps(2)\<close>)
qed

lemma compacts_members:
  assumes "compacts f" and 3: "jmembers (Suc f) d s = Some (ms, u)"
  shows "\<exists>ms'. jmembers (Suc f) d (compact_out s) = Some (ms', compact_out u)"
proof -
  note IH = compactsD [OF assms(1)]
  from jmembers_SomeD [OF 3] obtain r k r1 r2 v r3 x r4 where
    *: "s = dquote # r" "jstring r = Some (k, r1)" "skip_ws r1 = CHR '':'' # r2"
       "jvalue f d (skip_ws r2) = Some (v, r3)" "skip_ws r3 = x # r4"
    and u: "x = CHR ''}'' \<and> u = r4 \<or> x = CHR '','' \<and> (\<exists>ns. jmembers f d (skip_ws r4) = Some (ns, u))"
    by (auto simp: Let_def)
  then have x: "x \<noteq> dquote" "x = CHR '',''  \<or> x = CHR '']'' \<or> x = CHR ''}''" by auto
  from jstring_compact [OF *(2)] obtain k' where k': "jstring (compact_in r) = Some (k', compact_out r1)"
    by blast
  have s: "compact_out s = dquote # compact_in r" by (simp add: *(1) compact_out.simps(2) is_ws_def)
  have r1: "compact_out r1 = CHR '':'' # compact_out r2" by (rule compact_out_token [OF *(3)]) simp
  have r3: "compact_out r3 = x # compact_out r4" using *(5) x(1) by (rule compact_out_token)
  have "skip_ws r2 \<noteq> []" using *(4) by auto
  from IH(1) [OF *(4) skip_ws_hd [OF this]] r3 stops_delimiter [OF x(2)] obtain v' where
    v': "jvalue f d (compact_out r2) = Some (v', x # compact_out r4)"
    by (auto simp: compact_out_skip)
  have sk: "skip_ws (x # q) = x # q" "skip_ws (CHR '':'' # q) = CHR '':'' # q" for q
    using skip_ws_head [OF *(5)] skip_ws_head [OF *(3)] by (simp_all add: skip_ws_Cons)
  from u show ?thesis
  proof (elim disjE conjE exE)
    fix ns assume a: "x = CHR '',''" "jmembers f d (skip_ws r4) = Some (ns, u)"
    from IH(3) [OF a(2)] obtain ns' where
      "jmembers f d (compact_out r4) = Some (ns', compact_out u)" by (auto simp: compact_out_skip)
    with k' v' a sk s r1 show ?thesis by (simp add: jmembers.simps(2) Let_def)
  qed (use k' v' sk s r1 in \<open>simp add: jmembers.simps(2) Let_def\<close>)
qed

lemma compacts_always: "compacts f"
proof (induction f)
  case (Suc f)
  then show ?case using compacts_value [OF Suc] compacts_elems [OF Suc] compacts_members [OF Suc] unfolding compacts_def by blast
qed (simp add: compacts_def)

lemmas jcompact = compactsD [OF compacts_always]

subsection \<open>A value does not depend on what follows it\<close>

lemma jstring_swap: "jstring s = Some (t, u) \<Longrightarrow> jstring (t @ dquote # w) = Some (t, w)"
proof (induction s arbitrary: t u rule: jstring.induct)
  case (2 c r)
  consider "c = dquote" | "c = bslash" | "c \<noteq> dquote" "c \<noteq> bslash" by blast
  then show ?case
  proof cases
    case 1
    with "2.prems" show ?thesis by (simp add: jstring.simps(2))
  next
    case b: 2
    then obtain e r' where r: "r = e # r'" using "2.prems"
      by (cases r) (simp_all add: jstring.simps(2))
    show ?thesis
    proof (cases "esc_letter e")
      case True
      with b r "2.prems" "2.IH"(1) [OF _ _ r] show ?thesis
        by (auto simp: jstring.simps(2))
    next
      case False
      with b r "2.prems" "2.IH"(2) [OF _ _ r] show ?thesis
        by (auto simp: jstring.simps(2) split: if_splits list.splits)
    qed
  next
    case 3
    with "2.prems" "2.IH"(3) show ?thesis
      by (auto simp: jstring.simps(2) split: if_splits)
  qed
qed simp

lemma skip_ws_prefix: "skip_ws s = c # r \<Longrightarrow> \<exists>b. s = b @ c # r \<and> (\<forall>w. skip_ws (b @ c # w) = c # w) \<and> (\<forall>x \<in> set b. is_ws x)"
proof -
  assume s: "skip_ws s = c # r"
  define b where "b = takeWhile is_ws s"
  have b: "\<forall>x \<in> set b. is_ws x" by (auto simp: b_def dest: set_takeWhileD)
  have "s = b @ c # r" using s by (simp add: b_def skip_ws_def) (metis takeWhile_dropWhile_id)
  moreover have "skip_ws (b @ c # w) = c # w" for w
    using b skip_ws_head [OF s] by (simp add: skip_ws_def)
  ultimately show ?thesis using b by blast
qed

lemma stops_ws_append: "\<forall>x \<in> set b. is_ws x \<Longrightarrow> stops w \<Longrightarrow> stops (b @ w)"
proof (cases b)
  case (Cons y b')
  assume "\<forall>x \<in> set b. is_ws x"
  with Cons have "is_ws y" by simp
  then have "\<not> num_char y" by (auto simp: num_char_def is_ws_def is_dec_digit_def)
  with Cons show ?thesis by simp
qed simp

text \<open>One level of the parser, the levels below given: \<open>swaps f\<close> is the statement for fuel \<open>f\<close>.\<close>

definition swaps :: "nat \<Rightarrow> bool" where
  "swaps f \<longleftrightarrow>
     (\<forall>d s v u. jvalue f d s = Some (v, u) \<longrightarrow> (\<exists>p. s = p @ u \<and> p \<noteq> [] \<and> (\<forall>w. stops w \<longrightarrow> jvalue f d (p @ w) = Some (v, w)))) \<and>
     (\<forall>d s vs u. jelems f d s = Some (vs, u) \<longrightarrow> (\<exists>p. s = p @ u \<and> p \<noteq> [] \<and> (\<forall>w. jelems f d (p @ w) = Some (vs, w)))) \<and>
     (\<forall>d s ms u. jmembers f d s = Some (ms, u) \<longrightarrow> (\<exists>p. s = p @ u \<and> p \<noteq> [] \<and> (\<forall>w. jmembers f d (p @ w) = Some (ms, w))))"

lemma swapsD:
  assumes "swaps f"
  shows "jvalue f d s = Some (v, u) \<Longrightarrow> \<exists>p. s = p @ u \<and> p \<noteq> [] \<and> (\<forall>w. stops w \<longrightarrow> jvalue f d (p @ w) = Some (v, w))"
    and "jelems f d s = Some (vs, u) \<Longrightarrow> \<exists>p. s = p @ u \<and> p \<noteq> [] \<and> (\<forall>w. jelems f d (p @ w) = Some (vs, w))"
    and "jmembers f d s = Some (ms, u) \<Longrightarrow> \<exists>p. s = p @ u \<and> p \<noteq> [] \<and> (\<forall>w. jmembers f d (p @ w) = Some (ms, w))"
  using assms by (simp_all add: swaps_def)

lemma swaps_value:
  assumes "swaps f" and 1: "jvalue (Suc f) d s = Some (v, u)"
  shows "\<exists>p. s = p @ u \<and> p \<noteq> [] \<and> (\<forall>w. stops w \<longrightarrow> jvalue (Suc f) d (p @ w) = Some (v, w))"
proof -
  note IH = swapsD [OF assms(1)]
  from 1(1) show ?thesis
  proof (cases rule: jvalue_SomeD)
    case (string f' r t)
    then show ?thesis using jstring_text [OF string(3)] jstring_swap [OF string(3)]
      by (intro exI [of _ "dquote # t @ [dquote]"]) (simp add: jvalue_string)
  next
    case (obj0 f' r)
    from skip_ws_prefix [OF obj0(4)] obtain b where
      "r = b @ CHR ''}'' # u" "\<forall>w. skip_ws (b @ CHR ''}'' # w) = CHR ''}'' # w" by blast
    with obj0 show ?thesis
      by (intro exI [of _ "CHR ''{'' # b @ ''}''"]) (simp add: jvalue_object)
  next
    case (obj f' r x r' m)
    from skip_ws_prefix [OF obj(4)] obtain b where
      b: "r = b @ x # r'" "\<forall>w. skip_ws (b @ x # w) = x # w" by blast
    from IH(3) [of "d - 1" "x # r'" m u] obj obtain p where
      p: "x # r' = p @ u" "p \<noteq> []" "\<forall>w. jmembers f (d - 1) (p @ w) = Some (m, w)" by auto
    then obtain p' where p': "p = x # p'" by (cases p) auto
    with b p obj show ?thesis
      by (intro exI [of _ "CHR ''{'' # b @ p"]) (simp add: jvalue_object)
  next
    case (arr0 f' r)
    from skip_ws_prefix [OF arr0(4)] obtain b where
      "r = b @ CHR '']'' # u" "\<forall>w. skip_ws (b @ CHR '']'' # w) = CHR '']'' # w" by blast
    with arr0 show ?thesis
      by (intro exI [of _ "CHR ''['' # b @ '']''"]) (simp add: jvalue_array)
  next
    case (arr f' r x r' m)
    from skip_ws_prefix [OF arr(4)] obtain b where
      b: "r = b @ x # r'" "\<forall>w. skip_ws (b @ x # w) = x # w" by blast
    from IH(2) [of "d - 1" "x # r'" m u] arr obtain p where
      p: "x # r' = p @ u" "p \<noteq> []" "\<forall>w. jelems f (d - 1) (p @ w) = Some (m, w)" by auto
    then obtain p' where p': "p = x # p'" by (cases p) auto
    with b p arr show ?thesis
      by (intro exI [of _ "CHR ''['' # b @ p"]) (simp add: jvalue_array)
  next
    case (scalar f' c r)
    from jscalar_text [OF scalar(4)] obtain p where p: "s = p @ u" "p \<noteq> []" by auto
    have "jvalue (Suc f) d (p @ w) = Some (v, w)" if "stops w" for w
    proof -
      from jscalar_swap [OF scalar(4) that] obtain q where
        q: "s = q @ u" "q \<noteq> []" "\<not> opens (hd q)" "jscalar (q @ w) = Some (v, w)" by blast
      then obtain c' q' where "q = c' # q'" by (cases q) auto
      with p q show ?thesis by (auto simp: jvalue_scalar)
    qed
    with p show ?thesis by blast
  qed
qed

lemma swaps_elems:
  assumes "swaps f" and 2: "jelems (Suc f) d s = Some (vs, u)"
  shows "\<exists>p. s = p @ u \<and> p \<noteq> [] \<and> (\<forall>w. jelems (Suc f) d (p @ w) = Some (vs, w))"
proof -
  note IH = swapsD [OF assms(1)]
  from jelems_SomeD [OF 2(1)] obtain v r x r' where *: "jvalue f d s = Some (v, r)" "skip_ws r = x # r'"
    and u: "x = CHR '']'' \<and> vs = [v] \<and> u = r' \<or>
      x = CHR '','' \<and> (\<exists>ws. vs = v # ws \<and> jelems f d (skip_ws r') = Some (ws, u))"
    by auto
  then have x: "x = CHR '',''  \<or> x = CHR '']'' \<or> x = CHR ''}''" by auto
  from IH(1) [OF *(1)] obtain p where
    p: "s = p @ r" "p \<noteq> []" "\<forall>w. stops w \<longrightarrow> jvalue f d (p @ w) = Some (v, w)" by blast
  from skip_ws_prefix [OF *(2)] obtain b where
    b: "r = b @ x # r'" "\<forall>w. skip_ws (b @ x # w) = x # w" "\<forall>y \<in> set b. is_ws y" by blast
  have v: "jvalue f d (p @ b @ x # w) = Some (v, b @ x # w)" for w
    using p(3) stops_ws_append [OF b(3) stops_delimiter [OF x]] by simp
  from u show ?thesis
  proof (elim disjE conjE exE)
    fix ws assume a: "x = CHR '',''" "vs = v # ws" "jelems f d (skip_ws r') = Some (ws, u)"
    from IH(2) [OF a(3)] obtain q where
      q: "skip_ws r' = q @ u" "q \<noteq> []" "\<forall>w. jelems f d (q @ w) = Some (ws, w)" by blast
    then obtain y q' where y: "q = y # q'" by (cases q) auto
    with q(1) skip_ws_prefix [of r' y "q' @ u"] obtain b' where
      b': "r' = b' @ y # q' @ u" "\<forall>w. skip_ws (b' @ y # w) = y # w" by auto
    show ?thesis using a p b b' v q y
      by (intro exI [of _ "p @ b @ x # b' @ q"]) (simp add: jelems.simps(2))
  next
    assume "x = CHR '']''" "vs = [v]" "u = r'"
    then show ?thesis using p b v
      by (intro exI [of _ "p @ b @ [x]"]) (simp add: jelems.simps(2))
  qed
qed

lemma swaps_members:
  assumes "swaps f" and 3: "jmembers (Suc f) d s = Some (ms, u)"
  shows "\<exists>p. s = p @ u \<and> p \<noteq> [] \<and> (\<forall>w. jmembers (Suc f) d (p @ w) = Some (ms, w))"
proof -
  note IH = swapsD [OF assms(1)]
  from jmembers_SomeD [OF 3] obtain r k r1 r2 v r3 x r4 where
    *: "s = dquote # r" "jstring r = Some (k, r1)" "skip_ws r1 = CHR '':'' # r2"
       "jvalue f d (skip_ws r2) = Some (v, r3)" "skip_ws r3 = x # r4"
    and u: "x = CHR ''}'' \<and> ms = [(k, v, take (length (skip_ws r2) - length r3) (skip_ws r2))] \<and> u = r4 \<or>
      x = CHR '','' \<and> (\<exists>ns. ms = (k, v, take (length (skip_ws r2) - length r3) (skip_ws r2)) # ns \<and>
        jmembers f d (skip_ws r4) = Some (ns, u))"
    by (auto simp: Let_def)
  then have x: "x = CHR '',''  \<or> x = CHR '']'' \<or> x = CHR ''}''" by auto
  note k = jstring_text [OF *(2)] jstring_swap [OF *(2)]
  from skip_ws_prefix [OF *(3)] obtain b1 where
    b1: "r1 = b1 @ CHR '':'' # r2" "\<forall>w. skip_ws (b1 @ CHR '':'' # w) = CHR '':'' # w" by blast
  from IH(1) [OF *(4)] obtain p where
    p: "skip_ws r2 = p @ r3" "p \<noteq> []" "\<forall>w. stops w \<longrightarrow> jvalue f d (p @ w) = Some (v, w)" by blast
  then obtain y p' where y: "p = y # p'" by (cases p) auto
  with p(1) skip_ws_prefix [of r2 y "p' @ r3"] obtain b2 where
    b2: "r2 = b2 @ y # p' @ r3" "\<forall>w. skip_ws (b2 @ y # w) = y # w" by auto
  from skip_ws_prefix [OF *(5)] obtain b3 where
    b3: "r3 = b3 @ x # r4" "\<forall>w. skip_ws (b3 @ x # w) = x # w" "\<forall>y \<in> set b3. is_ws y" by blast
  have v: "jvalue f d (p @ b3 @ x # w) = Some (v, b3 @ x # w)" for w
    using p(3) stops_ws_append [OF b3(3) stops_delimiter [OF x]] by simp
  have raw: "take (length (skip_ws r2) - length r3) (skip_ws r2) = p" by (simp add: p(1))
  define pre where "pre = dquote # k @ dquote # b1 @ CHR '':'' # b2 @ p @ b3 @ [x]"
  have s: "s = pre @ r4" by (simp add: pre_def *(1) k(1) b1(1) b2(1) b3(1) y)
  have step: "jmembers (Suc f) d (pre @ w) =
      (if x = CHR ''}'' then Some ([(k, v, p)], w)
       else if x = CHR '','' then map_option (\<lambda>(ns, u). ((k, v, p) # ns, u)) (jmembers f d (skip_ws w))
       else None)" for w
  proof -
    have "jvalue f d (y # p' @ b3 @ x # w) = Some (v, b3 @ x # w)" using v y by simp
    then show ?thesis
      using k(2) b1(2) b2(2) b3(2) by (simp add: jmembers.simps(2) pre_def y Let_def)
  qed
  from u show ?thesis
  proof (elim disjE conjE exE)
    fix ns assume a: "x = CHR '',''" "jmembers f d (skip_ws r4) = Some (ns, u)"
      "ms = (k, v, take (length (skip_ws r2) - length r3) (skip_ws r2)) # ns"
    from IH(3) [OF a(2)] obtain q where
      q: "skip_ws r4 = q @ u" "q \<noteq> []" "\<forall>w. jmembers f d (q @ w) = Some (ns, w)" by blast
    then obtain z q' where z: "q = z # q'" by (cases q) auto
    with q(1) skip_ws_prefix [of r4 z "q' @ u"] obtain b4 where
      b4: "r4 = b4 @ z # q' @ u" "\<forall>w. skip_ws (b4 @ z # w) = z # w" by auto
    have "jmembers (Suc f) d ((pre @ b4 @ q) @ w) = Some (ms, w)" for w
      using step [of "b4 @ q @ w"] a raw q b4 z by simp
    then show ?thesis using s b4 z by (intro exI [of _ "pre @ b4 @ q"]) (simp add: pre_def)
  next
    assume "x = CHR ''}''" "u = r4" "ms = [(k, v, take (length (skip_ws r2) - length r3) (skip_ws r2))]"
    then show ?thesis using s step raw by (intro exI [of _ pre]) (simp add: pre_def)
  qed
qed

lemma swaps_always: "swaps f"
proof (induction f)
  case (Suc f)
  then show ?case using swaps_value [OF Suc] swaps_elems [OF Suc] swaps_members [OF Suc] unfolding swaps_def by blast
qed (simp add: swaps_def)

lemmas jparse_swap = swapsD [OF swaps_always]

subsection \<open>Texts of values, struct members, encoded objects\<close>

lemma stops_Nil [simp]: "stops []"
  by (simp add: stops_def)

lemma jvalue_any_fuel:
  assumes "jvalue f d s = Some (v, u)"
  shows "jvalue (Suc (2 * length s)) d s = Some (v, u)"
proof -
  have "jvalue (max f (Suc (2 * length s))) d s = Some (v, u)"
    using jparse_append(1) [OF assms, of "[]"] by (auto simp: max_def)
  then show ?thesis
    using jvalue_fuel_enough [of s "max f (Suc (2 * length s))" d] by (simp add: max_def split: if_splits)
qed

lemma json_textI: "jvalue f d p = Some (v, []) \<Longrightarrow> json_text d p"
  using jvalue_any_fuel by (auto simp: json_text_def)

lemma json_tree_eq: "jvalue f d p = Some (v, []) \<Longrightarrow> json_tree d p = v"
  using jvalue_any_fuel by (fastforce simp: json_tree_def)

lemma json_text_tree:
  assumes "json_text d p"
  shows "jvalue (Suc (2 * length p)) d p = Some (json_tree d p, [])"
  using assms by (auto simp: json_text_def json_tree_def)

lemma json_text_at:
  assumes "json_text d p" and "stops w" and "2 * length p < f" and "d \<le> d'"
  shows "jvalue f d' (p @ w) = Some (json_tree d p, w)"
  using jparse_append(1) [OF json_text_tree [OF assms(1)], of w f d'] assms by simp

lemma jvalue_head_not_ws: "jvalue f d s = Some (v, u) \<Longrightarrow> s \<noteq> [] \<and> \<not> is_ws (hd s)"
proof (cases s)
  case (Cons c r)
  assume a: "jvalue f d s = Some (v, u)"
  have "\<not> is_ws c"
  proof
    assume c: "is_ws c"
    then have o: "\<not> opens c" "c \<noteq> CHR ''t''" "c \<noteq> CHR ''f''" "c \<noteq> CHR ''n''" "c \<noteq> CHR ''-''"
      "c \<noteq> CHR ''0''" "\<not> is_dec_digit c"
      by (auto simp: is_ws_def opens_def is_dec_digit_def)
    from a obtain f' where "f = Suc f'" by (cases f) auto
    with a Cons o have "jscalar s = Some (v, u)" by (simp add: jvalue_scalar)
    with Cons o show False
      by (auto simp: jscalar_def jnumber_def jint_def jdigits1_def Let_def split: option.splits)
  qed
  with Cons show ?thesis by simp
qed simp

lemma json_text_head: "json_text d p \<Longrightarrow> p \<noteq> [] \<and> \<not> is_ws (hd p)"
  using jvalue_head_not_ws by (auto simp: json_text_def)

lemma skip_ws_text_id: "json_text d p \<Longrightarrow> skip_ws (p @ w) = p @ w"
  using json_text_head [of d p] by (cases p) (auto simp: skip_ws_Cons)

lemma json_text_mono: "json_text d p \<Longrightarrow> d \<le> d' \<Longrightarrow> json_text d' p"
  using json_text_at [of d p "[]" "Suc (2 * length p)" d'] by (auto intro: json_textI)

lemma json_tree_mono: "json_text d p \<Longrightarrow> d \<le> d' \<Longrightarrow> json_tree d' p = json_tree d p"
  using json_text_at [of d p "[]" "Suc (2 * length p)" d'] by (auto intro: json_tree_eq)

lemma json_parse_text: "json_text max_nesting p \<Longrightarrow> json_parse p = Some (json_tree max_nesting p)"
  using skip_ws_text_id [of max_nesting p "[]"] json_text_tree [of max_nesting p]
  by (simp add: json_parse_def)

lemma json_text_valid: "json_text max_nesting p \<Longrightarrow> json_valid p"
  by (simp add: json_valid_def json_parse_text)

lemma json_text_compact:
  assumes "json_text d p" shows "json_text d (compact_out p)"
  using jcompact(1) [OF json_text_tree [OF assms]] json_text_head [OF assms]
  by (auto intro: json_textI)

lemma json_valid_compact:
  assumes "json_valid s" shows "json_text max_nesting (compact_out s)"
proof -
  from assms obtain v r where *: "jvalue (Suc (2 * length s)) max_nesting (skip_ws s) = Some (v, r)"
    "skip_ws r = []"
    by (auto simp: json_valid_def json_parse_def split: option.splits if_splits)
  have "compact_out r = []" using *(2) compact_out_skip [of r] by simp
  then show ?thesis
    using jcompact(1) [OF *(1)] jvalue_head_not_ws [OF *(1)]
    by (auto simp: compact_out_skip intro: json_textI)
qed

lemma json_compact_text: "json_text max_nesting p \<Longrightarrow> json_compact p = Some (compact_out p)"
  by (simp add: json_compact_def json_text_valid)

lemma json_compact_twice: "json_compact p = Some q \<Longrightarrow> json_compact q = Some q"
  using json_valid_compact [of p] json_compact_text [of "compact_out p"]
  by (auto simp: json_compact_def compact_idem split: if_splits)

lemma json_compact_text_of: "json_compact p = Some q \<Longrightarrow> json_text max_nesting q"
  using json_valid_compact by (auto simp: json_compact_def split: if_splits)

text \<open>The raw text of a member is a value on its own.\<close>

lemma jmembers_raw:
  "jmembers f d s = Some (ms, u) \<Longrightarrow> (k, v, raw) \<in> set ms \<Longrightarrow> json_text d raw \<and> json_tree d raw = v"
proof (induction f arbitrary: s ms u)
  case (Suc f)
  from jmembers_SomeD [OF Suc.prems(1)] obtain r k' r1 r2 v' r3 x r4 where
    "s = dquote # r" "jstring r = Some (k', r1)" "skip_ws r1 = CHR '':'' # r2" "skip_ws r3 = x # r4"
    and *: "jvalue f d (skip_ws r2) = Some (v', r3)"
    and ms: "ms = [(k', v', take (length (skip_ws r2) - length r3) (skip_ws r2))] \<or>
      (\<exists>ns. ms = (k', v', take (length (skip_ws r2) - length r3) (skip_ws r2)) # ns \<and>
          jmembers f d (skip_ws r4) = Some (ns, u))"
    by (auto simp: Let_def)
  from jparse_swap(1) [OF *] obtain p where
    p: "skip_ws r2 = p @ r3" "\<forall>w. stops w \<longrightarrow> jvalue f d (p @ w) = Some (v', w)" by blast
  from p(2) have "jvalue f d p = Some (v', [])" by (metis append_Nil2 stops_Nil)
  then have "json_text d p \<and> json_tree d p = v'" by (auto intro: json_textI json_tree_eq)
  moreover have "take (length (skip_ws r2) - length r3) (skip_ws r2) = p" by (simp add: p(1))
  ultimately show ?case using ms Suc.IH Suc.prems(2) by auto
qed simp

text \<open>Scalars and objects that the encoder writes.\<close>

lemma enc_string_at: "jvalue (Suc f) d (enc_string s @ w) = Some (JStr (esc_string s), w)"
  by (simp add: enc_string_def jvalue_string)

lemma json_text_enc_string [simp]: "json_text d (enc_string s)"
  using enc_string_at [of 0 d s "[]"] by (auto intro: json_textI)

lemma json_tree_enc_string [simp]: "json_tree d (enc_string s) = JStr (esc_string s)"
  using enc_string_at [of 0 d s "[]"] by (auto intro: json_tree_eq)

lemma show_nat_head: "0 < n \<Longrightarrow> hd (show_nat n) \<noteq> CHR ''0''"
proof (induction n rule: show_nat.induct)
  case (1 n)
  show ?case
  proof (cases "n < 10")
    case True
    with 1 have "byte (hd (show_nat n)) \<noteq> 48" by (simp add: show_nat.simps [of n])
    then show ?thesis by auto
  next
    case False
    with 1 show_nat_digits [of "n div 10"] show ?thesis
      by (simp add: show_nat.simps [of n])
  qed
qed

lemma jint_show: "stops w \<Longrightarrow> jint (show_nat n @ w) = Some (show_nat n, w)"
proof (cases "n = 0")
  case True
  then have "show_nat n = ''0''" by (simp add: show_nat.simps)
  then show ?thesis by (simp add: jint_def)
next
  case False
  assume w: "stops w"
  obtain c r where s: "show_nat n = c # r" using show_nat_Cons [of n] by blast
  with False show_nat_head [of n] have "c \<noteq> CHR ''0''" by simp
  moreover have "jdigits1 (show_nat n) = Some (show_nat n, [])"
  proof -
    have tw: "takeWhile is_dec_digit (show_nat n) = show_nat n"
      using show_nat_digits [of n] by (simp add: list_all_iff takeWhile_eq_all_conv)
    show ?thesis
      using show_nat_digits [of n] by (simp add: jdigits1_def Let_def list_all_iff tw)
  qed
  with jdigits1_append [of "show_nat n" "show_nat n" "[]" w] w
  have "jdigits1 (show_nat n @ w) = Some (show_nat n, w)" by simp
  ultimately show ?thesis by (simp add: jint_def s)
qed

lemma jfrac_stops: "stops w \<Longrightarrow> jfrac w = Some ([], w)"
  by (cases w) (auto simp: jfrac_def num_char_def)

lemma jexp_stops: "stops w \<Longrightarrow> jexp w = Some ([], w)"
  by (cases w) (auto simp: jexp_def num_char_def)

lemma jnumber_show: "stops w \<Longrightarrow> jnumber (show_int i @ w) = Some (show_int i, w)"
proof -
  assume w: "stops w"
  obtain c r where s: "show_nat (nat i) = c # r" "is_dec_digit c"
    using show_nat_Cons [of "nat i"] by blast
  then have "c \<noteq> CHR ''-''" by (auto simp: is_dec_digit_def)
  then show ?thesis
    using w jint_show [of w "nat i"] jint_show [of w "nat (- i)"] s
    by (auto simp: jnumber_def show_int_def jfrac_stops jexp_stops)
qed

lemma show_int_head: "\<exists>c r. show_int i = c # r \<and> (c = CHR ''-'' \<or> is_dec_digit c)"
  using show_nat_Cons [of "nat i"] by (auto simp: show_int_def)

lemma show_int_at: "stops w \<Longrightarrow> jvalue (Suc f) d (show_int i @ w) = Some (JNum (show_int i), w)"
proof -
  assume w: "stops w"
  obtain c r where c: "show_int i = c # r" "c = CHR ''-'' \<or> is_dec_digit c"
    using show_int_head by blast
  then have "\<not> opens c" "c \<noteq> CHR ''t''" "c \<noteq> CHR ''f''" "c \<noteq> CHR ''n''"
    by (auto simp: opens_def is_dec_digit_def)
  with jnumber_show [OF w, of i] c show ?thesis by (simp add: jvalue_scalar jscalar_def)
qed

lemma json_text_show_int [simp]: "json_text d (show_int i)"
  using show_int_at [of "[]" 0 d i] by (auto intro: json_textI)

lemma json_tree_show_int [simp]: "json_tree d (show_int i) = JNum (show_int i)"
  using show_int_at [of "[]" 0 d i] by (auto intro: json_tree_eq)

lemma put_string_enc [simp]: "put_string (JStr (esc_string s)) old = (to_valid_utf8 s, False)"
  by (simp add: put_string_def)

lemma put_int_show [simp]: "int64_range i \<Longrightarrow> put_int (JNum (show_int i)) old = (i, False)"
  by (simp add: put_int_def)

lemma jmembers_enc:
  assumes "fs \<noteq> []" and "\<forall>(k, t) \<in> set fs. json_text d t" and "2 * length (enc_fields fs) + 1 < f"
  shows "jmembers f d (enc_fields fs @ CHR ''}'' # w)
     = Some (map (\<lambda>(k, t). (esc_string k, json_tree d t, t)) fs, w)"
  using assms
proof (induction fs arbitrary: f rule: enc_fields.induct)
  case (2 k t)
  then obtain g where f: "f = Suc g" by (cases f) auto
  have "jvalue g d (t @ CHR ''}'' # w) = Some (json_tree d t, CHR ''}'' # w)"
    using 2 f by (intro json_text_at) (auto simp: num_char_def is_dec_digit_def)
  then show ?case
    using skip_ws_text_id [of d t "CHR ''}'' # w"] 2
    by (simp add: f jmembers.simps(2) enc_string_def skip_ws_Cons is_ws_def Let_def)
next
  case (3 k t q qs)
  then obtain g where f: "f = Suc g" by (cases f) auto
  have v: "jvalue g d (t @ CHR '','' # x) = Some (json_tree d t, CHR '','' # x)" for x
    using 3 f by (intro json_text_at) (auto simp: num_char_def is_dec_digit_def)
  have m: "jmembers g d (enc_fields (q # qs) @ CHR ''}'' # w)
      = Some (map (\<lambda>(k, t). (esc_string k, json_tree d t, t)) (q # qs), w)"
    using 3 f by (intro "3.IH") auto
  have s: "skip_ws (enc_fields (q # qs) @ x) = enc_fields (q # qs) @ x" for x
    by (cases q; cases qs) (simp_all add: enc_string_def skip_ws_Cons is_ws_def)
  show ?case
    using skip_ws_text_id [of d t] 3 v m s
    by (simp add: f jmembers.simps(2) enc_string_def skip_ws_Cons is_ws_def Let_def)
qed simp

lemma enc_object_at:
  assumes "fs \<noteq> []" and "\<forall>(k, t) \<in> set fs. json_text d t" and "d < d'"
  shows "json_text d' (enc_object fs)"
    and "json_tree d' (enc_object fs) = JObj (map (\<lambda>(k, t). (esc_string k, json_tree d t, t)) fs)"
proof -
  have t: "\<forall>(k, t) \<in> set fs. json_text (d' - 1) t"
    using assms(2,3) by (auto intro: json_text_mono)
  have tr: "map (\<lambda>(k, t). (esc_string k, json_tree (d' - 1) t, t)) fs
      = map (\<lambda>(k, t). (esc_string k, json_tree d t, t)) fs"
    using assms(2,3) json_tree_mono [of d _ "d' - 1"] by auto
  obtain r where r: "enc_fields fs = dquote # r"
    using assms(1) by (cases fs rule: enc_fields.cases) (auto simp: enc_string_def)
  have "jmembers (2 * length (enc_fields fs) + 2) (d' - 1) (enc_fields fs @ ''}'')
      = Some (map (\<lambda>(k, t). (esc_string k, json_tree d t, t)) fs, [])"
    using jmembers_enc [OF assms(1) t, of "2 * length (enc_fields fs) + 2" "[]"] tr by simp
  then have "jvalue (Suc (2 * length (enc_fields fs) + 2)) d' (enc_object fs)
      = Some (JObj (map (\<lambda>(k, t). (esc_string k, json_tree d t, t)) fs), [])"
    using assms(3) r by (simp add: enc_object_def jvalue_object skip_ws_Cons is_ws_def)
  then show "json_text d' (enc_object fs)"
    "json_tree d' (enc_object fs) = JObj (map (\<lambda>(k, t). (esc_string k, json_tree d t, t)) fs)"
    by (auto intro: json_textI json_tree_eq)
qed

end
