(* ===== verification/Envelope.thy ===== *)
theory Envelope
  imports Go_Json_Facts
begin

text \<open>
  \<open>protocol/envelope.go\<close> and \<open>protocol/payloads.go\<close>: the command names, the error codes, the
  envelope and its payloads, the construction, encoding and parsing of envelopes, identifiers
  and the check of a queue identifier.  A frame on the wire is the byte string
  \<open>json.Marshal\<close> writes and \<open>Parse\<close> reads.
\<close>

named_theorems proto_simps \<open>the protocol's constants\<close>

subsection \<open>Commands and codes\<close>

definition protocol_version :: int where [proto_simps]: "protocol_version = 1"

definition TypeNew :: string where [proto_simps]: "TypeNew = ''NEW''"
definition TypeSub :: string where [proto_simps]: "TypeSub = ''SUB''"
definition TypeSend :: string where [proto_simps]: "TypeSend = ''SEND''"
definition TypeAck :: string where [proto_simps]: "TypeAck = ''ACK''"
definition TypePing :: string where [proto_simps]: "TypePing = ''PING''"
definition TypeNewOk :: string where [proto_simps]: "TypeNewOk = ''NEW_OK''"
definition TypeSubOk :: string where [proto_simps]: "TypeSubOk = ''SUB_OK''"
definition TypeDeliver :: string where [proto_simps]: "TypeDeliver = ''DELIVER''"
definition TypePong :: string where [proto_simps]: "TypePong = ''PONG''"
definition TypeError :: string where [proto_simps]: "TypeError = ''ERROR''"

definition CodeBadRequest :: int where [proto_simps]: "CodeBadRequest = 400"
definition CodeForbidden :: int where [proto_simps]: "CodeForbidden = 403"
definition CodeQueueNotFound :: int where [proto_simps]: "CodeQueueNotFound = 404"
definition CodeTooManyRequests :: int where [proto_simps]: "CodeTooManyRequests = 429"
definition CodeServerError :: int where [proto_simps]: "CodeServerError = 500"

subsection \<open>Envelopes and payloads\<close>

text \<open>\<open>Payload\<close> is a \<open>json.RawMessage\<close>: \<open>None\<close> is the nil slice, \<open>Some t\<close> the bytes.\<close>

record envelope =
  Version :: int
  Typ :: string
  QueueID :: string
  MsgID :: string
  TS :: int
  Payload :: "string option"

text \<open>What the code passes as the \<open>payload any\<close> of an envelope.\<close>

datatype payload =
    NoPayload
  | ChatMessage string
  | AckMessage string
  | NewOkMessage string
  | ErrorMessage int string
  | RawMessage "string option"

fun marshal_payload :: "payload \<Rightarrow> string option" where
  "marshal_payload NoPayload = Some ''null''"
| "marshal_payload (ChatMessage t) = Some (enc_object [(''text'', enc_string t)])"
| "marshal_payload (AckMessage m) = Some (enc_object [(''mid'', enc_string m)])"
| "marshal_payload (NewOkMessage q) = Some (enc_object [(''qid'', enc_string q)])"
| "marshal_payload (ErrorMessage c m) =
     Some (enc_object [(''code'', show_int c), (''message'', enc_string m)])"
| "marshal_payload (RawMessage None) = Some ''null''"
| "marshal_payload (RawMessage (Some p)) = json_compact p"

text \<open>\<open>now\<close> is the value of \<open>time.Now().Unix()\<close> at the call.\<close>

definition NewEnvelope :: "int \<Rightarrow> string \<Rightarrow> string \<Rightarrow> string \<Rightarrow> payload \<Rightarrow> envelope option" where
  "NewEnvelope now msgType qid mid pl =
     (case (if pl = NoPayload then Some ''{}'' else marshal_payload pl) of
        None \<Rightarrow> None
      | Some raw \<Rightarrow> Some \<lparr>Version = protocol_version, Typ = msgType, QueueID = qid, MsgID = mid,
                         TS = now, Payload = Some raw\<rparr>)"

text \<open>\<open>json.Marshal(env)\<close>: fields in order, the two \<open>omitempty\<close> ones left out when empty.\<close>

definition envelope_fields :: "envelope \<Rightarrow> string \<Rightarrow> (string \<times> string) list" where
  "envelope_fields e raw =
     [(''v'', show_int (Version e)), (''type'', enc_string (Typ e))]
     @ (if QueueID e = [] then [] else [(''qid'', enc_string (QueueID e))])
     @ (if MsgID e = [] then [] else [(''mid'', enc_string (MsgID e))])
     @ [(''ts'', show_int (TS e)), (''payload'', raw)]"

definition marshal_envelope :: "envelope \<Rightarrow> string option" where
  "marshal_envelope e =
     (case (case Payload e of None \<Rightarrow> Some ''null'' | Some p \<Rightarrow> json_compact p) of
        None \<Rightarrow> None
      | Some raw \<Rightarrow> Some (enc_object (envelope_fields e raw)))"

subsection \<open>Parsing\<close>

datatype parse_error = InvalidJson | UnsupportedVersion int | MissingType

definition zero_envelope :: envelope where
  "zero_envelope = \<lparr>Version = 0, Typ = [], QueueID = [], MsgID = [], TS = 0, Payload = None\<rparr>"

definition envelope_names :: "string list" where
  "envelope_names = [''v'', ''type'', ''qid'', ''mid'', ''ts'', ''payload'']"

definition put_envelope :: "string \<Rightarrow> json \<Rightarrow> string \<Rightarrow> envelope \<Rightarrow> envelope \<times> bool" where
  "put_envelope n v raw e =
     (if n = ''v'' then (let (i, b) = put_int v (Version e) in (e\<lparr>Version := i\<rparr>, b))
      else if n = ''type'' then (let (s, b) = put_string v (Typ e) in (e\<lparr>Typ := s\<rparr>, b))
      else if n = ''qid'' then (let (s, b) = put_string v (QueueID e) in (e\<lparr>QueueID := s\<rparr>, b))
      else if n = ''mid'' then (let (s, b) = put_string v (MsgID e) in (e\<lparr>MsgID := s\<rparr>, b))
      else if n = ''ts'' then (let (i, b) = put_int v (TS e) in (e\<lparr>TS := i\<rparr>, b))
      else (e\<lparr>Payload := Some raw\<rparr>, False))"

definition Parse :: "string \<Rightarrow> parse_error + envelope" where
  "Parse data =
     (let (e, err) = unmarshal envelope_names put_envelope data zero_envelope
      in if err then Inl InvalidJson
         else if Version e \<noteq> protocol_version then Inl (UnsupportedVersion (Version e))
         else if Typ e = [] then Inl MissingType
         else Inr e)"

text \<open>
  \<open>env.DecodePayload(&v)\<close> for the three payload structs that are decoded: the struct afterwards
  and whether an error is returned.
\<close>

definition payload_bytes :: "envelope \<Rightarrow> string" where
  "payload_bytes e = (case Payload e of None \<Rightarrow> [] | Some p \<Rightarrow> p)"

definition decode_chat :: "envelope \<Rightarrow> string \<times> bool" where
  "decode_chat e = unmarshal [''text''] (\<lambda>_ v _. put_string v) (payload_bytes e) []"

definition decode_new_ok :: "envelope \<Rightarrow> string \<times> bool" where
  "decode_new_ok e = unmarshal [''qid''] (\<lambda>_ v _. put_string v) (payload_bytes e) []"

definition put_error :: "string \<Rightarrow> json \<Rightarrow> string \<Rightarrow> int \<times> string \<Rightarrow> (int \<times> string) \<times> bool" where
  "put_error n v raw em =
     (if n = ''code'' then (let (i, b) = put_int v (fst em) in ((i, snd em), b))
      else (let (s, b) = put_string v (snd em) in ((fst em, s), b)))"

definition decode_error :: "envelope \<Rightarrow> (int \<times> string) \<times> bool" where
  "decode_error e = unmarshal [''code'', ''message''] put_error (payload_bytes e) (0, [])"

subsection \<open>Identifiers\<close>

text \<open>\<open>r\<close> is what \<open>rand.Read\<close> puts into the 16 bytes, \<open>None\<close> its error.\<close>

definition NewID :: "bytes option \<Rightarrow> string option" where
  "NewID r = (case r of None \<Rightarrow> None | Some b \<Rightarrow> Some (hex_encode b))"

definition ValidQueueID :: "string \<Rightarrow> bool" where
  "ValidQueueID qid = (if length qid \<noteq> 32 then False else hex_decode qid \<noteq> None)"

subsection \<open>Facts\<close>

lemma marshal_payload_total:
  "(\<And>p. pl \<noteq> RawMessage (Some p)) \<Longrightarrow> marshal_payload pl \<noteq> None"
  by (cases pl rule: marshal_payload.cases) auto

lemma NewEnvelope_SomeD:
  assumes "NewEnvelope now t q m pl = Some e"
  shows "Version e = 1 \<and> Typ e = t \<and> QueueID e = q \<and> MsgID e = m \<and> TS e = now \<and> (\<exists>raw. Payload e = Some raw)"
  using assms by (auto simp: NewEnvelope_def protocol_version_def split: option.splits if_splits)

lemma to_valid_utf8_Nil [simp]: "to_valid_utf8 [] = []"
  by (simp add: to_valid_utf8.simps)

lemma to_valid_utf8_not_Nil [simp]: "s \<noteq> [] \<Longrightarrow> to_valid_utf8 s \<noteq> []"
proof (cases s)
  case (Cons c r)
  then show ?thesis
    by (subst to_valid_utf8.simps)
      (auto simp: rune_error_def simp del: utf8_len.simps dest: utf8_len_bounds split: option.split)
qed simp

lemma to_valid_utf8_ascii_Cons [simp]: "is_ascii c \<Longrightarrow> to_valid_utf8 (c # s) = c # to_valid_utf8 s"
  by (subst to_valid_utf8.simps) simp

lemma ascii_valid_utf8: "list_all is_ascii s \<Longrightarrow> to_valid_utf8 s = s"
  by (induction s) auto

lemma hex_ascii: "list_all (\<lambda>c. hex_val c \<noteq> None) s \<Longrightarrow> list_all is_ascii s"
  by (induction s) (auto simp: hex_val_def is_ascii_def split: if_splits)

lemma ValidQueueID_iff:
  "ValidQueueID q \<longleftrightarrow> length q = 32 \<and> list_all (\<lambda>c. hex_val c \<noteq> None) q"
  using hex_decode_iff [of q] by (auto simp: ValidQueueID_def)

lemma ValidQueueID_length: "ValidQueueID q \<Longrightarrow> length q = 32"
  by (simp add: ValidQueueID_iff)

lemma ValidQueueID_utf8: "ValidQueueID q \<Longrightarrow> to_valid_utf8 q = q"
  by (simp add: ValidQueueID_iff ascii_valid_utf8 hex_ascii)

lemma NewID_lower: "NewID r = Some i \<Longrightarrow> list_all is_lower_hex i"
  by (auto simp: NewID_def hex_encode_lower split: option.splits)

lemma NewID_length: "NewID (Some b) = Some i \<Longrightarrow> length i = 2 * length b"
  by (auto simp: NewID_def)

lemma lower_hex_all: "list_all is_lower_hex s \<Longrightarrow> list_all (\<lambda>c. hex_val c \<noteq> None) s"
  using hex_val_lower by (auto simp: list_all_iff)

lemma NewID_valid: "length b = 16 \<Longrightarrow> NewID (Some b) = Some i \<Longrightarrow> ValidQueueID i"
  using NewID_lower [of "Some b" i, THEN lower_hex_all] by (simp add: ValidQueueID_iff NewID_length)

lemma max_nesting_gt [simp]: "0 < max_nesting"
  by (simp add: max_nesting_def)

lemma json_text_null [simp]: "json_text d ''null''"
proof (rule json_textI)
  show "jvalue 1 d ''null'' = Some (JNull, [])"
    by (simp add: jvalue_scalar opens_def jscalar_def jlit_def)
qed

lemma json_text_empty_object [simp]: "0 < d \<Longrightarrow> json_text d ''{}''"
  by (rule json_textI [of 1]) (simp add: jvalue_object skip_ws_Cons is_ws_def)

text \<open>Reading back the fields the encoder wrote.\<close>

lemma field_of_exact: "k \<in> set names \<Longrightarrow> field_of names k = Some k"
  by (simp add: field_of_def)

lemma envelope_fields_text:
  "json_text d raw \<Longrightarrow> \<forall>(k, t) \<in> set (envelope_fields e raw). json_text d t"
  by (auto simp: envelope_fields_def)

lemma unmarshal_envelope:
  assumes raw: "json_text (max_nesting - 1) raw"
    and r: "int64_range (Version e)" "int64_range (TS e)"
  shows "unmarshal envelope_names put_envelope (enc_object (envelope_fields e raw)) zero_envelope
    = (\<lparr>Version = Version e, Typ = to_valid_utf8 (Typ e), QueueID = to_valid_utf8 (QueueID e),
        MsgID = to_valid_utf8 (MsgID e), TS = TS e, Payload = Some raw\<rparr>, False)"
proof -
  have ne: "envelope_fields e raw \<noteq> []" by (simp add: envelope_fields_def)
  note o = enc_object_at [OF ne envelope_fields_text [OF raw], of max_nesting]
  have p: "json_parse (enc_object (envelope_fields e raw)) = Some (JObj
      (map (\<lambda>(k, t). (esc_string k, json_tree (max_nesting - 1) t, t)) (envelope_fields e raw)))"
    using o json_parse_text by simp
  show ?thesis
    unfolding unmarshal_def p
    by (auto simp: envelope_fields_def envelope_names_def field_of_exact put_envelope_def
        zero_envelope_def is_ascii_def r)
qed

text \<open>Whatever \<open>Parse\<close> accepts has a payload that is absent or the text of a JSON value.\<close>

lemma decode_members_inv:
  assumes "decode_members names put ms (s, e) = (s', e')" and "P s"
    and "\<And>n k v raw s. (k, v, raw) \<in> set ms \<Longrightarrow> P s \<Longrightarrow> P (fst (put n v raw s))"
  shows "P s'"
  using assms
proof (induction ms arbitrary: s e)
  case (Cons m ms)
  obtain k v raw where m: "m = (k, v, raw)" by (cases m)
  have P: "P (fst (put n v raw s))" if "P s" "(k, v, raw) \<in> set ms" for n k v raw s
    using that Cons.prems(3) [of k v raw s n] by simp
  show ?case
  proof (cases "field_of names (unquote k)")
    case None
    with Cons.prems(1) m have "decode_members names put ms (s, e) = (s', e')" by simp
    from Cons.IH [OF this Cons.prems(2)] P show ?thesis by blast
  next
    case (Some n)
    obtain s1 e1 where "put n v raw s = (s1, e1)" by (cases "put n v raw s")
    moreover from this have "P s1" using Cons.prems(2) Cons.prems(3) [of k v raw s n] m by simp
    ultimately have "decode_members names put ms (s1, e \<or> e1) = (s', e')" "P s1"
      using Cons.prems(1) m Some by (auto simp: Let_def)
    from Cons.IH [OF this] P show ?thesis by blast
  qed
qed simp

lemma json_parse_members_raw:
  assumes "json_parse s = Some (JObj ms)" and "(k, v, raw) \<in> set ms"
  shows "json_text (max_nesting - 1) raw"
proof -
  from assms(1) obtain r where "jvalue (Suc (2 * length s)) max_nesting (skip_ws s) = Some (JObj ms, r)"
    by (auto simp: json_parse_def split: option.splits if_splits)
  then show ?thesis
  proof (cases rule: jvalue_SomeD)
    case obj0
    with assms(2) show ?thesis by simp
  next
    case (obj f' r1 x r' m)
    with assms(2) show ?thesis using jmembers_raw by auto
  next
    case (scalar f' c r1)
    then show ?thesis
      by (auto simp: jscalar_def jlit_def split: list.splits if_splits)
  qed simp_all
qed

lemma Parse_SomeD:
  assumes "Parse data = Inr e"
  shows "Version e = 1" and "Typ e \<noteq> []"
    and "Payload e = Some p \<Longrightarrow> json_text (max_nesting - 1) p"
proof -
  obtain e' err where u: "unmarshal envelope_names put_envelope data zero_envelope = (e', err)"
    by (cases "unmarshal envelope_names put_envelope data zero_envelope")
  with assms have e: "e' = e" "\<not> err" "Version e = 1" "Typ e \<noteq> []"
    by (auto simp: Parse_def protocol_version_def split: if_splits)
  then show "Version e = 1" "Typ e \<noteq> []" by auto
  define P where "P = (\<lambda>e :: envelope. \<forall>p. Payload e = Some p \<longrightarrow> json_text (max_nesting - 1) p)"
  have z: "P zero_envelope" by (simp add: P_def zero_envelope_def)
  have "P e"
  proof (cases "json_parse data")
    case (Some v)
    show ?thesis
    proof (cases v)
      case (JObj ms)
      with u Some e have d: "decode_members envelope_names put_envelope ms (zero_envelope, False) = (e, err)"
        by (simp add: unmarshal_def)
      show ?thesis
      proof (rule decode_members_inv [where P = P, OF d z])
        fix n k v raw s
        assume "(k, v, raw) \<in> set ms" "P s"
        then show "P (fst (put_envelope n v raw s))"
          using json_parse_members_raw [of data ms] Some JObj
          by (auto simp: P_def put_envelope_def Let_def case_prod_beta)
      qed
    qed (use u Some e z in \<open>auto simp: unmarshal_def\<close>)
  qed (use u e in \<open>auto simp: unmarshal_def\<close>)
  then show "Payload e = Some p \<Longrightarrow> json_text (max_nesting - 1) p" by (simp add: P_def)
qed

end
