(* ===== verification/Frames.thy ===== *)
theory Frames
  imports Envelope
begin

text \<open>
  Frames: what the struct encoder writes is already compact, so the payload a receiver parses out of a
  frame is the payload the sender encoded, and every frame the relay builds parses.
\<close>

subsection \<open>Encoder output is compact\<close>

definition inert :: "string \<Rightarrow> bool" where
  "inert p \<longleftrightarrow> (\<forall>r. compact_in (p @ r) = p @ compact_in r)"

lemma inert_Nil: "inert []"
  by (simp add: inert_def)

lemma inert_append: "inert p \<Longrightarrow> inert q \<Longrightarrow> inert (p @ q)"
  by (simp add: inert_def)

lemma inert_plain: "\<forall>c \<in> set p. plain c \<Longrightarrow> inert p"
  by (induction p) (auto simp: inert_def compact_in_plain)

lemma inert_bslash: "\<forall>c \<in> set p. plain c \<Longrightarrow> inert (bslash # e # p)"
  using inert_plain [of p] by (simp add: inert_def)

lemma plain_alnum: "c \<in> set ''bfnrtu0123456789acde'' \<Longrightarrow> plain c"
  by (auto simp: plain_def)

lemma plain_hex_digit: "n < 16 \<Longrightarrow> plain (hex_digit n)"
  by (rule plain_hex) (simp add: is_hex_def)

lemma inert_esc_ascii:
  assumes "is_ascii c" shows "inert (esc_ascii c)"
proof (cases "html_safe c")
  case True
  then have "plain c" using assms by (auto simp: html_safe_def plain_def is_ascii_def)
  with True show ?thesis by (simp add: esc_ascii_def inert_plain)
next
  case False
  have u: "inert (u00 c)"
    unfolding u00_def hex_byte_def
    by (simp add: inert_bslash plain_hex_digit plain_alnum)
  with False show ?thesis
    by (auto simp: esc_ascii_def intro: inert_bslash)
qed

lemma inert_u202: "inert (u202 c)"
  unfolding u202_def by (simp add: inert_bslash plain_hex_digit plain_alnum)

lemma inert_ufffd: "inert (bslash # ''ufffd'')"
  by (simp add: inert_bslash plain_alnum)

lemma plain_high: "128 \<le> byte c \<Longrightarrow> byte c \<noteq> 226 \<Longrightarrow> plain c"
  by (auto simp: plain_def)

lemma cont_plain: "in_range lo hi c \<Longrightarrow> 128 \<le> lo \<Longrightarrow> hi \<le> 191 \<Longrightarrow> plain c"
  by (rule plain_high) (auto simp: in_range_def)

lemma inert_rune:
  assumes "utf8_len s = Some n" "line_sep s = None"
  shows "inert (take n s)"
  using assms(1)
proof (cases rule: utf8_len_SomeD)
  case (two a b r)
  then have "plain a" "plain b"
    by (auto intro: plain_high cont_plain simp: in_range_def)
  with two show ?thesis by (simp add: inert_plain)
next
  case (three a b c r)
  then have bc: "plain b" "plain c"
    by (auto intro: cont_plain simp: in_range_def split: if_splits)
  show ?thesis
  proof (cases "byte a = 226")
    case True
    then have a: "a = CHR 0xE2" by (intro byte_eqI) simp
    have "line_sep (CHR 0xE2 # b # c # w) = None" for w
      using assms(2) three a by (auto split: if_splits)
    then show ?thesis using three bc a
      by (simp add: inert_def compact_in_E2 compact_in_plain del: line_sep.simps)
  next
    case False
    with three have "plain a" by (intro plain_high) (auto simp: in_range_def)
    with three bc show ?thesis by (simp add: inert_plain)
  qed
next
  case (four a b c d r)
  then have "plain a" "plain b" "plain c" "plain d"
    by (auto intro: plain_high cont_plain simp: in_range_def split: if_splits)
  with four show ?thesis by (simp add: inert_plain)
qed

lemma inert_esc_string: "inert (esc_string s)"
proof (induction s rule: esc_string.induct)
  case (1 s)
  show ?case
  proof (cases s)
    case Nil
    then show ?thesis by (simp add: esc_string.simps inert_Nil)
  next
    case s: (Cons c r)
    show ?thesis
    proof (cases "is_ascii c")
      case True
      with 1(1) [OF s True] s show ?thesis
        by (subst esc_string.simps) (simp add: inert_append inert_esc_ascii)
    next
      case na: False
      show ?thesis
      proof (cases "utf8_len s")
        case None
        with 1(2) [OF s na None] s na show ?thesis
          by (subst esc_string.simps)
            (auto simp del: utf8_len.simps intro: inert_append [OF inert_ufffd, simplified])
      next
        case (Some n)
        have "inert (case line_sep s of Some x \<Rightarrow> u202 x | None \<Rightarrow> take n s)"
          using inert_rune [OF Some] by (auto simp: inert_u202 split: option.split)
        from inert_append [OF this 1(3) [OF s na Some]] s na Some show ?thesis
          by (subst esc_string.simps) (simp del: utf8_len.simps)
      qed
    qed
  qed
qed

text \<open>Texts that compaction leaves alone, in front of anything.\<close>

definition compact_text :: "string \<Rightarrow> bool" where
  "compact_text p \<longleftrightarrow> (\<forall>r. compact_out (p @ r) = p @ compact_out r)"

lemma compact_textD: "compact_text p \<Longrightarrow> compact_out p = p"
  unfolding compact_text_def by (metis append_Nil2 compact_out.simps(1))

lemma compact_text_append: "compact_text p \<Longrightarrow> compact_text q \<Longrightarrow> compact_text (p @ q)"
  by (simp add: compact_text_def)

lemma compact_text_chars: "\<forall>c \<in> set p. \<not> is_ws c \<and> c \<noteq> dquote \<Longrightarrow> compact_text p"
  by (simp add: compact_text_def compact_out_plain)

lemma compact_text_enc_string: "compact_text (enc_string s)"
  using inert_esc_string [of s]
  by (simp add: compact_text_def enc_string_def compact_out.simps(2) is_ws_def inert_def)

lemma compact_text_show_int: "compact_text (show_int i)"
proof (rule compact_text_chars, intro ballI)
  fix c assume "c \<in> set (show_int i)"
  then have "c = CHR ''-'' \<or> is_dec_digit c"
    using show_nat_digits [of "nat i"] show_nat_digits [of "nat (- i)"]
    by (auto simp: show_int_def list_all_iff split: if_splits)
  then show "\<not> is_ws c \<and> c \<noteq> dquote"
    by (auto simp: is_ws_def is_dec_digit_def)
qed

lemma compact_text_fields:
  "\<forall>(k, t) \<in> set fs. compact_text t \<Longrightarrow> compact_text (enc_fields fs)"
proof (induction fs rule: enc_fields.induct)
  case 1
  then show ?case by (simp add: compact_text_def)
next
  case (2 k t)
  have "compact_text '':''" by (rule compact_text_chars) (simp add: is_ws_def)
  with 2 compact_text_append [OF compact_text_enc_string [of k]] show ?case
    using compact_text_append by fastforce
next
  case (3 k t f fs)
  have c: "compact_text '':''" "compact_text '',''" by (rule compact_text_chars, simp add: is_ws_def)+
  have "compact_text (enc_fields (f # fs))" using 3 by simp
  then have "compact_text (t @ '','' @ enc_fields (f # fs))"
    using 3 c by (auto intro!: compact_text_append [of _ "'','' @ _", simplified] compact_text_append [of "'',''", simplified])
  from compact_text_append [OF compact_text_enc_string [of k] compact_text_append [OF c(1) this]]
  show ?case by simp
qed

lemma compact_text_object:
  "\<forall>(k, t) \<in> set fs. compact_text t \<Longrightarrow> compact_text (enc_object fs)"
  using compact_text_append [OF compact_text_chars [of "''{''"]
      compact_text_append [OF compact_text_fields compact_text_chars [of "''}''"]], of fs]
  by (simp add: enc_object_def is_ws_def)

subsection \<open>Frames\<close>

text \<open>
  The bytes of a new envelope: \<open>NewEnvelope\<close> followed by \<open>json.Marshal\<close>, as \<open>SendEnvelope\<close> does it;
  \<open>None\<close> is an encoding error.
\<close>

definition frame_of :: "int \<Rightarrow> string \<Rightarrow> string \<Rightarrow> string \<Rightarrow> payload \<Rightarrow> string option" where
  "frame_of now msgType qid mid pl =
     (case NewEnvelope now msgType qid mid pl of None \<Rightarrow> None | Some env \<Rightarrow> marshal_envelope env)"

text \<open>A payload that any receiver can parse: raw text leaves one level of nesting to the envelope.\<close>

definition sendable :: "payload \<Rightarrow> bool" where
  "sendable pl \<longleftrightarrow> (case pl of RawMessage (Some p) \<Rightarrow> json_text (max_nesting - 1) p | _ \<Rightarrow> True)"

definition payload_text :: "payload \<Rightarrow> string" where
  "payload_text pl = (if pl = NoPayload then ''{}'' else the (marshal_payload pl))"

lemma max_nesting_gt1 [simp]: "Suc 0 < max_nesting" "Suc 0 \<le> max_nesting"
  by (simp_all add: max_nesting_def)

lemma struct_payload:
  assumes "fs \<noteq> []" "\<forall>(k, t) \<in> set fs. json_text 0 t \<and> compact_text t"
  shows "json_text (max_nesting - 1) (enc_object fs)" "compact_out (enc_object fs) = enc_object fs"
proof -
  show "json_text (max_nesting - 1) (enc_object fs)"
    using enc_object_at(1) [of fs 0 "max_nesting - 1"] assms by (auto simp: case_prod_beta)
  show "compact_out (enc_object fs) = enc_object fs"
    using assms(2) by (intro compact_textD compact_text_object) auto
qed

lemma payload_text_ok:
  assumes "sendable pl"
  shows "pl \<noteq> NoPayload \<Longrightarrow> marshal_payload pl = Some (payload_text pl)"
    and "json_text (max_nesting - 1) (payload_text pl)"
    and "compact_out (payload_text pl) = payload_text pl"
proof -
  have "(pl \<noteq> NoPayload \<longrightarrow> marshal_payload pl = Some (payload_text pl)) \<and>
    json_text (max_nesting - 1) (payload_text pl) \<and> compact_out (payload_text pl) = payload_text pl"
  proof (cases pl rule: marshal_payload.cases)
    case 1
    have "compact_out ''{}'' = ''{}''" by (intro compact_textD compact_text_chars) (simp add: is_ws_def)
    with 1 show ?thesis by (simp add: payload_text_def)
  next
    case 6
    have "compact_out ''null'' = ''null''" by (intro compact_textD compact_text_chars) (simp add: is_ws_def)
    with 6 show ?thesis by (simp add: payload_text_def)
  next
    case (7 p)
    then have t: "json_text (max_nesting - 1) p" using assms by (simp add: sendable_def)
    then have "json_compact p = Some (compact_out p)"
      by (intro json_compact_text json_text_mono [OF t]) simp
    with 7 json_text_compact [OF t] show ?thesis
      using json_compact_twice [of p] json_text_mono [OF t, of max_nesting]
      by (auto simp: payload_text_def json_compact_def split: if_splits)
  qed (auto simp: payload_text_def intro!: struct_payload struct_payload(1) [simplified] compact_text_enc_string compact_text_show_int)
  then show "pl \<noteq> NoPayload \<Longrightarrow> marshal_payload pl = Some (payload_text pl)"
    "json_text (max_nesting - 1) (payload_text pl)" "compact_out (payload_text pl) = payload_text pl"
    by auto
qed

lemma frame_of_sendable:
  assumes "sendable pl"
  shows "frame_of now t q m pl = Some (enc_object (envelope_fields
     \<lparr>Version = 1, Typ = t, QueueID = q, MsgID = m, TS = now, Payload = Some (payload_text pl)\<rparr> (payload_text pl)))"
proof -
  note p = payload_text_ok [OF assms]
  have "json_compact (payload_text pl) = Some (payload_text pl)"
    using json_compact_text [OF json_text_mono [OF p(2), of max_nesting]] p(3) by simp
  moreover have "(if pl = NoPayload then Some ''{}'' else marshal_payload pl) = Some (payload_text pl)"
    using p(1) by (auto simp: payload_text_def)
  ultimately show ?thesis
    by (simp add: frame_of_def NewEnvelope_def marshal_envelope_def protocol_version_def)
qed

lemma unmarshal_zero: "Version e = 1 \<Longrightarrow> Typ e \<noteq> [] \<Longrightarrow>
   unmarshal envelope_names put_envelope f zero_envelope = (e, False) \<Longrightarrow> Parse f = Inr e"
  by (simp add: Parse_def protocol_version_def)

text \<open>What the receiver parses out of a frame.\<close>

lemma frame_of_Parse:
  assumes "sendable pl" "int64_range now" "t \<noteq> []" "frame_of now t q m pl = Some f"
  shows "Parse f = Inr \<lparr>Version = 1, Typ = to_valid_utf8 t, QueueID = to_valid_utf8 q,
      MsgID = to_valid_utf8 m, TS = now, Payload = Some (payload_text pl)\<rparr>"
proof -
  let ?e = "\<lparr>Version = 1, Typ = t, QueueID = q, MsgID = m, TS = now, Payload = Some (payload_text pl)\<rparr>"
  have f: "f = enc_object (envelope_fields ?e (payload_text pl))"
    using assms(4) frame_of_sendable [OF assms(1)] by simp
  have "int64_range 1" by (simp add: int64_range_def)
  then show ?thesis
    using unmarshal_envelope [OF payload_text_ok(2) [OF assms(1)], of ?e] assms(2,3)
    by (intro unmarshal_zero) (simp_all add: f)
qed

end
