(* ===== verification/Conn.thy ===== *)
theory Conn
  imports Frames
begin

text \<open>
  \<open>server/client.go\<close>: one connection of the relay.  \<open>client\<close> is the channel \<open>send\<close> with its
  buffer of 16 frames; \<open>SendEnvelope\<close> and the two senders built on it put frames there (a full buffer drops, a closed
  channel panics), \<open>read_frame\<close> is one turn of \<open>readPump\<close>, \<open>write_turn\<close> one turn of \<open>writePump\<close>.
\<close>

subsection \<open>Constants (in seconds and bytes)\<close>

definition writeWait :: int where "writeWait = 10"
definition pongWait :: int where "pongWait = 60"
definition pingPeriod :: int where "pingPeriod = 45"
definition maxMsgSize :: nat where "maxMsgSize = 64 * 1024"
definition sendCap :: nat where "sendCap = 16"

subsection \<open>The send channel\<close>

record client =
  buf :: "string list"
  closed :: bool

definition new_client :: client where
  "new_client = \<lparr>buf = [], closed = False\<rparr>"

text \<open>\<open>select { case c.send <- data: default: }\<close>\<close>

definition chan_send :: "string \<Rightarrow> client \<Rightarrow> (unit, client) outcome" where
  "chan_send data c =
     (if closed c then Panic ()
      else if length (buf c) < sendCap then Ret (c\<lparr>buf := buf c @ [data]\<rparr>)
      else Ret c)"

definition chan_close :: "client \<Rightarrow> (unit, client) outcome" where
  "chan_close c = (if closed c then Panic () else Ret (c\<lparr>closed := True\<rparr>))"

subsection \<open>Sending\<close>

definition SendEnvelope ::
  "int \<Rightarrow> string \<Rightarrow> string \<Rightarrow> string \<Rightarrow> payload \<Rightarrow> client \<Rightarrow> (unit, client) outcome"
where
  "SendEnvelope now msgType qid mid pl c =
     (case frame_of now msgType qid mid pl of None \<Rightarrow> Ret c | Some data \<Rightarrow> chan_send data c)"

definition SendError :: "int \<Rightarrow> int \<Rightarrow> string \<Rightarrow> client \<Rightarrow> (unit, client) outcome" where
  "SendError now code msg c = SendEnvelope now TypeError [] [] (ErrorMessage code msg) c"

definition SendPong :: "int \<Rightarrow> client \<Rightarrow> (unit, client) outcome" where
  "SendPong now c = SendEnvelope now TypePong [] [] NoPayload c"

subsection \<open>The read pump\<close>

text \<open>\<open>err.Error()\<close> of a failed \<open>Parse\<close>; \<open>jerr data\<close> is the text of the decoder's error.\<close>

definition error_text :: "(string \<Rightarrow> string) \<Rightarrow> string \<Rightarrow> parse_error \<Rightarrow> string" where
  "error_text jerr data e =
     (case e of
        InvalidJson \<Rightarrow> ''invalid json: '' @ jerr data
      | UnsupportedVersion v \<Rightarrow>
          ''unsupported protocol version '' @ show_int v @ '' (want '' @ show_int protocol_version @ '')''
      | MissingType \<Rightarrow> ''missing type'')"

text \<open>The channel afterwards and the envelope to hand to the hub, if any.\<close>

definition read_frame ::
  "(string \<Rightarrow> string) \<Rightarrow> int \<Rightarrow> string \<Rightarrow> client \<Rightarrow> (unit, client \<times> envelope option) outcome"
where
  "read_frame jerr now data c =
     (case Parse data of
        Inl e \<Rightarrow> bind_outcome (SendError now CodeBadRequest (error_text jerr data e) c) (\<lambda>c'. Ret (c', None))
      | Inr env \<Rightarrow>
          if Typ env = TypePing
          then bind_outcome (SendEnvelope now TypePong [] [] NoPayload c) (\<lambda>c'. Ret (c', None))
          else Ret (c, Some env))"

subsection \<open>The write pump\<close>

datatype wire = TextMsg string | PingMsg | CloseMsg

text \<open>
  One turn of the loop: \<open>tick\<close> says which ready case \<open>select\<close> took, \<open>ok\<close> whether the write
  succeeds.  The result is the channel, what went to the socket, and whether the loop goes on;
  \<open>None\<close> is a blocked \<open>select\<close>.
\<close>

definition write_turn :: "bool \<Rightarrow> bool \<Rightarrow> client \<Rightarrow> (client \<times> wire list \<times> bool) option" where
  "write_turn tick ok c =
     (if tick then Some (c, if ok then [PingMsg] else [], ok)
      else case buf c of
             m # ms \<Rightarrow> Some (c\<lparr>buf := ms\<rparr>, if ok then [TextMsg m] else [], ok)
           | [] \<Rightarrow> if closed c then Some (c, if ok then [CloseMsg] else [], False) else None)"

text \<open>The pump left alone until its buffer is empty.\<close>

fun drain :: "nat \<Rightarrow> client \<Rightarrow> wire list" where
  "drain 0 c = []"
| "drain (Suc n) c =
     (case write_turn False True c of
        None \<Rightarrow> []
      | Some (c', ws, go) \<Rightarrow> ws @ (if go then drain n c' else []))"

subsection \<open>Facts\<close>

definition conn_inv :: "client \<Rightarrow> bool" where
  "conn_inv c \<longleftrightarrow> length (buf c) \<le> sendCap \<and> (\<forall>f \<in> set (buf c). \<exists>e. Parse f = Inr e)"

lemma sendCap_pos [simp]: "0 < sendCap"
  by (simp add: sendCap_def)

lemma new_client_simps [simp]: "buf new_client = []" "closed new_client = False"
  by (simp_all add: new_client_def)

lemma conn_inv_new: "conn_inv new_client"
  by (simp add: conn_inv_def)

lemma chan_send_open:
  "\<not> closed c \<Longrightarrow> length (buf c) \<le> sendCap \<Longrightarrow>
     chan_send d c = Ret (c\<lparr>buf := take sendCap (buf c @ [d])\<rparr>)"
  by (auto simp: chan_send_def not_less)

lemma SendEnvelope_panic:
  "is_panic (SendEnvelope now t q m pl c) \<longleftrightarrow> closed c \<and> frame_of now t q m pl \<noteq> None"
  by (auto simp: SendEnvelope_def chan_send_def split: option.split)

lemma SendEnvelope_open [simp]: "\<not> closed c \<Longrightarrow> \<not> is_panic (SendEnvelope now t q m pl c)"
  by (simp add: SendEnvelope_panic)

text \<open>A send appends one frame or none, and leaves the channel open.\<close>

lemma SendEnvelope_RetD:
  assumes "SendEnvelope now t q m pl c = Ret c'"
  shows "closed c' = closed c"
    and "c' = c \<or> (\<exists>f. frame_of now t q m pl = Some f \<and> length (buf c) < sendCap \<and> buf c' = buf c @ [f])"
  using assms by (auto simp: SendEnvelope_def chan_send_def split: option.splits if_splits)

lemma SendEnvelope_room:
  "\<not> closed c \<Longrightarrow> length (buf c) < sendCap \<Longrightarrow> frame_of now t q m pl = Some f \<Longrightarrow>
     SendEnvelope now t q m pl c = Ret (c\<lparr>buf := buf c @ [f]\<rparr>)"
  by (simp add: SendEnvelope_def chan_send_def)

lemma conn_inv_send:
  assumes "conn_inv c" "SendEnvelope now t q m pl c = Ret c'" "sendable pl" "int64_range now" "t \<noteq> []"
  shows "conn_inv c'"
  using SendEnvelope_RetD(2) [OF assms(2)]
proof (elim disjE exE conjE)
  fix f assume f: "frame_of now t q m pl = Some f" "length (buf c) < sendCap" "buf c' = buf c @ [f]"
  from frame_of_Parse [OF assms(3-5) f(1)] f assms(1) show ?thesis by (auto simp: conn_inv_def)
qed (use assms(1) in simp)

text \<open>A text that is not one JSON value is never sent, and the code does not say so.\<close>

lemma SendEnvelope_invalid:
  "\<not> json_valid p \<Longrightarrow> SendEnvelope now t q m (RawMessage (Some p)) c = Ret c"
  by (simp add: SendEnvelope_def frame_of_def NewEnvelope_def json_compact_def)

lemma json_valid_Nil [simp]: "\<not> json_valid []"
  by (simp add: json_valid_def json_parse_def)

text \<open>The pump writes the buffer in order and says goodbye only once it is empty and closed.\<close>

lemma drain_wire:
  "length (buf c) < n \<Longrightarrow>
     drain n c = map TextMsg (buf c) @ (if closed c then [CloseMsg] else [])"
proof (induction n arbitrary: c)
  case (Suc n)
  show ?case
  proof (cases "buf c")
    case Nil
    then show ?thesis by (simp add: write_turn_def)
  next
    case (Cons m ms)
    with Suc.prems Suc.IH [of "c\<lparr>buf := ms\<rparr>"] show ?thesis by (simp add: write_turn_def)
  qed
qed simp

lemma conn_inv_write: "conn_inv c \<Longrightarrow> write_turn t ok c = Some (c', w, g) \<Longrightarrow> conn_inv c' \<and> closed c' = closed c"
  by (auto simp: write_turn_def conn_inv_def split: if_splits list.splits)

lemma read_frame_RetD:
  assumes "read_frame jerr now data c = Ret (c', r)"
  shows "closed c' = closed c"
    and "r = Some env \<Longrightarrow> Parse data = Inr env \<and> Typ env \<noteq> TypePing \<and> c' = c"
    and "conn_inv c \<Longrightarrow> int64_range now \<Longrightarrow> conn_inv c'"
proof -
  have s: "sendable (ErrorMessage x y)" "sendable NoPayload" for x y by (simp_all add: sendable_def)
  have t: "TypeError \<noteq> []" "TypePong \<noteq> []" by (simp_all add: proto_simps)
  show "closed c' = closed c"
    and "r = Some env \<Longrightarrow> Parse data = Inr env \<and> Typ env \<noteq> TypePing \<and> c' = c"
    using assms by (auto simp: read_frame_def SendError_def go_simps dest: SendEnvelope_RetD(1)
        split: sum.splits if_splits)
  show "conn_inv c \<Longrightarrow> int64_range now \<Longrightarrow> conn_inv c'"
    using assms by (auto simp: read_frame_def SendError_def go_simps split: sum.splits if_splits
        intro: conn_inv_send [OF _ _ s(1) _ t(1)] conn_inv_send [OF _ _ s(2) _ t(2)])
qed

lemma read_frame_open: "\<not> closed c \<Longrightarrow> \<not> is_panic (read_frame jerr now data c)"
  by (auto simp: read_frame_def SendError_def go_simps split: sum.split)

end
