(* ===== verification/Store.thy ===== *)
theory Store
  imports Knock_Prelude
begin

text \<open>
  \<open>server/store.go\<close>: the two SQLite tables and the statements the relay runs on them.  A table is
  the list of its rows in \<open>rowid\<close> order.  Every operation takes \<open>fault\<close>, true when the driver
  reports an error of its own (busy, I/O), in which case the statement has no effect; \<open>None\<close> is an
  error return.  SQLite enforces foreign keys per connection: \<open>fk\<close> says whether the pooled
  connection that runs the statement had the pragma applied.
\<close>

subsection \<open>Tables\<close>

record stored_message =
  Mid :: string
  QID :: string
  Body :: string
  StoredAt :: int

record queue_row =
  qid_col :: string
  created_at :: int
  last_active :: int

record message_row =
  row_id :: nat
  row_msg :: stored_message
  delivered :: bool
  delivered_at :: "int option"

record store =
  queues_tab :: "queue_row list"
  messages_tab :: "message_row list"

text \<open>The key of \<open>ORDER BY ts, rowid\<close>.\<close>

datatype order_key = OrderKey int nat

instantiation order_key :: linorder
begin

fun less_eq_order_key :: "order_key \<Rightarrow> order_key \<Rightarrow> bool" where
  "less_eq_order_key (OrderKey t i) (OrderKey u j) \<longleftrightarrow> t < u \<or> t = u \<and> i \<le> j"

definition less_order_key :: "order_key \<Rightarrow> order_key \<Rightarrow> bool" where
  "less_order_key x y \<longleftrightarrow> x \<le> y \<and> \<not> y \<le> x"

instance
proof
  fix x y z :: order_key
  show "x < y \<longleftrightarrow> x \<le> y \<and> \<not> y \<le> x" by (rule less_order_key_def)
  show "x \<le> x" by (cases x) simp
  show "x \<le> y \<Longrightarrow> y \<le> z \<Longrightarrow> x \<le> z" by (cases x; cases y; cases z) auto
  show "x \<le> y \<Longrightarrow> y \<le> x \<Longrightarrow> x = y" by (cases x; cases y) auto
  show "x \<le> y \<or> y \<le> x" by (cases x; cases y) auto
qed

end

definition sort_pos :: "message_row \<Rightarrow> order_key" where
  "sort_pos r = OrderKey (StoredAt (row_msg r)) (row_id r)"

definition row_mid :: "message_row \<Rightarrow> string" where
  "row_mid r = Mid (row_msg r)"

definition row_qid :: "message_row \<Rightarrow> string" where
  "row_qid r = QID (row_msg r)"

definition qids :: "store \<Rightarrow> string set" where
  "qids s = qid_col ` set (queues_tab s)"

definition empty_store :: store where
  "empty_store = \<lparr>queues_tab = [], messages_tab = []\<rparr>"

subsection \<open>Statements\<close>

text \<open>\<open>INSERT OR IGNORE\<close>: a second row for the same queue is not an error.\<close>

definition CreateQueue :: "bool \<Rightarrow> string \<Rightarrow> int \<Rightarrow> store \<Rightarrow> store option" where
  "CreateQueue fault qid now s =
     (if fault then None
      else if qid \<in> qids s then Some s
      else Some (s\<lparr>queues_tab := queues_tab s @ [\<lparr>qid_col = qid, created_at = now, last_active = 0\<rparr>]\<rparr>))"

definition QueueExists :: "bool \<Rightarrow> string \<Rightarrow> store \<Rightarrow> bool option" where
  "QueueExists fault qid s = (if fault then None else Some (qid \<in> qids s))"

definition next_rowid :: "store \<Rightarrow> nat" where
  "next_rowid s = Suc (foldr (\<lambda>r n. max (row_id r) n) (messages_tab s) 0)"

definition new_row :: "store \<Rightarrow> stored_message \<Rightarrow> message_row" where
  "new_row s m = \<lparr>row_id = next_rowid s, row_msg = m, delivered = False, delivered_at = None\<rparr>"

definition SaveMessage :: "bool \<Rightarrow> bool \<Rightarrow> stored_message \<Rightarrow> store \<Rightarrow> store option" where
  "SaveMessage fault fk m s =
     (if fault then None
      else if Mid m \<in> row_mid ` set (messages_tab s) then None
      else if fk \<and> QID m \<notin> qids s then None
      else Some (s\<lparr>messages_tab := messages_tab s @ [new_row s m]\<rparr>))"

definition Undelivered :: "bool \<Rightarrow> string \<Rightarrow> store \<Rightarrow> stored_message list option" where
  "Undelivered fault qid s =
     (if fault then None
      else Some (map row_msg (sort_key sort_pos
             (filter (\<lambda>r. row_qid r = qid \<and> \<not> delivered r) (messages_tab s)))))"

definition MarkDelivered :: "bool \<Rightarrow> string \<Rightarrow> int \<Rightarrow> store \<Rightarrow> store option" where
  "MarkDelivered fault mid now s =
     (if fault then None
      else Some (s\<lparr>messages_tab := map (\<lambda>r. if row_mid r = mid
                     then r\<lparr>delivered := True, delivered_at := Some now\<rparr> else r) (messages_tab s)\<rparr>))"

definition TouchQueue :: "bool \<Rightarrow> string \<Rightarrow> int \<Rightarrow> store \<Rightarrow> store option" where
  "TouchQueue fault qid now s =
     (if fault then None
      else Some (s\<lparr>queues_tab := map (\<lambda>r. if qid_col r = qid then r\<lparr>last_active := now\<rparr> else r)
                     (queues_tab s)\<rparr>))"

definition DeleteMessage :: "bool \<Rightarrow> string \<Rightarrow> store \<Rightarrow> store option" where
  "DeleteMessage fault mid s =
     (if fault then None
      else Some (s\<lparr>messages_tab := filter (\<lambda>r. row_mid r \<noteq> mid) (messages_tab s)\<rparr>))"

subsection \<open>The sweep\<close>

definition expired :: "int \<Rightarrow> queue_row \<Rightarrow> bool" where
  "expired limit r \<longleftrightarrow> last_active r < limit \<and> 0 < last_active r"

definition expired_qids :: "int \<Rightarrow> store \<Rightarrow> string set" where
  "expired_qids limit s = qid_col ` set (filter (expired limit) (queues_tab s))"

text \<open>The three statements, each with the rows it removed.\<close>

definition sweep_messages :: "bool \<Rightarrow> int \<Rightarrow> store \<Rightarrow> (store \<times> nat) option" where
  "sweep_messages fault limit s =
     (if fault then None
      else let dead = (\<lambda>r. row_qid r \<in> expired_qids limit s)
           in Some (s\<lparr>messages_tab := filter (\<lambda>r. \<not> dead r) (messages_tab s)\<rparr>,
                    length (filter dead (messages_tab s))))"

definition sweep_queues :: "bool \<Rightarrow> bool \<Rightarrow> int \<Rightarrow> store \<Rightarrow> (store \<times> nat) option" where
  "sweep_queues fault fk limit s =
     (if fault \<or> fk \<and> (\<exists>r \<in> set (messages_tab s). row_qid r \<in> expired_qids limit s) then None
      else Some (s\<lparr>queues_tab := filter (\<lambda>r. \<not> expired limit r) (queues_tab s)\<rparr>,
                 length (filter (expired limit) (queues_tab s))))"

definition sweep_acked :: "bool \<Rightarrow> int \<Rightarrow> store \<Rightarrow> (store \<times> nat) option" where
  "sweep_acked fault limit s =
     (if fault then None
      else let dead = (\<lambda>r. delivered r \<and> StoredAt (row_msg r) < limit)
           in Some (s\<lparr>messages_tab := filter (\<lambda>r. \<not> dead r) (messages_tab s)\<rparr>,
                    length (filter dead (messages_tab s))))"

text \<open>
  \<open>Sweep(now, queueTTL, ackGrace)\<close>: no transaction, so what ran before a failing statement stays.
  The result is the three counts (queues, orphaned, acked), or an error.
\<close>

definition Sweep ::
  "bool \<times> bool \<times> bool \<Rightarrow> bool \<Rightarrow> int \<Rightarrow> int \<Rightarrow> int \<Rightarrow> store \<Rightarrow> store \<times> (nat \<times> nat \<times> nat) option"
where
  "Sweep faults fk now queueTTL ackGrace s =
     (case faults of (f1, f2, f3) \<Rightarrow>
        (case sweep_messages f1 (now - queueTTL) s of
           None \<Rightarrow> (s, None)
         | Some (s1, orphaned) \<Rightarrow>
             (case sweep_queues f2 fk (now - queueTTL) s1 of
                None \<Rightarrow> (s1, None)
              | Some (s2, nq) \<Rightarrow>
                  (case sweep_acked f3 (now - ackGrace) s2 of
                     None \<Rightarrow> (s2, None)
                   | Some (s3, acked) \<Rightarrow> (s3, Some (nq, orphaned, acked))))))"

subsection \<open>Opening a database file\<close>

text \<open>
  The file: which tables exist and whether \<open>queues\<close> already has the column \<open>last_active\<close>, added
  by a later migration (without it the field of a row is meaningless).
\<close>

record database =
  db_queues :: "queue_row list option"
  db_messages :: "message_row list option"
  has_last_active :: bool

definition new_file :: database where
  "new_file = \<lparr>db_queues = None, db_messages = None, has_last_active = False\<rparr>"

definition create_tables :: "database \<Rightarrow> database" where
  "create_tables d =
     d\<lparr>db_queues := Some (case db_queues d of None \<Rightarrow> [] | Some q \<Rightarrow> q),
       db_messages := Some (case db_messages d of None \<Rightarrow> [] | Some m \<Rightarrow> m)\<rparr>"

text \<open>\<open>ALTER TABLE\<close> fails with a duplicate column when it is there, which \<open>migrate\<close> ignores.\<close>

definition add_last_active :: "database \<Rightarrow> database" where
  "add_last_active d =
     (if has_last_active d then d
      else d\<lparr>db_queues := map_option (map (\<lambda>r. r\<lparr>last_active := 0\<rparr>)) (db_queues d),
             has_last_active := True\<rparr>)"

definition migrate :: "bool \<Rightarrow> bool \<Rightarrow> database \<Rightarrow> database \<times> bool" where
  "migrate f_schema f_alter d =
     (if f_schema then (d, False)
      else let d1 = create_tables d
           in if f_alter then (d1, False) else (add_last_active d1, True))"

definition store_of :: "database \<Rightarrow> store" where
  "store_of d = \<lparr>queues_tab = (case db_queues d of None \<Rightarrow> [] | Some q \<Rightarrow> q),
                 messages_tab = (case db_messages d of None \<Rightarrow> [] | Some m \<Rightarrow> m)\<rparr>"

definition database_of :: "store \<Rightarrow> database" where
  "database_of s = \<lparr>db_queues = Some (queues_tab s), db_messages = Some (messages_tab s),
                    has_last_active = True\<rparr>"

text \<open>\<open>f_open\<close>: opening or one of the three pragmas fails.  The result is the file and the store.\<close>

definition Open :: "bool \<Rightarrow> bool \<Rightarrow> bool \<Rightarrow> database \<Rightarrow> database \<times> store option" where
  "Open f_open f_schema f_alter d =
     (if f_open then (d, None)
      else (case migrate f_schema f_alter d of
              (d', ok) \<Rightarrow> (d', if ok then Some (store_of d') else None)))"

subsection \<open>The invariant of the tables\<close>

definition store_inv :: "store \<Rightarrow> bool" where
  "store_inv s \<longleftrightarrow>
     distinct (map qid_col (queues_tab s)) \<and>
     distinct (map row_mid (messages_tab s)) \<and>
     sorted_wrt (<) (map row_id (messages_tab s))"

text \<open>No row is marked delivered (the relay deletes instead), and every message has its queue.\<close>

definition none_delivered :: "store \<Rightarrow> bool" where
  "none_delivered s \<longleftrightarrow> (\<forall>r \<in> set (messages_tab s). \<not> delivered r)"

definition fk_closed :: "store \<Rightarrow> bool" where
  "fk_closed s \<longleftrightarrow> (\<forall>r \<in> set (messages_tab s). row_qid r \<in> qids s)"

text \<open>What a fault-free \<open>Undelivered\<close> returns.\<close>

definition pending :: "store \<Rightarrow> string \<Rightarrow> stored_message list" where
  "pending s q = the (Undelivered False q s)"

end
