(* ===== verification/Store_Facts.thy ===== *)
theory Store_Facts
  imports Store "HOL-Library.Multiset"
begin

text \<open>
  Correctness of the store: the table invariant, what \<open>Undelivered\<close> returns after each
  statement and in which order, the sweep, reopening a file, and the interface \<open>outbox\<close> that the
  relay relies on (what was saved stays pending until its identifier is deleted).
\<close>

subsection \<open>Effect of each statement\<close>

lemma pending_eq:
  "pending s q = map row_msg (sort_key sort_pos
     (filter (\<lambda>r. row_qid r = q \<and> \<not> delivered r) (messages_tab s)))"
  by (simp add: pending_def Undelivered_def)

lemma Undelivered_pending [simp]: "Undelivered False q s = Some (pending s q)"
  by (simp add: pending_def Undelivered_def)

lemma set_pending:
  "set (pending s q) = row_msg ` {r \<in> set (messages_tab s). row_qid r = q \<and> \<not> delivered r}"
  by (auto simp: pending_eq)

lemma pending_qid: "m \<in> set (pending s q) \<Longrightarrow> QID m = q"
  by (auto simp: set_pending row_qid_def)

lemma pending_cong: "messages_tab s = messages_tab s' \<Longrightarrow> pending s q = pending s' q"
  by (simp add: pending_eq)

lemma CreateQueue_frame [frame_simps]:
  "CreateQueue f q t s = Some s' \<Longrightarrow> messages_tab s' = messages_tab s \<and> qids s' = insert q (qids s)"
  by (auto simp: CreateQueue_def qids_def split: if_splits)

lemma map_map_upd: "(\<And>r. g (h r) = g r) \<Longrightarrow> map g (map h xs) = map g xs"
  by simp

lemma TouchQueue_frame [frame_simps]:
  assumes "TouchQueue f q t s = Some s'"
  shows "messages_tab s' = messages_tab s \<and> qids s' = qids s"
    and "map qid_col (queues_tab s') = map qid_col (queues_tab s)"
proof -
  have s': "s' = s\<lparr>queues_tab := map (\<lambda>r. if qid_col r = q then r\<lparr>last_active := t\<rparr> else r) (queues_tab s)\<rparr>"
    using assms by (simp add: TouchQueue_def split: if_splits)
  show c: "map qid_col (queues_tab s') = map qid_col (queues_tab s)"
    unfolding s' by (simp del: map_map) (rule map_map_upd, simp)
  have "qids s' = set (map qid_col (queues_tab s'))" by (simp add: qids_def)
  also have "\<dots> = qids s" unfolding c by (simp add: qids_def)
  finally show "messages_tab s' = messages_tab s \<and> qids s' = qids s" by (simp add: s')
qed

lemma SaveMessage_frame [frame_simps]:
  "SaveMessage f fk m s = Some s' \<Longrightarrow>
     messages_tab s' = messages_tab s @ [new_row s m] \<and> queues_tab s' = queues_tab s \<and>
     Mid m \<notin> row_mid ` set (messages_tab s) \<and> (fk \<longrightarrow> QID m \<in> qids s)"
  by (auto simp: SaveMessage_def split: if_splits)

lemma DeleteMessage_frame [frame_simps]:
  "DeleteMessage f i s = Some s' \<Longrightarrow>
     messages_tab s' = filter (\<lambda>r. row_mid r \<noteq> i) (messages_tab s) \<and> queues_tab s' = queues_tab s"
  by (auto simp: DeleteMessage_def split: if_splits)

lemma new_row_simps [simp]:
  "row_msg (new_row s m) = m" "row_mid (new_row s m) = Mid m" "row_qid (new_row s m) = QID m"
  "delivered (new_row s m) = False" "row_id (new_row s m) = next_rowid s"
  by (simp_all add: new_row_def row_mid_def row_qid_def)

lemma next_rowid_greater: "r \<in> set (messages_tab s) \<Longrightarrow> row_id r < next_rowid s"
proof -
  have "r \<in> set rs \<Longrightarrow> row_id r \<le> foldr (\<lambda>r n. max (row_id r) n) rs 0" for rs
    by (induction rs) auto
  then show "r \<in> set (messages_tab s) \<Longrightarrow> row_id r < next_rowid s"
    by (simp add: next_rowid_def le_imp_less_Suc)
qed

subsection \<open>The invariant\<close>

lemma store_inv_empty: "store_inv empty_store"
  by (simp add: store_inv_def empty_store_def)

lemma store_inv_create: "store_inv s \<Longrightarrow> CreateQueue f q t s = Some s' \<Longrightarrow> store_inv s'"
  by (auto simp: CreateQueue_def store_inv_def qids_def split: if_splits)

lemma store_inv_touch: "store_inv s \<Longrightarrow> TouchQueue f q t s = Some s' \<Longrightarrow> store_inv s'"
  using TouchQueue_frame [of f q t s s'] by (simp add: store_inv_def)

lemma store_inv_save: "store_inv s \<Longrightarrow> SaveMessage f fk m s = Some s' \<Longrightarrow> store_inv s'"
  by (drule SaveMessage_frame)
    (auto simp: store_inv_def sorted_wrt_append next_rowid_greater)

lemma store_inv_filter:
  "store_inv s \<Longrightarrow> store_inv (s\<lparr>messages_tab := filter P (messages_tab s)\<rparr>)"
  by (auto simp: store_inv_def distinct_map_filter sorted_wrt_map sorted_wrt_filter)

lemma store_inv_delete: "store_inv s \<Longrightarrow> DeleteMessage f i s = Some s' \<Longrightarrow> store_inv s'"
  by (auto simp: DeleteMessage_def split: if_splits intro: store_inv_filter)

lemma store_inv_mark:
  assumes "store_inv s" "MarkDelivered f i t s = Some s'"
  shows "store_inv s'"
proof -
  let ?h = "\<lambda>r. if row_mid r = i then r\<lparr>delivered := True, delivered_at := Some t\<rparr> else r"
  have s': "messages_tab s' = map ?h (messages_tab s)" "queues_tab s' = queues_tab s"
    using assms(2) by (auto simp: MarkDelivered_def split: if_splits)
  have "map row_mid (messages_tab s') = map row_mid (messages_tab s)"
    "map row_id (messages_tab s') = map row_id (messages_tab s)"
    unfolding s' by (rule map_map_upd, simp add: row_mid_def)+
  with assms(1) s'(2) show ?thesis by (simp add: store_inv_def)
qed

subsection \<open>Pending messages\<close>

lemma pending_save_mset:
  assumes "SaveMessage f fk m s = Some s'"
  shows "mset (pending s' q) = mset (pending s q) + (if QID m = q then {#m#} else {#})"
  using SaveMessage_frame [OF assms] by (auto simp: pending_eq)

lemma pending_save:
  "SaveMessage f fk m s = Some s' \<Longrightarrow>
     set (pending s' q) = set (pending s q) \<union> (if QID m = q then {m} else {})"
  using pending_save_mset [of f fk m s s' q] by (auto dest: arg_cong [where f = set_mset] split: if_splits)

lemma insort_key_append:
  "f y \<le> f x \<Longrightarrow> \<forall>z \<in> set zs. f z \<le> f x \<Longrightarrow> insort_key f y (zs @ [x]) = insort_key f y zs @ [x]"
  by (induction zs) auto

lemma sort_key_append_max:
  "\<forall>y \<in> set xs. f y \<le> f x \<Longrightarrow> sort_key f (xs @ [x]) = sort_key f xs @ [x]"
  by (induction xs) (auto simp: insort_key_append)

text \<open>With a clock that does not go back, messages are pending in the order they were saved.\<close>

lemma pending_save_order:
  assumes "SaveMessage f fk m s = Some s'"
    and "\<forall>m' \<in> set (pending s (QID m)). StoredAt m' \<le> StoredAt m"
  shows "pending s' (QID m) = pending s (QID m) @ [m]"
proof -
  let ?P = "\<lambda>r. row_qid r = QID m \<and> \<not> delivered r"
  note fr = SaveMessage_frame [OF assms(1)]
  have "sort_pos y \<le> sort_pos (new_row s m)" if "y \<in> set (filter ?P (messages_tab s))" for y
  proof -
    have "row_msg y \<in> set (pending s (QID m))" using that by (auto simp: set_pending)
    moreover have "row_id y < next_rowid s" using that by (auto intro: next_rowid_greater)
    ultimately show ?thesis using assms(2) by (fastforce simp: sort_pos_def)
  qed
  then have "sort_key sort_pos (filter ?P (messages_tab s) @ [new_row s m])
      = sort_key sort_pos (filter ?P (messages_tab s)) @ [new_row s m]"
    by (intro sort_key_append_max) blast
  with fr show ?thesis by (simp add: pending_eq)
qed

lemma pending_delete:
  assumes "DeleteMessage f i s = Some s'"
  shows "pending s' q = filter (\<lambda>m. Mid m \<noteq> i) (pending s q)"
proof -
  have "filter (\<lambda>r. row_qid r = q \<and> \<not> delivered r) (messages_tab s')
      = filter (\<lambda>r. Mid (row_msg r) \<noteq> i) (filter (\<lambda>r. row_qid r = q \<and> \<not> delivered r) (messages_tab s))"
    using DeleteMessage_frame [OF assms] by (simp add: row_mid_def conj_commute)
  then show ?thesis by (simp add: pending_eq filter_map comp_def filter_sort del: filter_filter)
qed

lemma order_key_fst: "OrderKey t i \<le> OrderKey u j \<Longrightarrow> t \<le> u"
  by auto

lemma pending_sorted: "sorted (map StoredAt (pending s q))"
proof -
  define rs where "rs = sort_key sort_pos (filter (\<lambda>r. row_qid r = q \<and> \<not> delivered r) (messages_tab s))"
  have "sorted_wrt (\<lambda>r r'. sort_pos r \<le> sort_pos r') rs"
    using sorted_sort_key [of sort_pos] by (simp add: rs_def sorted_wrt_map)
  then have "sorted_wrt (\<lambda>r r'. StoredAt (row_msg r) \<le> StoredAt (row_msg r')) rs"
    by (rule sorted_wrt_mono_rel [rotated]) (auto simp: sort_pos_def)
  then show ?thesis by (simp add: pending_eq rs_def sorted_wrt_map)
qed

lemma pending_distinct: "store_inv s \<Longrightarrow> distinct (map Mid (pending s q))"
proof -
  assume "store_inv s"
  then have d: "distinct (map row_mid (messages_tab s))" by (simp add: store_inv_def)
  let ?xs = "filter (\<lambda>r. row_qid r = q \<and> \<not> delivered r) (messages_tab s)"
  have "distinct (map row_mid ?xs)" using d by (rule distinct_map_filter)
  then have "distinct (map row_mid (sort_key sort_pos ?xs))"
    by (simp add: distinct_map)
  moreover have "map Mid (pending s q) = map row_mid (sort_key sort_pos ?xs)"
    by (simp add: pending_eq row_mid_def)
  ultimately show ?thesis by simp
qed

lemma none_delivered_create: "none_delivered s \<Longrightarrow> CreateQueue f q t s = Some s' \<Longrightarrow> none_delivered s'"
  by (auto dest: CreateQueue_frame simp: none_delivered_def)

lemma none_delivered_touch: "none_delivered s \<Longrightarrow> TouchQueue f q t s = Some s' \<Longrightarrow> none_delivered s'"
  by (auto dest: TouchQueue_frame simp: none_delivered_def)

lemma none_delivered_save: "none_delivered s \<Longrightarrow> SaveMessage f fk m s = Some s' \<Longrightarrow> none_delivered s'"
  using SaveMessage_frame [of f fk m s s'] by (auto simp: none_delivered_def)

lemma none_delivered_delete: "none_delivered s \<Longrightarrow> DeleteMessage f i s = Some s' \<Longrightarrow> none_delivered s'"
  by (auto dest: DeleteMessage_frame simp: none_delivered_def)

subsection \<open>The sweep\<close>

lemma sweep_messages_eq:
  "sweep_messages False l s =
     Some (s\<lparr>messages_tab := filter (\<lambda>r. row_qid r \<notin> expired_qids l s) (messages_tab s)\<rparr>,
           length (filter (\<lambda>r. row_qid r \<in> expired_qids l s) (messages_tab s)))"
  by (simp add: sweep_messages_def Let_def)

text \<open>Deleting the messages first is what keeps the second statement clear of the foreign key.\<close>

lemma sweep_queues_after_messages:
  "sweep_messages f l s = Some (s1, n) \<Longrightarrow>
     sweep_queues False fk l s1 =
       Some (s1\<lparr>queues_tab := filter (\<lambda>r. \<not> expired l r) (queues_tab s)\<rparr>,
             length (filter (expired l) (queues_tab s)))"
  by (auto simp: sweep_messages_def sweep_queues_def expired_qids_def Let_def split: if_splits)

lemma sweep_acked_none:
  "none_delivered s \<Longrightarrow> sweep_acked False l s = Some (s, 0)"
proof -
  assume "none_delivered s"
  then have "filter (\<lambda>r. \<not> (delivered r \<and> StoredAt (row_msg r) < l)) (messages_tab s) = messages_tab s"
    "filter (\<lambda>r. delivered r \<and> StoredAt (row_msg r) < l) (messages_tab s) = []"
    by (auto simp: none_delivered_def filter_id_conv filter_empty_conv)
  then show ?thesis by (simp add: sweep_acked_def)
qed

definition swept :: "int \<Rightarrow> store \<Rightarrow> store" where
  "swept l s = s\<lparr>messages_tab := filter (\<lambda>r. row_qid r \<notin> expired_qids l s) (messages_tab s),
                 queues_tab := filter (\<lambda>r. \<not> expired l r) (queues_tab s)\<rparr>"

lemma Sweep_ok:
  assumes "none_delivered s"
  shows "Sweep (False, False, False) fk now ttl grace s =
    (swept (now - ttl) s,
     Some (length (filter (expired (now - ttl)) (queues_tab s)),
           length (filter (\<lambda>r. row_qid r \<in> expired_qids (now - ttl) s) (messages_tab s)), 0))"
proof -
  have "none_delivered (swept (now - ttl) s)"
    using assms by (simp add: none_delivered_def swept_def)
  note ack = sweep_acked_none [OF this]
  show ?thesis
    using ack by (simp add: Sweep_def sweep_messages_eq
        sweep_queues_after_messages [OF sweep_messages_eq] swept_def)
qed

lemma Sweep_cases:
  assumes "none_delivered s"
  obtains "fst (Sweep fs fk now ttl grace s) = s"
  | "fst (Sweep fs fk now ttl grace s) =
       s\<lparr>messages_tab := filter (\<lambda>r. row_qid r \<notin> expired_qids (now - ttl) s) (messages_tab s)\<rparr>"
  | "fst (Sweep fs fk now ttl grace s) = swept (now - ttl) s"
proof -
  obtain f1 f2 f3 where fs: "fs = (f1, f2, f3)" by (cases fs)
  let ?l = "now - ttl"
  let ?s1 = "s\<lparr>messages_tab := filter (\<lambda>r. row_qid r \<notin> expired_qids ?l s) (messages_tab s)\<rparr>"
  have nd: "none_delivered (swept ?l s)" using assms by (simp add: none_delivered_def swept_def)
  show thesis
  proof (cases f1)
    case True
    then have "fst (Sweep fs fk now ttl grace s) = s" by (simp add: fs Sweep_def sweep_messages_def)
    then show ?thesis by (rule that(1))
  next
    case False
    then have f1: "\<not> f1" .
    show ?thesis
    proof (cases f2)
      case True
      with f1 have "fst (Sweep fs fk now ttl grace s) = ?s1"
        by (simp add: fs Sweep_def sweep_messages_eq sweep_queues_def)
      then show ?thesis by (rule that(2))
    next
      case False
      have "sweep_acked f3 (now - grace) (swept ?l s) = None \<or>
            sweep_acked f3 (now - grace) (swept ?l s) = Some (swept ?l s, 0)"
        using sweep_acked_none [OF nd] by (cases f3) (auto simp: sweep_acked_def)
      with f1 False have "fst (Sweep fs fk now ttl grace s) = swept ?l s"
        by (auto simp: fs Sweep_def sweep_messages_eq sweep_queues_after_messages [OF sweep_messages_eq] swept_def)
      then show ?thesis by (rule that(3))
    qed
  qed
qed

lemma pending_swept:
  "pending (s\<lparr>messages_tab := filter (\<lambda>r. row_qid r \<notin> X) (messages_tab s)\<rparr>) q
     = (if q \<in> X then [] else pending s q)"
proof -
  have "filter (\<lambda>r. row_qid r = q \<and> \<not> delivered r) (filter (\<lambda>r. row_qid r \<notin> X) (messages_tab s)) =
      (if q \<in> X then [] else filter (\<lambda>r. row_qid r = q \<and> \<not> delivered r) (messages_tab s))"
    by (auto simp: filter_empty_conv intro: filter_cong)
  then show ?thesis by (simp add: pending_eq del: filter_filter)
qed

lemma pending_swept_full:
  "pending (swept l s) q = (if q \<in> expired_qids l s then [] else pending s q)"
  using pending_swept [of "expired_qids l s" s q] by (simp add: swept_def pending_eq)

text \<open>Whatever fails on the way, a sweep never touches the messages of a queue that is not expired.\<close>

lemma Sweep_keeps_live:
  assumes "none_delivered s" "q \<notin> expired_qids (now - ttl) s"
  shows "pending (fst (Sweep fs fk now ttl grace s)) q = pending s q"
  using Sweep_cases [OF assms(1), of fs fk now ttl grace]
  by cases (simp_all add: pending_swept pending_swept_full assms(2))

lemma none_delivered_sweep:
  assumes "none_delivered s" shows "none_delivered (fst (Sweep fs fk now ttl grace s))"
  using Sweep_cases [OF assms, of fs fk now ttl grace] assms
  by cases (simp_all add: none_delivered_def swept_def)

lemma store_inv_swept: "store_inv s \<Longrightarrow> store_inv (swept l s)"
  by (auto simp: store_inv_def swept_def distinct_map_filter sorted_wrt_map sorted_wrt_filter)

lemma store_inv_sweep:
  assumes "none_delivered s" "store_inv s" shows "store_inv (fst (Sweep fs fk now ttl grace s))"
  using Sweep_cases [OF assms(1), of fs fk now ttl grace]
  by cases (simp_all add: assms store_inv_swept store_inv_filter)

lemma qids_swept: "qid_col r \<notin> expired_qids l s \<Longrightarrow> r \<in> set (queues_tab s) \<Longrightarrow> r \<in> set (queues_tab (swept l s))"
  by (auto simp: swept_def expired_qids_def)

lemma fk_closed_swept: "fk_closed s \<Longrightarrow> fk_closed (swept l s)"
  by (fastforce simp: fk_closed_def swept_def qids_def expired_qids_def)

lemma fk_closed_sweep:
  assumes "none_delivered s" "fk_closed s" shows "fk_closed (fst (Sweep fs fk now ttl grace s))"
  using Sweep_cases [OF assms(1), of fs fk now ttl grace]
  by cases (use assms(2) fk_closed_swept in \<open>auto simp: fk_closed_def qids_def\<close>)

subsection \<open>Reopening a file\<close>

lemma Open_new: "Open False False False new_file = (database_of empty_store, Some empty_store)"
  by (simp add: Open_def migrate_def create_tables_def add_last_active_def new_file_def
      database_of_def store_of_def empty_store_def Let_def)

lemma Open_database_of: "Open False False False (database_of s) = (database_of s, Some s)"
  by (simp add: Open_def migrate_def create_tables_def add_last_active_def
      database_of_def store_of_def Let_def)

lemma Open_messages:
  "Open f1 f2 f3 d = (d', Some s) \<Longrightarrow> messages_tab s = messages_tab (store_of d)"
  by (auto simp: Open_def migrate_def create_tables_def add_last_active_def store_of_def Let_def
      split: if_splits option.splits)

text \<open>A file from before the column was added: every queue gets 0, which no sweep deletes.\<close>

lemma Open_old_schema:
  assumes "\<not> has_last_active d" "Open f1 f2 f3 d = (d', Some s)"
  shows "expired_qids l s = {}"
  using assms by (auto simp: Open_def migrate_def create_tables_def add_last_active_def store_of_def
      expired_qids_def expired_def Let_def split: if_splits option.splits)

subsection \<open>The interface the relay relies on\<close>

datatype box_op = Put bool bool stored_message | Del string

definition box_step ::
  "(bool \<Rightarrow> bool \<Rightarrow> stored_message \<Rightarrow> 's \<Rightarrow> 's option) \<Rightarrow> (string \<Rightarrow> 's \<Rightarrow> 's) \<Rightarrow> box_op \<Rightarrow> 's \<Rightarrow> 's"
where
  "box_step put del opn s =
     (case opn of Put f fk m \<Rightarrow> (case put f fk m s of None \<Rightarrow> s | Some s' \<Rightarrow> s') | Del i \<Rightarrow> del i s)"

locale outbox =
  fixes pend :: "'s \<Rightarrow> string \<Rightarrow> stored_message list"
    and put :: "bool \<Rightarrow> bool \<Rightarrow> stored_message \<Rightarrow> 's \<Rightarrow> 's option"
    and del :: "string \<Rightarrow> 's \<Rightarrow> 's"
    and good :: "'s \<Rightarrow> bool"
  assumes put_pend: "put f fk m s = Some s' \<Longrightarrow>
      set (pend s' q) = set (pend s q) \<union> (if QID m = q then {m} else {})"
    and del_pend: "set (pend (del i s) q) = {m \<in> set (pend s q). Mid m \<noteq> i}"
    and good_put: "good s \<Longrightarrow> put f fk m s = Some s' \<Longrightarrow> good s'"
    and good_del: "good s \<Longrightarrow> good (del i s)"
    and unique: "good s \<Longrightarrow> distinct (map Mid (pend s q))"
begin

lemma good_step: "good s \<Longrightarrow> good (box_step put del opn s)"
  by (auto simp: box_step_def good_del split: box_op.split option.split intro: good_put)

lemma good_run: "good s \<Longrightarrow> good (fold (box_step put del) ops s)"
  by (induction ops arbitrary: s) (auto intro: good_step)

lemma kept_step:
  "m \<in> set (pend s q) \<Longrightarrow> opn \<noteq> Del (Mid m) \<Longrightarrow> m \<in> set (pend (box_step put del opn s) q)"
  by (auto simp: box_step_def del_pend split: box_op.split option.split dest: put_pend)

lemma kept_run:
  "m \<in> set (pend s q) \<Longrightarrow> Del (Mid m) \<notin> set ops \<Longrightarrow> m \<in> set (pend (fold (box_step put del) ops s) q)"
proof (induction ops arbitrary: s)
  case (Cons opn ops)
  then have "m \<in> set (pend (box_step put del opn s) q)" by (intro kept_step) auto
  with Cons show ?case by simp
qed simp

lemma gone_step:
  assumes "m \<notin> set (pend s q)" "\<And>f fk. opn \<noteq> Put f fk m"
  shows "m \<notin> set (pend (box_step put del opn s) q)"
proof (cases opn)
  case (Put f fk m')
  with assms(2) have "m' \<noteq> m" by auto
  with assms(1) Put show ?thesis
    by (cases "put f fk m' s") (auto simp: box_step_def put_pend)
qed (use assms(1) in \<open>simp add: box_step_def del_pend\<close>)

lemma put_then_pending: "put f fk m s = Some s' \<Longrightarrow> m \<in> set (pend s' (QID m))"
  by (simp add: put_pend)

lemma del_then_absent: "Mid m = i \<Longrightarrow> m \<notin> set (pend (del i s) q)"
  by (simp add: del_pend)

end

definition delete_now :: "string \<Rightarrow> store \<Rightarrow> store" where
  "delete_now i s = (case DeleteMessage False i s of None \<Rightarrow> s | Some s' \<Rightarrow> s')"

lemma delete_now_eq: "DeleteMessage False i s = Some (delete_now i s)"
  by (simp add: delete_now_def DeleteMessage_def)

interpretation box: outbox pending SaveMessage delete_now store_inv
proof unfold_locales
  fix f fk m and s s' :: store and q i
  show "SaveMessage f fk m s = Some s' \<Longrightarrow>
      set (pending s' q) = set (pending s q) \<union> (if QID m = q then {m} else {})"
    by (rule pending_save)
  show "set (pending (delete_now i s) q) = {m \<in> set (pending s q). Mid m \<noteq> i}"
    using pending_delete [OF delete_now_eq [of i s], of q] by simp
  show "store_inv s \<Longrightarrow> SaveMessage f fk m s = Some s' \<Longrightarrow> store_inv s'"
    by (rule store_inv_save)
  show "store_inv s \<Longrightarrow> store_inv (delete_now i s)"
    by (rule store_inv_delete [OF _ delete_now_eq])
  show "store_inv s \<Longrightarrow> distinct (map Mid (pending s q))"
    by (rule pending_distinct)
qed

end
