(* ===== verification/Hub.thy ===== *)
theory Hub
  imports Conn Store_Facts
begin

text \<open>
  \<open>server/hub.go\<close>: the connection registry and the queue routing table, touched only by the goroutine
  of \<open>Run\<close>.  A connection is a number; \<open>conns\<close> holds the channel of each.  A handler is a function
  from the hub to an outcome: \<open>Panic s\<close> is the end of the process, with the database \<open>s\<close> it leaves.
\<close>

declare One_nat_def [simp del]

subsection \<open>State\<close>

record queue_state =
  owner :: "nat option"
  sub :: "nat option"

record hub =
  clients :: "nat set"
  queues :: "(string \<times> queue_state) list"
  conns :: "nat \<Rightarrow> client"
  db :: store

text \<open>
  What one handler gets from outside: the successive readings of the clock, the 16 random bytes
  (\<open>None\<close> an error), the driver errors of each statement, and whether foreign keys are enforced.
\<close>

record io =
  clock :: "nat \<Rightarrow> int"
  rnd :: "bytes option"
  f_create :: bool
  f_touch :: bool
  f_exists :: bool
  f_save :: bool
  f_undelivered :: bool
  f_delete :: bool
  fk_on :: bool

definition NewHub :: "store \<Rightarrow> hub" where
  "NewHub s = \<lparr>clients = {}, queues = [], conns = (\<lambda>_. new_client), db = s\<rparr>"

type_synonym hub_outcome = "(store, hub) outcome"

subsection \<open>Building blocks\<close>

text \<open>An operation on one connection, inside the hub.\<close>

definition on_conn :: "nat \<Rightarrow> (client \<Rightarrow> (unit, client) outcome) \<Rightarrow> hub \<Rightarrow> hub_outcome" where
  "on_conn c f h =
     (case f (conns h c) of
        Panic _ \<Rightarrow> Panic (db h)
      | Ret x \<Rightarrow> Ret (h\<lparr>conns := (conns h)(c := x)\<rparr>))"

definition send_to :: "nat \<Rightarrow> int \<Rightarrow> string \<Rightarrow> string \<Rightarrow> string \<Rightarrow> payload \<Rightarrow> hub \<Rightarrow> hub_outcome" where
  "send_to c now t qid mid pl = on_conn c (SendEnvelope now t qid mid pl)"

definition error_to :: "nat \<Rightarrow> int \<Rightarrow> int \<Rightarrow> string \<Rightarrow> hub \<Rightarrow> hub_outcome" where
  "error_to c now code msg = on_conn c (SendError now code msg)"

text \<open>The slice expression \<open>s[:8]\<close>, which panics on a shorter string.\<close>

definition slice8 :: "string \<Rightarrow> hub \<Rightarrow> hub_outcome" where
  "slice8 s h = (if length s < 8 then Panic (db h) else Ret h)"

definition shortID :: "string \<Rightarrow> string" where
  "shortID qid = (if 8 < length qid then take 8 qid @ ''...'' else qid)"

text \<open>\<open>h.store.TouchQueue(qid)\<close>, whose error nobody reads.\<close>

definition touch :: "io \<Rightarrow> int \<Rightarrow> string \<Rightarrow> hub \<Rightarrow> hub" where
  "touch io now qid h =
     (case TouchQueue (f_touch io) qid now (db h) of None \<Rightarrow> h | Some s \<Rightarrow> h\<lparr>db := s\<rparr>)"

subsection \<open>Disconnection and kicking\<close>

definition uses :: "nat \<Rightarrow> queue_state \<Rightarrow> bool" where
  "uses c qs \<longleftrightarrow> owner qs = Some c \<or> sub qs = Some c"

definition leave :: "nat \<Rightarrow> queue_state \<Rightarrow> queue_state" where
  "leave c qs = \<lparr>owner = (if owner qs = Some c then None else owner qs),
                 sub = (if sub qs = Some c then None else sub qs)\<rparr>"

definition dead_entry :: "queue_state \<Rightarrow> bool" where
  "dead_entry qs \<longleftrightarrow> owner qs = None \<and> sub qs = None"

definition releaseQueue :: "nat \<Rightarrow> hub \<Rightarrow> hub_outcome" where
  "releaseQueue c h =
     (if \<exists>(q, qs) \<in> set (queues h). uses c qs \<and> length q < 8 then Panic (db h)
      else Ret (h\<lparr>queues := filter (\<lambda>(q, qs). \<not> dead_entry qs)
                               (map (\<lambda>(q, qs). (q, leave c qs)) (queues h))\<rparr>))"

definition kick :: "nat \<Rightarrow> hub \<Rightarrow> hub_outcome" where
  "kick c h =
     (if c \<notin> clients h then Ret h
      else on_conn c chan_close (h\<lparr>clients := clients h - {c}\<rparr>))"

definition hub_register :: "nat \<Rightarrow> hub \<Rightarrow> hub_outcome" where
  "hub_register c h = Ret (h\<lparr>clients := insert c (clients h)\<rparr>)"

definition hub_unregister :: "nat \<Rightarrow> hub \<Rightarrow> hub_outcome" where
  "hub_unregister c h =
     (if c \<notin> clients h then Ret h
      else bind_outcome (on_conn c chan_close (h\<lparr>clients := clients h - {c}\<rparr>)) (releaseQueue c))"

subsection \<open>Commands\<close>

definition handle_new :: "io \<Rightarrow> nat \<Rightarrow> envelope \<Rightarrow> hub \<Rightarrow> hub_outcome" where
  "handle_new io from env h =
     (if QueueID env \<noteq> [] then
        error_to from (clock io 0) CodeBadRequest ''NEW must not carry a queue id'' h
      else case NewID (rnd io) of
        None \<Rightarrow> error_to from (clock io 0) 500 ''internal error'' h
      | Some qid \<Rightarrow>
          (case CreateQueue (f_create io) qid (clock io 0) (db h) of
             None \<Rightarrow> error_to from (clock io 1) 500 ''storage error'' h
           | Some s \<Rightarrow>
               let h1 = touch io (clock io 1) qid (h\<lparr>db := s\<rparr>);
                   h2 = h1\<lparr>queues := AList.update qid \<lparr>owner = Some from, sub = None\<rparr> (queues h1)\<rparr>
               in bind_outcome (slice8 qid h2)
                    (send_to from (clock io 2) TypeNewOk qid [] (NewOkMessage qid))))"

text \<open>
  The lookup SUB and SEND share: the entry of the queue, brought back from the database when the
  table has none, or the error to reply.
\<close>

definition find_queue :: "io \<Rightarrow> string \<Rightarrow> hub \<Rightarrow> (int \<times> string) + (queue_state \<times> hub)" where
  "find_queue io qid h =
     (if \<not> ValidQueueID qid then Inl (CodeBadRequest, ''invalid queue id'')
      else case map_of (queues h) qid of
        Some qs \<Rightarrow> Inr (qs, h)
      | None \<Rightarrow>
          (case QueueExists (f_exists io) qid (db h) of
             None \<Rightarrow> Inl (500, ''storage error'')
           | Some False \<Rightarrow> Inl (CodeQueueNotFound, ''queue not found'')
           | Some True \<Rightarrow>
               (let qs = \<lparr>owner = None, sub = None\<rparr>
                in Inr (qs, h\<lparr>queues := AList.update qid qs (queues h)\<rparr>))))"

definition replay_one :: "io \<Rightarrow> nat \<Rightarrow> string \<Rightarrow> nat \<times> stored_message \<Rightarrow> hub \<Rightarrow> hub_outcome" where
  "replay_one io c qid im =
     send_to c (clock io (2 + fst im)) TypeDeliver qid (Mid (snd im)) (RawMessage (Some (Body (snd im))))"

definition replayOffline :: "io \<Rightarrow> nat \<Rightarrow> string \<Rightarrow> hub \<Rightarrow> hub_outcome" where
  "replayOffline io c qid h =
     (case Undelivered (f_undelivered io) qid (db h) of
        None \<Rightarrow> Ret h
      | Some msgs \<Rightarrow> fold_outcome (replay_one io c qid) (List.enumerate 0 msgs) h)"

definition kick_previous :: "nat \<Rightarrow> queue_state \<Rightarrow> hub \<Rightarrow> hub_outcome" where
  "kick_previous from qs h =
     (case sub qs of None \<Rightarrow> Ret h | Some old \<Rightarrow> if old \<noteq> from then kick old h else Ret h)"

definition set_sub :: "string \<Rightarrow> nat \<Rightarrow> hub \<Rightarrow> hub" where
  "set_sub qid c h =
     (case map_of (queues h) qid of
        None \<Rightarrow> h
      | Some qs \<Rightarrow> h\<lparr>queues := AList.update qid (qs\<lparr>sub := Some c\<rparr>) (queues h)\<rparr>)"

definition handle_sub :: "io \<Rightarrow> nat \<Rightarrow> envelope \<Rightarrow> hub \<Rightarrow> hub_outcome" where
  "handle_sub io from env h =
     (let qid = QueueID env in
      case find_queue io qid h of
        Inl (code, msg) \<Rightarrow> error_to from (clock io 0) code msg h
      | Inr (qs, h1) \<Rightarrow>
          if owner qs = Some from then
            error_to from (clock io 0) CodeBadRequest ''cannot subscribe your own queue'' h1
          else
            bind_outcome (kick_previous from qs h1) (\<lambda>h2.
            bind_outcome (send_to from (clock io 0) TypeSubOk qid [] NoPayload (set_sub qid from h2)) (\<lambda>h3.
            bind_outcome (replayOffline io from qid h3) (\<lambda>h4.
            Ret (touch io (clock io 1) qid h4)))))"

text \<open>The identifier of a SEND: the client's, or one made here (empty if the random source fails).\<close>

definition send_mid :: "io \<Rightarrow> envelope \<Rightarrow> string" where
  "send_mid io env =
     (if MsgID env = [] then (case NewID (rnd io) of None \<Rightarrow> [] | Some i \<Rightarrow> i) else MsgID env)"

definition sent_message :: "io \<Rightarrow> envelope \<Rightarrow> stored_message" where
  "sent_message io env =
     \<lparr>Mid = send_mid io env, QID = QueueID env, Body = payload_bytes env, StoredAt = clock io 0\<rparr>"

definition handle_send :: "io \<Rightarrow> nat \<Rightarrow> envelope \<Rightarrow> hub \<Rightarrow> hub_outcome" where
  "handle_send io from env h =
     (let qid = QueueID env; mid = send_mid io env in
      case find_queue io qid h of
        Inl (code, msg) \<Rightarrow> error_to from (clock io 0) code msg h
      | Inr (qs, h1) \<Rightarrow>
          (case SaveMessage (f_save io) (fk_on io) (sent_message io env) (db h1) of
             None \<Rightarrow> error_to from (clock io 1) 500 ''storage error'' h1
           | Some s \<Rightarrow>
               let h2 = touch io (clock io 1) qid (h1\<lparr>db := s\<rparr>) in
               bind_outcome
                 (case sub qs of None \<Rightarrow> Ret h2
                  | Some c \<Rightarrow> send_to c (clock io 2) TypeDeliver qid mid (RawMessage (Payload env)) h2) (\<lambda>h3.
               bind_outcome (slice8 qid h3) (\<lambda>h4.
               bind_outcome (slice8 mid h4)
                 (send_to from (clock io 3) TypeAck qid mid (AckMessage mid))))))"

definition handle_ack :: "io \<Rightarrow> envelope \<Rightarrow> hub \<Rightarrow> hub_outcome" where
  "handle_ack io env h =
     bind_outcome
       (case DeleteMessage (f_delete io) (MsgID env) (db h) of
          None \<Rightarrow> slice8 (MsgID env) h
        | Some s \<Rightarrow> Ret (h\<lparr>db := s\<rparr>)) (\<lambda>h1.
     bind_outcome (slice8 (QueueID env) h1) (slice8 (MsgID env)))"

definition handle :: "io \<Rightarrow> nat \<Rightarrow> envelope \<Rightarrow> hub \<Rightarrow> hub_outcome" where
  "handle io from env h =
     (if Typ env = TypeNew then handle_new io from env h
      else if Typ env = TypeSub then handle_sub io from env h
      else if Typ env = TypeSend then handle_send io from env h
      else if Typ env = TypeAck then handle_ack io env h
      else error_to from (clock io 0) CodeBadRequest (''unknown command: '' @ Typ env) h)"

text \<open>One turn of \<open>Run\<close>.\<close>

datatype hub_event = Register nat | Unregister nat | Route nat envelope

definition hub_turn :: "io \<Rightarrow> hub_event \<Rightarrow> hub \<Rightarrow> hub_outcome" where
  "hub_turn io ev h =
     (case ev of
        Register c \<Rightarrow> hub_register c h
      | Unregister c \<Rightarrow> hub_unregister c h
      | Route from env \<Rightarrow> handle io from env h)"

end
