(* ===== verification/Hub_Facts.thy ===== *)
theory Hub_Facts
  imports Hub
begin

text \<open>
  Correctness of the hub's handlers: what each leaves in the database whether it returns or panics,
  which channels it touches, the invariant every turn keeps, and when a turn can panic.
\<close>

subsection \<open>The database after a turn, crash included\<close>

definition store_after :: "hub_outcome \<Rightarrow> store" where
  "store_after m = (case m of Panic s \<Rightarrow> s | Ret h \<Rightarrow> db h)"

lemma store_after_simps [simp]: "store_after (Ret h) = db h" "store_after (Panic s) = s"
  by (simp_all add: store_after_def)

definition keeps_db :: "(hub \<Rightarrow> hub_outcome) \<Rightarrow> bool" where
  "keeps_db f \<longleftrightarrow> (\<forall>h. store_after (f h) = db h)"

lemma keeps_dbD: "keeps_db f \<Longrightarrow> store_after (f h) = db h"
  by (simp add: keeps_db_def)

lemma keeps_db_Ret: "keeps_db f \<Longrightarrow> f h = Ret h' \<Longrightarrow> db h' = db h"
  using keeps_dbD [of f h] by simp

lemma keeps_db_bind: "keeps_db f \<Longrightarrow> keeps_db g \<Longrightarrow> keeps_db (\<lambda>h. bind_outcome (f h) g)"
proof -
  assume f: "keeps_db f" and g: "keeps_db g"
  have "store_after (bind_outcome (f h) g) = db h" for h
    using keeps_dbD [OF f, of h] keeps_dbD [OF g] by (cases "f h") auto
  then show ?thesis by (simp add: keeps_db_def)
qed

lemma store_after_bind: "keeps_db f \<Longrightarrow> store_after (bind_outcome m f) = store_after m"
  using keeps_dbD [of f] by (cases m) auto

lemma keeps_db_on_conn: "keeps_db (on_conn c f)"
  by (simp add: keeps_db_def on_conn_def split: outcome.split)

lemma keeps_db_send: "keeps_db (send_to c now t q m pl)"
  by (simp add: send_to_def keeps_db_on_conn)

lemma keeps_db_error: "keeps_db (error_to c now code msg)"
  by (simp add: error_to_def keeps_db_on_conn)

lemma keeps_db_slice8: "keeps_db (slice8 s)"
  by (simp add: keeps_db_def slice8_def)

lemma keeps_db_kick: "keeps_db (kick c)"
  using keeps_dbD [OF keeps_db_on_conn] by (simp add: keeps_db_def kick_def)

lemma keeps_db_kick_previous: "keeps_db (kick_previous c qs)"
  using keeps_dbD [OF keeps_db_kick] by (simp add: keeps_db_def kick_previous_def split: option.split)

lemma keeps_db_register: "keeps_db (hub_register c)"
  by (simp add: keeps_db_def hub_register_def)

lemma keeps_db_release: "keeps_db (releaseQueue c)"
  by (simp add: keeps_db_def releaseQueue_def)

lemma keeps_db_unregister: "keeps_db (hub_unregister c)"
  using store_after_bind [OF keeps_db_release] keeps_dbD [OF keeps_db_on_conn]
  by (simp add: keeps_db_def hub_unregister_def)

lemma keeps_db_fold: "(\<And>x. keeps_db (f x)) \<Longrightarrow> keeps_db (fold_outcome f xs)"
proof (induction xs)
  case (Cons x xs)
  then show ?case using keeps_db_bind [of "f x" "fold_outcome f xs"] by simp
qed (simp add: keeps_db_def)

lemma keeps_db_replay: "keeps_db (replayOffline io c q)"
proof -
  have "keeps_db (fold_outcome (replay_one io c q) xs)" for xs
    by (rule keeps_db_fold) (simp add: keeps_db_def replay_one_def keeps_dbD [OF keeps_db_send])
  then show ?thesis by (simp add: keeps_db_def replayOffline_def split: option.split)
qed

lemmas keeps_db_rules = keeps_db_send keeps_db_error keeps_db_slice8 keeps_db_kick
  keeps_db_kick_previous keeps_db_release keeps_db_unregister keeps_db_register keeps_db_replay

lemmas keeps_db_simps = keeps_db_rules [THEN keeps_dbD] keeps_db_rules [THEN store_after_bind]

lemma find_queue_db: "find_queue io q h = Inr (qs, h') \<Longrightarrow> db h' = db h"
  by (auto simp: find_queue_def Let_def split: option.splits if_splits bool.splits)

lemma find_queue_frame:
  assumes "find_queue io q h = Inr (qs, h')"
  shows "clients h' = clients h" "conns h' = conns h" "db h' = db h" "map_of (queues h') q = Some qs"
    "ValidQueueID q"
  using assms
  by (auto simp: find_queue_def Let_def update_conv' split: option.splits if_splits bool.splits)

text \<open>Two databases with the same queues and messages (the activity times may differ).\<close>

definition same_mail :: "store \<Rightarrow> store \<Rightarrow> bool" where
  "same_mail s s' \<longleftrightarrow> messages_tab s = messages_tab s' \<and> qids s = qids s'"

lemma same_mail_refl [simp]: "same_mail s s"
  by (simp add: same_mail_def)

lemma same_mail_trans: "same_mail s s' \<Longrightarrow> same_mail s' s'' \<Longrightarrow> same_mail s s''"
  by (simp add: same_mail_def)

lemma same_mail_pending: "same_mail s s' \<Longrightarrow> pending s q = pending s' q"
  by (rule pending_cong) (simp add: same_mail_def)

lemma same_mail_touch [simp]: "same_mail (db (touch io t q h)) (db h)"
  using TouchQueue_frame(1) [of "f_touch io" q t "db h"]
  by (auto simp: touch_def same_mail_def split: option.split)

lemma messages_touch [simp]: "messages_tab (db (touch io t q h)) = messages_tab (db h)"
  using same_mail_touch [of io t q h] by (simp add: same_mail_def)

lemma qids_touch [simp]: "qids (db (touch io t q h)) = qids (db h)"
  using same_mail_touch [of io t q h] by (simp add: same_mail_def)

lemma pending_touch [simp]: "pending (db (touch io t q h)) q' = pending (db h) q'"
  by (rule pending_cong) simp

lemma touch_frame [simp]:
  "clients (touch io t q h) = clients h" "queues (touch io t q h) = queues h"
  "conns (touch io t q h) = conns h"
  by (simp_all add: touch_def split: option.split)

lemma set_sub_frame [simp]:
  "clients (set_sub q c h) = clients h" "conns (set_sub q c h) = conns h" "db (set_sub q c h) = db h"
  by (simp_all add: set_sub_def split: option.split)

text \<open>Of the commands only NEW makes a queue, only SEND adds a message and only ACK removes one.\<close>

definition keeps_mail :: "(hub \<Rightarrow> hub_outcome) \<Rightarrow> bool" where
  "keeps_mail f \<longleftrightarrow> (\<forall>h. same_mail (store_after (f h)) (db h))"

lemma keeps_mail_db: "keeps_db f \<Longrightarrow> keeps_mail f"
  by (simp add: keeps_mail_def keeps_db_def)

lemma keeps_mail_bind_at:
  "same_mail (store_after m) s \<Longrightarrow> keeps_mail f \<Longrightarrow> same_mail (store_after (bind_outcome m f)) s"
  by (cases m) (auto simp: keeps_mail_def intro: same_mail_trans)

lemma keeps_mail_bind: "keeps_mail f \<Longrightarrow> keeps_mail g \<Longrightarrow> keeps_mail (\<lambda>h. bind_outcome (f h) g)"
  unfolding keeps_mail_def [of "\<lambda>h. bind_outcome (f h) g"]
  by (intro allI keeps_mail_bind_at) (simp_all add: keeps_mail_def)

lemma keeps_mail_touch: "keeps_mail (\<lambda>h. Ret (touch io t q h))"
  by (simp add: keeps_mail_def)

lemma keeps_mail_set_sub: "keeps_mail f \<Longrightarrow> keeps_mail (\<lambda>h. f (set_sub q c h))"
  unfolding keeps_mail_def by (metis set_sub_frame(3))

lemmas keeps_mail_rules = keeps_db_rules [THEN keeps_mail_db] keeps_mail_touch

lemma mail_new_created:
  assumes "QueueID env = []" "NewID (rnd io) = Some q"
    and "CreateQueue (f_create io) q (clock io 0) (db h) = Some s"
  shows "same_mail (store_after (handle_new io c env h)) s"
proof -
  have "same_mail (db (touch io t q (h\<lparr>db := s\<rparr>))) s" for t
    using same_mail_touch [of io t q "h\<lparr>db := s\<rparr>"] by simp
  with assms show ?thesis by (simp add: handle_new_def Let_def keeps_db_simps)
qed

lemma store_after_new_rejected:
  assumes "QueueID env \<noteq> [] \<or> NewID (rnd io) = None \<or>
    (\<exists>q. NewID (rnd io) = Some q \<and> CreateQueue (f_create io) q (clock io 0) (db h) = None)"
  shows "store_after (handle_new io c env h) = db h"
  using assms by (auto simp: handle_new_def Let_def keeps_db_simps split: option.split)

lemma mail_sub: "same_mail (store_after (handle_sub io c env h)) (db h)"
proof -
  have k: "keeps_mail (\<lambda>h. bind_outcome (kick_previous c qs h) (\<lambda>h2.
      bind_outcome (send_to c t TypeSubOk q [] NoPayload (set_sub q c h2)) (\<lambda>h3.
      bind_outcome (replayOffline io c q h3) (\<lambda>h4. Ret (touch io u q h4)))))" for qs q t u
    by (intro keeps_mail_bind keeps_mail_set_sub keeps_mail_rules)
  have "same_mail (store_after (bind_outcome (kick_previous c qs h1) (\<lambda>h2.
      bind_outcome (send_to c t TypeSubOk q [] NoPayload (set_sub q c h2)) (\<lambda>h3.
      bind_outcome (replayOffline io c q h3) (\<lambda>h4. Ret (touch io u q h4)))))) (db h1)" for qs q t u h1
    using k [unfolded keeps_mail_def] by blast
  then show ?thesis
    using find_queue_db
    by (auto simp: handle_sub_def Let_def keeps_db_simps split: sum.split) metis+
qed

lemma store_after_ack:
  "store_after (handle_ack io env h) =
     (case DeleteMessage (f_delete io) (MsgID env) (db h) of None \<Rightarrow> db h | Some s \<Rightarrow> s)"
proof -
  have "keeps_db (\<lambda>h1. bind_outcome (slice8 (QueueID env) h1) (slice8 (MsgID env)))"
    by (intro keeps_db_bind keeps_db_rules)
  then show ?thesis
    by (simp add: handle_ack_def store_after_bind keeps_db_simps split: option.split)
qed

text \<open>SEND: nothing stored on an error reply, the message stored otherwise, even in a crash.\<close>

lemma mail_send_stored:
  assumes "find_queue io (QueueID env) h = Inr (qs, h1)"
    and "SaveMessage (f_save io) (fk_on io) (sent_message io env) (db h) = Some s"
  shows "same_mail (store_after (handle_send io c env h)) s"
proof -
  note fq = find_queue_frame [OF assms(1)]
  let ?h2 = "touch io (clock io 1) (QueueID env) (h1\<lparr>db := s\<rparr>)"
  have k: "keeps_mail (\<lambda>h3. bind_outcome (slice8 q h3) (\<lambda>h4. bind_outcome (slice8 m h4) (send_to c t TypeAck q m pl)))"
    for q m t pl
    by (intro keeps_mail_bind keeps_mail_rules)
  have t: "same_mail (db ?h2) s" using same_mail_touch [of io "clock io 1" "QueueID env" "h1\<lparr>db := s\<rparr>"] by simp
  then have d: "same_mail (store_after (case sub qs of None \<Rightarrow> Ret ?h2
      | Some c \<Rightarrow> send_to c t TypeDeliver q m pl ?h2)) s" for t q m pl
    by (simp add: keeps_db_simps split: option.split)
  show ?thesis
    using assms fq
    by (simp add: handle_send_def Let_def keeps_mail_bind_at [OF d k])
qed

lemma store_after_send_rejected:
  assumes "find_queue io (QueueID env) h = Inl e \<or>
    SaveMessage (f_save io) (fk_on io) (sent_message io env) (db h) = None"
  shows "store_after (handle_send io c env h) = db h"
  using assms find_queue_db [of io "QueueID env" h]
  by (auto simp: handle_send_def Let_def keeps_db_simps split: sum.split option.split)

end
