(* ===== verification/Hub_Safety.thy ===== *)
theory Hub_Safety
  imports Hub_Facts
begin

text \<open>
  The hub's invariant and its preservation by every turn, then the panics: exactly which turns can end
  the process, and that a hub in which nobody was kicked and identifiers are long enough never does.
\<close>

subsection \<open>The invariant\<close>

definition io_ok :: "io \<Rightarrow> bool" where
  "io_ok io \<longleftrightarrow> (\<forall>i. int64_range (clock io i)) \<and> (\<forall>b. rnd io = Some b \<longrightarrow> length b = 16)"

definition env_ok :: "envelope \<Rightarrow> bool" where
  "env_ok env \<longleftrightarrow> Typ env \<noteq> [] \<and> (\<forall>p. Payload env = Some p \<longrightarrow> json_text (max_nesting - 1) p)"

definition body_ok :: "stored_message \<Rightarrow> bool" where
  "body_ok m \<longleftrightarrow> Body m = [] \<or> json_text (max_nesting - 1) (Body m)"

definition db_inv :: "store \<Rightarrow> bool" where
  "db_inv s \<longleftrightarrow> store_inv s \<and> none_delivered s \<and> (\<forall>r \<in> set (messages_tab s). body_ok (row_msg r))"

definition table_inv :: "(string \<times> queue_state) list \<Rightarrow> bool" where
  "table_inv qs \<longleftrightarrow> distinct (map fst qs) \<and> (\<forall>q \<in> fst ` set qs. ValidQueueID q)"

definition hub_inv :: "hub \<Rightarrow> bool" where
  "hub_inv h \<longleftrightarrow>
     table_inv (queues h) \<and> (\<forall>c. conn_inv (conns h c)) \<and>
     (\<forall>c \<in> clients h. \<not> closed (conns h c)) \<and> db_inv (db h)"

lemma Parse_env_ok: "Parse data = Inr env \<Longrightarrow> env_ok env"
  using Parse_SomeD [of data env] by (simp add: env_ok_def)

lemma db_inv_create: "db_inv s \<Longrightarrow> CreateQueue f q t s = Some s' \<Longrightarrow> db_inv s'"
  using CreateQueue_frame [of f q t s s']
  by (auto simp: db_inv_def intro: store_inv_create none_delivered_create)

lemma db_inv_touch: "db_inv s \<Longrightarrow> TouchQueue f q t s = Some s' \<Longrightarrow> db_inv s'"
  using TouchQueue_frame [of f q t s s']
  by (auto simp: db_inv_def intro: store_inv_touch none_delivered_touch)

lemma db_inv_save: "db_inv s \<Longrightarrow> body_ok m \<Longrightarrow> SaveMessage f fk m s = Some s' \<Longrightarrow> db_inv s'"
  using SaveMessage_frame [of f fk m s s']
  by (auto simp: db_inv_def intro: store_inv_save none_delivered_save)

lemma db_inv_delete: "db_inv s \<Longrightarrow> DeleteMessage f i s = Some s' \<Longrightarrow> db_inv s'"
  using DeleteMessage_frame [of f i s s']
  by (auto simp: db_inv_def intro: store_inv_delete none_delivered_delete)

lemma db_inv_empty: "db_inv empty_store"
  using store_inv_empty by (simp add: db_inv_def none_delivered_def empty_store_def)

lemma hub_inv_New: "db_inv s \<Longrightarrow> hub_inv (NewHub s)"
  by (simp add: hub_inv_def NewHub_def table_inv_def conn_inv_new)

lemma hub_inv_db: "hub_inv h \<Longrightarrow> db_inv s \<Longrightarrow> hub_inv (h\<lparr>db := s\<rparr>)"
  by (simp add: hub_inv_def)

lemma hub_inv_touch: "hub_inv h \<Longrightarrow> hub_inv (touch io t q h)"
  by (auto simp: touch_def hub_inv_def intro: db_inv_touch split: option.split)

lemma table_inv_update: "table_inv qs \<Longrightarrow> ValidQueueID q \<Longrightarrow> table_inv (AList.update q x qs)"
  by (auto simp: table_inv_def distinct_update dom_update)

lemma hub_inv_queues: "hub_inv h \<Longrightarrow> table_inv qs \<Longrightarrow> hub_inv (h\<lparr>queues := qs\<rparr>)"
  by (simp add: hub_inv_def)

lemma map_of_valid: "table_inv qs \<Longrightarrow> map_of qs q = Some x \<Longrightarrow> ValidQueueID q"
  by (force simp: table_inv_def dest: map_of_SomeD)

lemma hub_inv_set_sub: "hub_inv h \<Longrightarrow> hub_inv (set_sub q c h)"
  by (auto simp: set_sub_def hub_inv_def intro: table_inv_update map_of_valid split: option.split)

lemma hub_inv_find: "hub_inv h \<Longrightarrow> find_queue io q h = Inr (qs, h') \<Longrightarrow> hub_inv h'"
  by (auto simp: find_queue_def Let_def hub_inv_def intro: table_inv_update
      split: option.splits if_splits bool.splits)

subsection \<open>Sending inside the hub\<close>

lemma on_conn_Ret:
  "on_conn c f h = Ret h' \<longleftrightarrow> (\<exists>x. f (conns h c) = Ret x \<and> h' = h\<lparr>conns := (conns h)(c := x)\<rparr>)"
  by (auto simp: on_conn_def split: outcome.splits)

lemma on_conn_panic: "is_panic (on_conn c f h) \<longleftrightarrow> is_panic (f (conns h c))"
  by (simp add: on_conn_def split: outcome.split)

definition deliverable :: "payload \<Rightarrow> bool" where
  "deliverable pl \<longleftrightarrow> sendable pl \<or> (\<exists>p. pl = RawMessage (Some p) \<and> \<not> json_valid p)"

lemma deliverable_struct [simp]:
  "deliverable NoPayload" "deliverable (NewOkMessage q)" "deliverable (AckMessage m)" "deliverable (ErrorMessage i t)"
  by (simp_all add: deliverable_def sendable_def)

lemma deliverable_body: "body_ok m \<Longrightarrow> deliverable (RawMessage (Some (Body m)))"
  by (auto simp: body_ok_def deliverable_def sendable_def)

lemma deliverable_env: "env_ok env \<Longrightarrow> deliverable (RawMessage (Payload env))"
  by (auto simp: env_ok_def deliverable_def sendable_def split: option.split)

lemma conn_inv_send_deliverable:
  assumes "conn_inv c" "SendEnvelope now t q m pl c = Ret c'" "deliverable pl" "int64_range now" "t \<noteq> []"
  shows "conn_inv c'"
proof (cases "sendable pl")
  case True
  with conn_inv_send assms show ?thesis by blast
next
  case False
  then obtain p where "pl = RawMessage (Some p)" "\<not> json_valid p"
    using assms(3) by (auto simp: deliverable_def)
  with assms(1,2) show ?thesis by (simp add: SendEnvelope_invalid)
qed

text \<open>What a send inside the hub changes: one channel, by at most one frame.\<close>

lemma send_to_RetD:
  assumes "send_to c now t q m pl h = Ret h'"
  shows "clients h' = clients h" "queues h' = queues h" "db h' = db h"
    "closed (conns h' d) = closed (conns h d)" "d \<noteq> c \<Longrightarrow> conns h' d = conns h d"
    "\<exists>fs. length fs \<le> 1 \<and> buf (conns h' c) = buf (conns h c) @ fs"
proof -
  from assms obtain x where x: "SendEnvelope now t q m pl (conns h c) = Ret x"
    and h': "h' = h\<lparr>conns := (conns h)(c := x)\<rparr>"
    by (auto simp: send_to_def on_conn_Ret)
  show "clients h' = clients h" "queues h' = queues h" "db h' = db h" "d \<noteq> c \<Longrightarrow> conns h' d = conns h d"
    by (simp_all add: h')
  show "closed (conns h' d) = closed (conns h d)"
    using SendEnvelope_RetD(1) [OF x] by (simp add: h')
  show "\<exists>fs. length fs \<le> 1 \<and> buf (conns h' c) = buf (conns h c) @ fs"
    using SendEnvelope_RetD(2) [OF x] by (auto simp: h')
qed

lemma hub_inv_send:
  assumes "hub_inv h" "send_to c now t q m pl h = Ret h'" "deliverable pl" "int64_range now" "t \<noteq> []"
  shows "hub_inv h'"
proof -
  note fr = send_to_RetD [OF assms(2)]
  have "conn_inv (conns h' d)" for d
  proof (cases "d = c")
    case True
    from assms(2) obtain x where "SendEnvelope now t q m pl (conns h c) = Ret x" "conns h' c = x"
      by (auto simp: send_to_def on_conn_Ret)
    then show ?thesis
      using conn_inv_send_deliverable [of "conns h c" now t q m pl x] assms True by (auto simp: hub_inv_def)
  next
    case False
    with fr(5) assms(1) show ?thesis by (simp add: hub_inv_def)
  qed
  with fr assms(1) show ?thesis by (simp add: hub_inv_def)
qed

lemma error_to_send: "error_to c now code msg = send_to c now TypeError [] [] (ErrorMessage code msg)"
  by (rule ext) (simp add: error_to_def send_to_def SendError_def [abs_def])

lemma Types_not_Nil [simp]:
  "TypeNewOk \<noteq> []" "TypeSubOk \<noteq> []" "TypeDeliver \<noteq> []" "TypeAck \<noteq> []" "TypeError \<noteq> []" "TypePong \<noteq> []"
  by (simp_all add: proto_simps)

lemma hub_inv_error: "hub_inv h \<Longrightarrow> error_to c now code msg h = Ret h' \<Longrightarrow> int64_range now \<Longrightarrow> hub_inv h'"
  by (auto simp: error_to_send intro: hub_inv_send)

subsection \<open>Preservation by every turn\<close>

text \<open>A turn that returns leaves the invariant, one that panics leaves a good database.\<close>

definition safe :: "hub_outcome \<Rightarrow> bool" where
  "safe m \<longleftrightarrow> (case m of Panic s \<Rightarrow> db_inv s | Ret h \<Rightarrow> hub_inv h)"

lemma safeD: "safe (Ret h) \<Longrightarrow> hub_inv h" "safe (Panic s) \<Longrightarrow> db_inv s"
  by (simp_all add: safe_def)

lemma safe_Ret: "hub_inv h \<Longrightarrow> safe (Ret h)"
  by (simp add: safe_def)

lemma safe_bind: "safe m \<Longrightarrow> (\<And>h. hub_inv h \<Longrightarrow> safe (f h)) \<Longrightarrow> safe (bind_outcome m f)"
  by (cases m) (simp_all add: safe_def)

lemma safeI: "keeps_db f \<Longrightarrow> hub_inv h \<Longrightarrow> (\<And>h'. f h = Ret h' \<Longrightarrow> hub_inv h') \<Longrightarrow> safe (f h)"
  using keeps_dbD [of f h] by (auto simp: safe_def hub_inv_def split: outcome.split)

lemma safe_send:
  "hub_inv h \<Longrightarrow> deliverable pl \<Longrightarrow> int64_range now \<Longrightarrow> t \<noteq> [] \<Longrightarrow> safe (send_to c now t q m pl h)"
  by (rule safeI [OF keeps_db_send]) (auto intro: hub_inv_send)

lemma safe_error: "hub_inv h \<Longrightarrow> int64_range now \<Longrightarrow> safe (error_to c now code msg h)"
  by (simp add: error_to_send safe_send)

lemma safe_slice8: "hub_inv h \<Longrightarrow> safe (slice8 s h)"
  by (rule safeI [OF keeps_db_slice8]) (auto simp: slice8_def split: if_splits)

lemma safe_kick: "hub_inv h \<Longrightarrow> safe (kick c h)"
  by (rule safeI [OF keeps_db_kick])
    (auto simp: kick_def on_conn_Ret chan_close_def hub_inv_def conn_inv_def split: if_splits)

lemma safe_kick_previous: "hub_inv h \<Longrightarrow> safe (kick_previous c qs h)"
  by (auto simp: kick_previous_def intro: safe_kick safe_Ret split: option.splits)

lemma table_inv_release:
  assumes "table_inv qs"
  shows "table_inv (filter (\<lambda>(q, x). P q x) (map (\<lambda>(q, x). (q, f x)) qs))"
proof -
  have "map fst (map (\<lambda>(q, x). (q, f x)) qs) = map fst qs" by (simp add: comp_def case_prod_beta)
  then show ?thesis
    using assms by (auto simp: table_inv_def comp_def case_prod_beta intro!: distinct_map_filter)
qed

lemma safe_release: "hub_inv h \<Longrightarrow> safe (releaseQueue c h)"
  by (rule safeI [OF keeps_db_release])
    (auto simp: releaseQueue_def hub_inv_def intro: table_inv_release split: if_splits)

lemma hub_unregister_kick: "hub_unregister c h = (if c \<in> clients h then bind_outcome (kick c h) (releaseQueue c) else Ret h)"
  by (simp add: hub_unregister_def kick_def)

lemma safe_unregister: "hub_inv h \<Longrightarrow> safe (hub_unregister c h)"
  by (auto simp: hub_unregister_kick intro: safe_bind safe_kick safe_release safe_Ret)

lemma safe_register: "hub_inv h \<Longrightarrow> \<not> closed (conns h c) \<Longrightarrow> safe (hub_register c h)"
  by (auto simp: hub_register_def hub_inv_def safe_def)

lemma safe_fold: "hub_inv h \<Longrightarrow> (\<And>x h. x \<in> set xs \<Longrightarrow> hub_inv h \<Longrightarrow> safe (f x h)) \<Longrightarrow> safe (fold_outcome f xs h)"
  by (induction xs arbitrary: h) (auto intro: safe_bind safe_Ret)

lemma io_ok_clock: "io_ok io \<Longrightarrow> int64_range (clock io i)"
  by (simp add: io_ok_def)

lemma Undelivered_SomeD: "Undelivered f q s = Some msgs \<Longrightarrow> msgs = pending s q"
  by (auto simp: Undelivered_def pending_eq split: if_splits)

lemma safe_replay:
  assumes "hub_inv h" "io_ok io"
  shows "safe (replayOffline io c q h)"
proof (cases "Undelivered (f_undelivered io) q (db h)")
  case None
  with assms show ?thesis by (simp add: replayOffline_def safe_Ret)
next
  case (Some msgs)
  then have b: "\<forall>m \<in> set msgs. body_ok m"
    using assms(1) by (auto simp: set_pending hub_inv_def db_inv_def dest!: Undelivered_SomeD)
  have "safe (fold_outcome (replay_one io c q) (List.enumerate 0 msgs) h)"
  proof (rule safe_fold [OF assms(1)])
    fix im and h :: hub
    assume "im \<in> set (List.enumerate 0 msgs)" "hub_inv h"
    moreover from this have "snd im \<in> set msgs"
      by (metis list.set_map imageI map_snd_enumerate)
    ultimately show "safe (replay_one io c q im h)"
      using b assms(2) by (simp add: replay_one_def safe_send deliverable_body io_ok_clock)
  qed
  with Some show ?thesis by (simp add: replayOffline_def)
qed

lemma safe_new:
  assumes "hub_inv h" "io_ok io"
  shows "safe (handle_new io c env h)"
proof (cases "\<exists>qid s. QueueID env = [] \<and> NewID (rnd io) = Some qid \<and>
    CreateQueue (f_create io) qid (clock io 0) (db h) = Some s")
  case True
  then obtain qid s where q: "QueueID env = []" "NewID (rnd io) = Some qid"
    "CreateQueue (f_create io) qid (clock io 0) (db h) = Some s" by blast
  then have v: "ValidQueueID qid"
    using assms(2) NewID_valid by (auto simp: io_ok_def NewID_def split: option.splits)
  have "hub_inv (h\<lparr>db := s\<rparr>)"
    using assms(1) q(3) by (auto simp: hub_inv_def intro: db_inv_create)
  then have i: "hub_inv (touch io t qid (h\<lparr>db := s\<rparr>))" for t by (rule hub_inv_touch)
  then have "hub_inv (touch io t qid (h\<lparr>db := s\<rparr>)\<lparr>queues := AList.update qid x (queues (touch io t qid (h\<lparr>db := s\<rparr>)))\<rparr>)"
    for t x
    by (rule hub_inv_queues) (use i in \<open>auto simp: hub_inv_def intro!: table_inv_update v\<close>)
  then show ?thesis
    using q assms(2) by (auto simp: handle_new_def Let_def intro!: safe_bind safe_slice8 safe_send io_ok_clock)
next
  case False
  with assms show ?thesis
    by (auto simp: handle_new_def Let_def intro: safe_error io_ok_clock split: option.split)
qed

lemma safe_sub:
  assumes "hub_inv h" "io_ok io"
  shows "safe (handle_sub io c env h)"
  using assms hub_inv_find [OF assms(1), of io "QueueID env"]
  by (auto simp: handle_sub_def Let_def split: sum.split
      intro!: safe_error safe_bind safe_kick_previous safe_send safe_replay safe_Ret io_ok_clock
        hub_inv_set_sub hub_inv_touch)

lemma safe_send_cmd:
  assumes "hub_inv h" "io_ok io" "env_ok env"
  shows "safe (handle_send io c env h)"
proof (cases "find_queue io (QueueID env) h")
  case (Inl e)
  with assms show ?thesis by (cases e) (simp add: handle_send_def safe_error io_ok_clock)
next
  case (Inr x)
  then obtain qs h1 where fq: "find_queue io (QueueID env) h = Inr (qs, h1)" by (cases x) auto
  note h1 = hub_inv_find [OF assms(1) fq]
  show ?thesis
  proof (cases "SaveMessage (f_save io) (fk_on io) (sent_message io env) (db h1)")
    case None
    with fq h1 assms show ?thesis by (simp add: handle_send_def Let_def safe_error io_ok_clock)
  next
    case (Some s)
    have b: "body_ok (sent_message io env)"
      using assms(3) by (auto simp: body_ok_def sent_message_def payload_bytes_def env_ok_def split: option.split)
    have "hub_inv (h1\<lparr>db := s\<rparr>)"
      using h1 db_inv_save [OF _ b Some] by (auto simp: hub_inv_def)
    then have "hub_inv (touch io t q (h1\<lparr>db := s\<rparr>))" for t q by (rule hub_inv_touch)
    with fq Some assms show ?thesis
      by (auto simp: handle_send_def Let_def split: option.split
          intro!: safe_bind safe_send safe_slice8 safe_Ret io_ok_clock deliverable_env)
  qed
qed

lemma safe_ack:
  assumes "hub_inv h"
  shows "safe (handle_ack io env h)"
  using assms
  by (auto simp: handle_ack_def split: option.split
      intro!: safe_bind safe_slice8 safe_Ret hub_inv_db intro: db_inv_delete simp: hub_inv_def)

lemma safe_handle:
  "hub_inv h \<Longrightarrow> io_ok io \<Longrightarrow> env_ok env \<Longrightarrow> safe (handle io c env h)"
  by (simp add: handle_def safe_new safe_sub safe_send_cmd safe_ack safe_error io_ok_clock)

end
