(* ===== verification/Hub_Panics.thy ===== *)
theory Hub_Panics
  imports Hub_Safety
begin

text \<open>
  Panics of the hub: which commands end the process, and the discipline under which no turn ever does.
\<close>

subsection \<open>Who can be sent to\<close>

text \<open>
  A tidy table names only connections that are registered.  Kicking breaks it (the kicked
  connection stays in the other queues it uses), everything else keeps it.
\<close>

definition tidy :: "hub \<Rightarrow> bool" where
  "tidy h \<longleftrightarrow> (\<forall>(q, qs) \<in> set (queues h). \<forall>c. uses c qs \<longrightarrow> c \<in> clients h)"

definition good :: "nat set \<Rightarrow> hub \<Rightarrow> bool" where
  "good C h \<longleftrightarrow> hub_inv h \<and> tidy h \<and> clients h = C"

definition calm :: "nat set \<Rightarrow> hub_outcome \<Rightarrow> bool" where
  "calm C m \<longleftrightarrow> (case m of Panic s \<Rightarrow> False | Ret h \<Rightarrow> good C h)"

lemma calmD: "calm C m \<Longrightarrow> \<exists>h. m = Ret h \<and> good C h"
  by (cases m) (simp_all add: calm_def)

lemma calm_not_panic: "calm C m \<Longrightarrow> \<not> is_panic m"
  by (cases m) (simp_all add: calm_def)

lemma calm_Ret: "good C h \<Longrightarrow> calm C (Ret h)"
  by (simp add: calm_def)

lemma calm_bind: "calm C m \<Longrightarrow> (\<And>h. good C h \<Longrightarrow> calm C (f h)) \<Longrightarrow> calm C (bind_outcome m f)"
  by (cases m) (simp_all add: calm_def)

lemma send_to_panic:
  "is_panic (send_to c now t q m pl h) \<longleftrightarrow> closed (conns h c) \<and> frame_of now t q m pl \<noteq> None"
  by (simp add: send_to_def on_conn_panic SendEnvelope_panic)

lemma calm_send:
  assumes "good C h" "c \<in> C" "deliverable pl" "int64_range now" "t \<noteq> []"
  shows "calm C (send_to c now t q m pl h)"
proof (cases "send_to c now t q m pl h")
  case (Panic s)
  with send_to_panic [of c now t q m pl h] assms(1,2) show ?thesis
    by (auto simp: good_def hub_inv_def)
next
  case (Ret h')
  from send_to_RetD [OF Ret] have "tidy h'" "clients h' = C"
    using assms(1) by (auto simp: good_def tidy_def)
  with hub_inv_send [OF _ Ret assms(3-5)] Ret assms(1) show ?thesis
    by (simp add: calm_def good_def)
qed

lemma calm_error: "good C h \<Longrightarrow> c \<in> C \<Longrightarrow> int64_range now \<Longrightarrow> calm C (error_to c now code msg h)"
  by (simp add: error_to_send calm_send)

lemma calm_slice8: "good C h \<Longrightarrow> 8 \<le> length s \<Longrightarrow> calm C (slice8 s h)"
  by (simp add: slice8_def calm_Ret)

lemma good_touch: "good C h \<Longrightarrow> good C (touch io t q h)"
  by (auto simp: good_def tidy_def intro: hub_inv_touch)

lemma good_db: "good C h \<Longrightarrow> db_inv s \<Longrightarrow> good C (h\<lparr>db := s\<rparr>)"
  by (auto simp: good_def tidy_def intro: hub_inv_db)

lemma set_update_subset: "set (AList.update k v xs) \<subseteq> insert (k, v) (set xs)"
  by (induction xs) auto

lemma good_update:
  assumes "good C h" "ValidQueueID q" "\<And>c. uses c qs \<Longrightarrow> c \<in> C"
  shows "good C (h\<lparr>queues := AList.update q qs (queues h)\<rparr>)"
  using assms set_update_subset [of q qs "queues h"] hub_inv_queues [OF _ table_inv_update, of h "queues h" q qs]
  by (fastforce simp: good_def tidy_def hub_inv_def)

lemma good_entry: "good C h \<Longrightarrow> map_of (queues h) q = Some qs \<Longrightarrow> uses c qs \<Longrightarrow> c \<in> C"
  by (force simp: good_def tidy_def dest: map_of_SomeD)

lemma good_find: "good C h \<Longrightarrow> find_queue io q h = Inr (qs, h') \<Longrightarrow> good C h'"
  by (auto simp: find_queue_def Let_def uses_def intro: good_update
      split: option.splits if_splits bool.splits)

lemma good_set_sub: "good C h \<Longrightarrow> c \<in> C \<Longrightarrow> good C (set_sub q c h)"
proof (cases "map_of (queues h) q")
  case (Some qs)
  assume g: "good C h" and c: "c \<in> C"
  have v: "ValidQueueID q" using map_of_valid [OF _ Some] g by (simp add: good_def hub_inv_def)
  have "d \<in> C" if "uses d (qs\<lparr>sub := Some c\<rparr>)" for d
    using that c good_entry [OF g Some, of d] by (auto simp: uses_def)
  then show ?thesis using good_update [OF g v] Some by (simp add: set_sub_def)
qed (simp add: set_sub_def)

subsection \<open>Commands that end the process\<close>

text \<open>ACK slices both identifiers of the client's envelope for the log line.\<close>

lemma ack_panic_iff:
  "is_panic (handle_ack io env h) \<longleftrightarrow> length (QueueID env) < 8 \<or> length (MsgID env) < 8"
  by (auto simp: handle_ack_def slice8_def go_simps split: option.split)

lemma deliver_calm:
  assumes "good C h" "io_ok io" "env_ok env" "\<And>c. sub qs = Some c \<Longrightarrow> c \<in> C"
  shows "calm C (case sub qs of None \<Rightarrow> Ret h
     | Some c \<Rightarrow> send_to c (clock io i) TypeDeliver q m (RawMessage (Payload env)) h)"
  using assms by (auto split: option.split intro!: calm_Ret calm_send deliverable_env io_ok_clock)

text \<open>A SEND that is stored gets as far as its log line.\<close>

lemma send_stored_form:
  assumes g: "good C h" and ok: "io_ok io" "env_ok env"
    and fq: "find_queue io (QueueID env) h = Inr (qs, h1)"
    and sv: "SaveMessage (f_save io) (fk_on io) (sent_message io env) (db h) = Some s"
  obtains h3 where "good C h3"
    "handle_send io c env h = bind_outcome (slice8 (send_mid io env) h3)
       (send_to c (clock io 3) TypeAck (QueueID env) (send_mid io env) (AckMessage (send_mid io env)))"
proof -
  note fr = find_queue_frame [OF fq]
  note g1 = good_find [OF g fq]
  let ?h2 = "touch io (clock io 1) (QueueID env) (h1\<lparr>db := s\<rparr>)"
  have "body_ok (sent_message io env)"
    using ok(2) by (auto simp: body_ok_def sent_message_def payload_bytes_def env_ok_def split: option.split)
  then have "db_inv s"
    using db_inv_save [OF _ _ sv] g by (simp add: good_def hub_inv_def)
  then have g2: "good C ?h2" using g1 by (intro good_touch good_db)
  have "sub qs = Some c \<Longrightarrow> c \<in> C" for c
    using good_entry [OF g1 fr(4), of c] by (simp add: uses_def)
  from calmD [OF deliver_calm [OF g2 ok this, of qs 2 "QueueID env" "send_mid io env"]]
  obtain h3 where h3: "(case sub qs of None \<Rightarrow> Ret ?h2 | Some c \<Rightarrow> send_to c (clock io 2) TypeDeliver
      (QueueID env) (send_mid io env) (RawMessage (Payload env)) ?h2) = Ret h3" "good C h3" by blast
  have "slice8 (QueueID env) h3 = Ret h3"
    using ValidQueueID_length [OF fr(5)] by (simp add: slice8_def)
  then have "handle_send io c env h = bind_outcome (slice8 (send_mid io env) h3)
       (send_to c (clock io 3) TypeAck (QueueID env) (send_mid io env) (AckMessage (send_mid io env)))"
    using fq sv fr(3) h3(1) by (simp add: handle_send_def Let_def)
  with h3(2) show thesis by (rule that)
qed

text \<open>In a tidy hub a SEND panics exactly when it is stored under an identifier shorter than 8.\<close>

definition send_stores :: "io \<Rightarrow> envelope \<Rightarrow> hub \<Rightarrow> bool" where
  "send_stores io env h \<longleftrightarrow>
     (case find_queue io (QueueID env) h of
        Inl e \<Rightarrow> False
      | Inr x \<Rightarrow> SaveMessage (f_save io) (fk_on io) (sent_message io env) (db h) \<noteq> None)"

lemma send_rejected_form:
  assumes "\<not> send_stores io env h" and "good C h"
  obtains code msg i h1 where "handle_send io c env h = error_to c (clock io i) code msg h1"
    and "good C h1" and "code \<in> {400, 404, 500}" and "conns h1 = conns h" and "db h1 = db h"
proof (cases "find_queue io (QueueID env) h")
  case (Inl e)
  obtain code msg where e: "e = (code, msg)" by (cases e)
  have "code \<in> {400, 404, 500}"
    using Inl e by (auto simp: find_queue_def Let_def proto_simps split: if_splits option.splits bool.splits)
  then show ?thesis using that [of 0 code msg h] Inl e assms(2) by (simp add: handle_send_def)
next
  case (Inr x)
  then obtain qs h1 where fq: "find_queue io (QueueID env) h = Inr (qs, h1)" by (cases x) auto
  with assms find_queue_db [OF fq]
  have "handle_send io c env h = error_to c (clock io 1) 500 ''storage error'' h1"
    by (simp add: send_stores_def handle_send_def Let_def)
  then show ?thesis by (rule that) (use good_find [OF assms(2) fq] find_queue_frame [OF fq] in auto)
qed

lemma send_panic_iff:
  assumes g: "good C h" and ok: "io_ok io" "env_ok env" and c: "c \<in> C"
  shows "is_panic (handle_send io c env h) \<longleftrightarrow> send_stores io env h \<and> length (send_mid io env) < 8"
proof (cases "send_stores io env h")
  case False
  obtain code msg i h1 where e: "handle_send io c env h = error_to c (clock io i) code msg h1" "good C h1"
    by (rule send_rejected_form [OF False g, of c])
  have "\<not> is_panic (error_to c (clock io i) code msg h1)"
    by (rule calm_not_panic [OF calm_error [OF e(2) c io_ok_clock [OF ok(1)]]])
  with e(1) False show ?thesis by simp
next
  case True
  then obtain qs h1 s where "find_queue io (QueueID env) h = Inr (qs, h1)"
    "SaveMessage (f_save io) (fk_on io) (sent_message io env) (db h) = Some s"
    by (auto simp: send_stores_def split: sum.splits)
  from send_stored_form [OF g ok this, of c] obtain h3 where h3: "good C h3"
    "handle_send io c env h = bind_outcome (slice8 (send_mid io env) h3)
       (send_to c (clock io 3) TypeAck (QueueID env) (send_mid io env) (AckMessage (send_mid io env)))" by blast
  have "\<not> is_panic (send_to c (clock io 3) TypeAck (QueueID env) (send_mid io env) (AckMessage (send_mid io env)) h3)"
    by (rule calm_not_panic [OF calm_send [OF h3(1) c _ io_ok_clock [OF ok(1)]]]) simp_all
  with h3(2) True show ?thesis by (auto simp: slice8_def)
qed

lemma calm_send_cmd:
  assumes g: "good C h" and ok: "io_ok io" "env_ok env" and c: "c \<in> C" and m: "8 \<le> length (send_mid io env)"
  shows "calm C (handle_send io c env h)"
proof (cases "send_stores io env h")
  case False
  obtain code msg i h1 where e: "handle_send io c env h = error_to c (clock io i) code msg h1" "good C h1"
    by (rule send_rejected_form [OF False g, of c])
  with calm_error [OF e(2) c io_ok_clock [OF ok(1)]] show ?thesis by simp
next
  case True
  then obtain qs h1 s where "find_queue io (QueueID env) h = Inr (qs, h1)"
    "SaveMessage (f_save io) (fk_on io) (sent_message io env) (db h) = Some s"
    by (auto simp: send_stores_def split: sum.splits)
  from send_stored_form [OF g ok this, of c] obtain h3 where h3: "good C h3"
    "handle_send io c env h = bind_outcome (slice8 (send_mid io env) h3)
       (send_to c (clock io 3) TypeAck (QueueID env) (send_mid io env) (AckMessage (send_mid io env)))" by blast
  with m ok c show ?thesis
    by (auto intro!: calm_bind calm_slice8 calm_send io_ok_clock)
qed

subsection \<open>Polite traffic never panics\<close>

text \<open>
  What a sender must respect: no SUB to a queue someone else is subscribed to, no short identifiers.
\<close>

definition courteous :: "io \<Rightarrow> nat \<Rightarrow> envelope \<Rightarrow> hub \<Rightarrow> bool" where
  "courteous io c env h \<longleftrightarrow>
     (Typ env = TypeSub \<longrightarrow>
        (case map_of (queues h) (QueueID env) of None \<Rightarrow> True | Some qs \<Rightarrow> sub qs = None \<or> sub qs = Some c)) \<and>
     (Typ env = TypeSend \<longrightarrow> 8 \<le> length (send_mid io env)) \<and>
     (Typ env = TypeAck \<longrightarrow> 8 \<le> length (QueueID env) \<and> 8 \<le> length (MsgID env))"

lemma calm_safe: "safe m \<Longrightarrow> \<not> is_panic m \<Longrightarrow> (\<And>h. m = Ret h \<Longrightarrow> tidy h \<and> clients h = C) \<Longrightarrow> calm C m"
  by (cases m) (auto simp: calm_def good_def safe_def)

lemma calm_replay:
  assumes g: "good C h" and "io_ok io" "c \<in> C"
  shows "calm C (replayOffline io c q h)"
proof (cases "Undelivered (f_undelivered io) q (db h)")
  case None
  with g show ?thesis by (simp add: replayOffline_def calm_Ret)
next
  case (Some msgs)
  then have "\<forall>m \<in> set msgs. body_ok m"
    using g by (auto simp: good_def set_pending hub_inv_def db_inv_def dest!: Undelivered_SomeD)
  then have b: "\<forall>im \<in> set (List.enumerate 0 msgs). body_ok (snd im)"
    by (metis list.set_map imageI map_snd_enumerate)
  have "calm C (fold_outcome (replay_one io c q) ims h)" if "\<forall>im \<in> set ims. body_ok (snd im)" for ims
    using that g
  proof (induction ims arbitrary: h)
    case (Cons im ims)
    then have "calm C (replay_one io c q im h)"
      using assms(2,3) by (simp add: replay_one_def calm_send deliverable_body io_ok_clock)
    with Cons show ?case by (auto intro: calm_bind)
  qed (simp add: calm_Ret)
  with b Some show ?thesis by (simp add: replayOffline_def)
qed

lemma calm_new:
  assumes g: "good C h" and ok: "io_ok io" and c: "c \<in> C"
  shows "calm C (handle_new io c env h)"
proof (cases "\<exists>qid s. QueueID env = [] \<and> NewID (rnd io) = Some qid \<and>
    CreateQueue (f_create io) qid (clock io 0) (db h) = Some s")
  case True
  then obtain qid s where q: "QueueID env = []" "NewID (rnd io) = Some qid"
    "CreateQueue (f_create io) qid (clock io 0) (db h) = Some s" by blast
  then have v: "ValidQueueID qid"
    using ok NewID_valid by (auto simp: io_ok_def NewID_def split: option.splits)
  have "db_inv s" using g q(3) by (auto simp: good_def hub_inv_def intro: db_inv_create)
  then have i: "good C (touch io t qid (h\<lparr>db := s\<rparr>))" for t using g by (intro good_touch good_db)
  have "good C (touch io t qid (h\<lparr>db := s\<rparr>)\<lparr>queues := AList.update qid \<lparr>owner = Some c, sub = None\<rparr>
      (queues (touch io t qid (h\<lparr>db := s\<rparr>)))\<rparr>)" for t
    by (rule good_update [OF i v]) (simp add: uses_def c)
  then show ?thesis
    using q ok c ValidQueueID_length [OF v]
    by (auto simp: handle_new_def Let_def intro!: calm_bind calm_slice8 calm_send io_ok_clock)
next
  case False
  with assms show ?thesis
    by (auto simp: handle_new_def Let_def intro: calm_error io_ok_clock split: option.split)
qed

lemma calm_sub:
  assumes g: "good C h" and ok: "io_ok io" and c: "c \<in> C"
    and alone: "\<And>qs d. map_of (queues h) (QueueID env) = Some qs \<Longrightarrow> sub qs = Some d \<Longrightarrow> d = c"
  shows "calm C (handle_sub io c env h)"
proof (cases "find_queue io (QueueID env) h")
  case (Inl e)
  with assms show ?thesis by (cases e) (simp add: handle_sub_def calm_error io_ok_clock)
next
  case (Inr x)
  then obtain qs h1 where fq: "find_queue io (QueueID env) h = Inr (qs, h1)" by (cases x) auto
  note g1 = good_find [OF g fq]
  have "sub qs = Some d \<Longrightarrow> d = c" for d
    using fq alone by (auto simp: find_queue_def Let_def split: option.splits if_splits bool.splits)
  then have k: "kick_previous c qs h1 = Ret h1" by (auto simp: kick_previous_def split: option.split)
  show ?thesis
    using fq g1 ok c
    by (auto simp: handle_sub_def Let_def k
        intro!: calm_error calm_bind calm_send calm_replay calm_Ret io_ok_clock good_set_sub good_touch)
qed

lemma uses_leave: "uses d (leave c qs) \<longleftrightarrow> d \<noteq> c \<and> uses d qs"
  by (auto simp: uses_def leave_def)

lemma calm_unregister:
  assumes g: "good C h"
  shows "calm (C - {c}) (hub_unregister c h)"
proof (cases "c \<in> C")
  case False
  with g show ?thesis by (simp add: hub_unregister_def good_def calm_def)
next
  case True
  let ?h1 = "h\<lparr>clients := C - {c}, conns := (conns h)(c := conns h c\<lparr>closed := True\<rparr>)\<rparr>"
  have o: "\<not> closed (conns h c)" "clients h = C" using True g by (auto simp: good_def hub_inv_def)
  have k: "kick c h = Ret ?h1"
    using True o by (simp add: kick_def on_conn_def chan_close_def)
  have "length q = 32" if "(q, qs) \<in> set (queues h)" for q qs
    using g that ValidQueueID_length [of q] by (force simp: good_def hub_inv_def table_inv_def)
  then have r: "\<not> is_panic (releaseQueue c ?h1)"
    by (auto simp: releaseQueue_def)
  show ?thesis
  proof (rule calm_safe)
    show "safe (hub_unregister c h)" using g by (intro safe_unregister) (simp add: good_def)
    show "\<not> is_panic (hub_unregister c h)" using True k o r by (simp add: hub_unregister_kick go_simps)
    fix h' assume "hub_unregister c h = Ret h'"
    then have h': "releaseQueue c ?h1 = Ret h'" using True k o by (simp add: hub_unregister_kick)
    then have "h' = ?h1\<lparr>queues := filter (\<lambda>(q, qs). \<not> dead_entry qs) (map (\<lambda>(q, qs). (q, leave c qs)) (queues h))\<rparr>"
      by (simp add: releaseQueue_def split: if_splits)
    then show "tidy h' \<and> clients h' = C - {c}"
      using g unfolding tidy_def good_def by (auto simp: uses_leave)
  qed
qed

lemma calm_ack:
  assumes g: "good C h" and "8 \<le> length (QueueID env)" "8 \<le> length (MsgID env)"
  shows "calm C (handle_ack io env h)"
proof -
  have "calm C (case DeleteMessage (f_delete io) (MsgID env) (db h) of
      None \<Rightarrow> slice8 (MsgID env) h | Some s \<Rightarrow> Ret (h\<lparr>db := s\<rparr>))"
    using g assms(3)
    by (auto split: option.split intro!: calm_slice8 calm_Ret good_db
        intro: db_inv_delete simp: good_def hub_inv_def)
  then show ?thesis
    using assms(2,3) by (auto simp: handle_ack_def intro!: calm_bind calm_slice8)
qed

lemma calm_handle:
  assumes g: "good C h" and ok: "io_ok io" and env: "env_ok env" and c: "c \<in> C" and p: "courteous io c env h"
  shows "calm C (handle io c env h)"
proof -
  have alone: "d = c" if "Typ env = TypeSub" "map_of (queues h) (QueueID env) = Some qs" "sub qs = Some d" for qs d
    using p that by (auto simp: courteous_def)
  show ?thesis
    using calm_new [OF g ok c] calm_sub [OF g ok c alone] calm_send_cmd [OF g ok env c]
      calm_ack [OF g] calm_error [OF g c io_ok_clock [OF ok]] p
    by (auto simp: handle_def courteous_def)
qed

end
