(* ===== verification/Hub_Behaviour.thy ===== *)
theory Hub_Behaviour
  imports Hub_Panics
begin

text \<open>
  What each command does when it succeeds: the frames it queues, the row it leaves in the database, the
  connections it does not touch; and what kicking leaves behind.
\<close>

subsection \<open>Posting a frame\<close>

definition post :: "nat \<Rightarrow> string option \<Rightarrow> hub \<Rightarrow> hub" where
  "post c f h =
     (case f of None \<Rightarrow> h
      | Some d \<Rightarrow> h\<lparr>conns := (conns h)(c := (conns h c)\<lparr>buf := take sendCap (buf (conns h c) @ [d])\<rparr>)\<rparr>)"

lemma post_frame [simp]:
  "clients (post c f h) = clients h" "queues (post c f h) = queues h" "db (post c f h) = db h"
  "closed (conns (post c f h) d) = closed (conns h d)"
  "d \<noteq> c \<Longrightarrow> conns (post c f h) d = conns h d"
  by (simp_all add: post_def split: option.split)

definition opt_list :: "'a option \<Rightarrow> 'a list" where
  "opt_list x = (case x of None \<Rightarrow> [] | Some y \<Rightarrow> [y])"

lemma buf_post [simp]:
  "length (buf (conns h c)) \<le> sendCap \<Longrightarrow>
     buf (conns (post c f h) c) = take sendCap (buf (conns h c) @ opt_list f)"
  by (simp add: post_def opt_list_def split: option.split)

lemma send_to_open:
  "\<not> closed (conns h c) \<Longrightarrow> length (buf (conns h c)) \<le> sendCap \<Longrightarrow>
     send_to c now t q m pl h = Ret (post c (frame_of now t q m pl) h)"
  by (simp add: send_to_def on_conn_def SendEnvelope_def chan_send_open post_def split: option.split)

lemma good_open: "good C h \<Longrightarrow> c \<in> C \<Longrightarrow> \<not> closed (conns h c) \<and> length (buf (conns h c)) \<le> sendCap"
  by (simp add: good_def hub_inv_def conn_inv_def)

lemma send_to_good: "good C h \<Longrightarrow> c \<in> C \<Longrightarrow> send_to c now t q m pl h = Ret (post c (frame_of now t q m pl) h)"
  using good_open send_to_open by blast

lemma error_to_good:
  "good C h \<Longrightarrow> c \<in> C \<Longrightarrow>
     error_to c now code msg h = Ret (post c (frame_of now TypeError [] [] (ErrorMessage code msg)) h)"
  by (simp add: error_to_send send_to_good)

lemma good_post:
  assumes "good C h" "c \<in> C" "deliverable pl" "int64_range now" "t \<noteq> []"
  shows "good C (post c (frame_of now t q m pl) h)"
  using calmD [OF calm_send [OF assms, of q m]] send_to_good [OF assms(1,2)] by auto

subsection \<open>SEND\<close>

definition deliver_frame :: "io \<Rightarrow> envelope \<Rightarrow> string option" where
  "deliver_frame io env =
     frame_of (clock io 2) TypeDeliver (QueueID env) (send_mid io env) (RawMessage (Payload env))"

definition ack_frame :: "io \<Rightarrow> envelope \<Rightarrow> string option" where
  "ack_frame io env =
     frame_of (clock io 3) TypeAck (QueueID env) (send_mid io env) (AckMessage (send_mid io env))"

lemma handle_send_ok:
  assumes g: "good C h" and ok: "io_ok io" "env_ok env" and c: "c \<in> C"
    and fq: "find_queue io (QueueID env) h = Inr (qs, h1)"
    and sv: "SaveMessage (f_save io) (fk_on io) (sent_message io env) (db h) = Some s"
    and m: "8 \<le> length (send_mid io env)"
  shows "handle_send io c env h =
    Ret (post c (ack_frame io env)
          ((case sub qs of None \<Rightarrow> id | Some d \<Rightarrow> post d (deliver_frame io env))
            (touch io (clock io 1) (QueueID env) (h1\<lparr>db := s\<rparr>))))"
proof -
  note fr = find_queue_frame [OF fq]
  note g1 = good_find [OF g fq]
  let ?h2 = "touch io (clock io 1) (QueueID env) (h1\<lparr>db := s\<rparr>)"
  have "body_ok (sent_message io env)"
    using ok(2) by (auto simp: body_ok_def sent_message_def payload_bytes_def env_ok_def split: option.split)
  then have "db_inv s" using db_inv_save [OF _ _ sv] g by (simp add: good_def hub_inv_def)
  then have g2: "good C ?h2" using g1 by (intro good_touch good_db)
  have s: "d \<in> C" if "sub qs = Some d" for d
    using good_entry [OF g1 fr(4), of d] that by (simp add: uses_def)
  have q: "\<not> length (QueueID env) < 8" using ValidQueueID_length [OF fr(5)] by simp
  show ?thesis
  proof (cases "sub qs")
    case None
    then show ?thesis
      using fq sv fr(3) m q send_to_good [OF g2 c]
      by (simp add: handle_send_def Let_def slice8_def ack_frame_def)
  next
    case (Some d)
    have g3: "good C (post d (deliver_frame io env) ?h2)"
      unfolding deliver_frame_def
      using g2 s [OF Some] ok by (intro good_post deliverable_env io_ok_clock) simp_all
    show ?thesis
      using Some fq sv fr(3) m q send_to_good [OF g3 c] send_to_good [OF g2 s [OF Some]]
      by (simp add: handle_send_def Let_def slice8_def ack_frame_def deliver_frame_def)
  qed
qed

lemma deliver_frame_parses:
  assumes "io_ok io" "Payload env = Some p" "json_text (max_nesting - 1) p" "ValidQueueID (QueueID env)"
  shows "\<exists>f. deliver_frame io env = Some f \<and>
    Parse f = Inr \<lparr>Version = 1, Typ = TypeDeliver, QueueID = QueueID env, MsgID = to_valid_utf8 (send_mid io env),
      TS = clock io 2, Payload = Some (compact_out p)\<rparr>"
proof -
  have s: "sendable (RawMessage (Payload env))" using assms(2,3) by (simp add: sendable_def)
  have "payload_text (RawMessage (Payload env)) = compact_out p"
    using assms(2) json_compact_text [OF json_text_mono [OF assms(3), of max_nesting]]
    by (simp add: payload_text_def)
  moreover have "to_valid_utf8 TypeDeliver = TypeDeliver" by (rule ascii_valid_utf8) (simp add: proto_simps is_ascii_def)
  ultimately show ?thesis
    using frame_of_sendable [OF s] frame_of_Parse [OF s io_ok_clock [OF assms(1), of 2], of TypeDeliver]
      ValidQueueID_utf8 [OF assms(4)]
    by (auto simp: deliver_frame_def)
qed

subsection \<open>SUB\<close>

definition replay_frame :: "io \<Rightarrow> string \<Rightarrow> nat \<times> stored_message \<Rightarrow> string option" where
  "replay_frame io q im =
     frame_of (clock io (2 + fst im)) TypeDeliver q (Mid (snd im)) (RawMessage (Some (Body (snd im))))"

definition replay_frames :: "io \<Rightarrow> string \<Rightarrow> stored_message list \<Rightarrow> string list" where
  "replay_frames io q msgs = concat (map (\<lambda>im. opt_list (replay_frame io q im)) (List.enumerate 0 msgs))"

lemma take_append_take: "take n (take n xs @ ys) = take n (xs @ ys)"
  by (simp add: min_def)

lemma replay_fold:
  assumes "\<not> closed (conns h c)" "length (buf (conns h c)) \<le> sendCap"
  shows "fold_outcome (replay_one io c q) ims h =
    Ret (h\<lparr>conns := (conns h)(c := (conns h c)\<lparr>buf :=
       take sendCap (buf (conns h c) @ concat (map (\<lambda>im. opt_list (replay_frame io q im)) ims))\<rparr>)\<rparr>)"
  using assms
proof (induction ims arbitrary: h)
  case (Cons im ims)
  let ?h1 = "post c (replay_frame io q im) h"
  let ?X = "concat (map (\<lambda>im. opt_list (replay_frame io q im)) ims)"
  have "replay_one io c q im h = Ret ?h1"
    using Cons.prems by (simp add: replay_one_def send_to_open replay_frame_def)
  then have "fold_outcome (replay_one io c q) (im # ims) h = fold_outcome (replay_one io c q) ims ?h1"
    by simp
  also have "\<dots> = Ret (?h1\<lparr>conns := (conns ?h1)(c := (conns ?h1 c)\<lparr>buf := take sendCap (buf (conns ?h1 c) @ ?X)\<rparr>)\<rparr>)"
    using Cons.prems by (intro Cons.IH) simp_all
  also have "?h1\<lparr>conns := (conns ?h1)(c := (conns ?h1 c)\<lparr>buf := y\<rparr>)\<rparr>
      = h\<lparr>conns := (conns h)(c := (conns h c)\<lparr>buf := y\<rparr>)\<rparr>" for y
    by (simp add: post_def split: option.split)
  also have "take sendCap (buf (conns ?h1 c) @ ?X)
      = take sendCap (buf (conns h c) @ concat (map (\<lambda>im. opt_list (replay_frame io q im)) (im # ims)))"
    using Cons.prems by (simp add: take_append_take del: take_append)
  finally show ?case .
qed simp

text \<open>The subscriber's channel after a SUB: the answer, then the pending messages while there is room.\<close>

definition sub_ok_frame :: "io \<Rightarrow> string \<Rightarrow> string option" where
  "sub_ok_frame io q = frame_of (clock io 0) TypeSubOk q [] NoPayload"

lemma find_queue_others: "find_queue io q h = Inr (qs, h') \<Longrightarrow> p \<noteq> q \<Longrightarrow> map_of (queues h') p = map_of (queues h) p"
  by (auto simp: find_queue_def Let_def update_conv' split: option.splits if_splits bool.splits)

lemma handle_sub_ok:
  assumes g: "good C h" and ok: "io_ok io" and c: "c \<in> C"
    and fq: "find_queue io (QueueID env) h = Inr (qs, h1)"
    and own: "owner qs \<noteq> Some c" and alone: "sub qs = None \<or> sub qs = Some c"
    and f: "\<not> f_undelivered io"
  shows "\<exists>h'. handle_sub io c env h = Ret h' \<and>
    buf (conns h' c) = take sendCap (buf (conns h c) @ opt_list (sub_ok_frame io (QueueID env))
       @ replay_frames io (QueueID env) (pending (db h) (QueueID env))) \<and>
    (\<forall>d. d \<noteq> c \<longrightarrow> conns h' d = conns h d) \<and>
    map_of (queues h') (QueueID env) = Some (qs\<lparr>sub := Some c\<rparr>) \<and>
    messages_tab (db h') = messages_tab (db h) \<and>
    (\<forall>p. p \<noteq> QueueID env \<longrightarrow> map_of (queues h') p = map_of (queues h) p)"
proof -
  note fr = find_queue_frame [OF fq]
  note g1 = good_find [OF g fq]
  let ?q = "QueueID env"
  have k: "kick_previous c qs h1 = Ret h1" using alone by (auto simp: kick_previous_def)
  have g2: "good C (set_sub ?q c h1)" by (rule good_set_sub [OF g1 c])
  let ?h3 = "post c (sub_ok_frame io ?q) (set_sub ?q c h1)"
  have g3: "good C ?h3"
    unfolding sub_ok_frame_def using g2 c ok by (intro good_post io_ok_clock) simp_all
  have s: "send_to c (clock io 0) TypeSubOk ?q [] NoPayload (set_sub ?q c h1) = Ret ?h3"
    using send_to_good [OF g2 c] by (simp add: sub_ok_frame_def)
  define h4 where "h4 = ?h3\<lparr>conns := (conns ?h3)(c := (conns ?h3 c)\<lparr>buf :=
       take sendCap (buf (conns ?h3 c) @ replay_frames io ?q (pending (db h) ?q))\<rparr>)\<rparr>"
  have r: "replayOffline io c ?q ?h3 = Ret h4"
    using good_open [OF g3 c] f fr(3)
    by (simp add: replayOffline_def replay_fold replay_frames_def h4_def)
  have "handle_sub io c env h = Ret (touch io (clock io 1) ?q h4)"
    using fq own k s r by (simp add: handle_sub_def Let_def)
  moreover have "buf (conns h4 c) = take sendCap (buf (conns h c) @ opt_list (sub_ok_frame io ?q)
       @ replay_frames io ?q (pending (db h) ?q))"
    using good_open [OF g2 c] fr(2) by (simp add: h4_def take_append_take del: take_append)
  moreover have "map_of (queues h4) ?q = Some (qs\<lparr>sub := Some c\<rparr>)"
    using fr(4) by (simp add: h4_def set_sub_def update_conv')
  moreover have "\<forall>d. d \<noteq> c \<longrightarrow> conns h4 d = conns h d" using fr(2) by (simp add: h4_def)
  moreover have "messages_tab (db h4) = messages_tab (db h)" using fr(3) by (simp add: h4_def)
  moreover have "\<forall>p. p \<noteq> ?q \<longrightarrow> map_of (queues h4) p = map_of (queues h) p"
    using find_queue_others [OF fq] by (simp add: h4_def set_sub_def update_conv' split: option.split)
  ultimately show ?thesis by simp
qed

subsection \<open>NEW\<close>

definition new_ok_frame :: "io \<Rightarrow> string \<Rightarrow> string option" where
  "new_ok_frame io q = frame_of (clock io 2) TypeNewOk q [] (NewOkMessage q)"

lemma new_ok_decodes:
  assumes "io_ok io" "ValidQueueID q"
  shows "\<exists>f e. new_ok_frame io q = Some f \<and> Parse f = Inr e \<and> Typ e = TypeNewOk \<and> decode_new_ok e = (q, False)"
proof -
  have s: "sendable (NewOkMessage q)" by (simp add: sendable_def)
  let ?raw = "enc_object [(''qid'', enc_string q)]"
  have raw: "payload_text (NewOkMessage q) = ?raw" by (simp add: payload_text_def)
  have "\<forall>(k, t) \<in> set [(''qid'', enc_string q)]. json_text 0 t" by simp
  from json_parse_text [OF enc_object_at(1) [OF _ this, of max_nesting]]
    enc_object_at(2) [OF _ this, of max_nesting]
  have "json_parse ?raw = Some (JObj [(esc_string ''qid'', JStr (esc_string q), enc_string q)])" by simp
  then have "unmarshal [''qid''] (\<lambda>_ v _. put_string v) ?raw [] = (q, False)"
    using ValidQueueID_utf8 [OF assms(2)]
    by (simp add: unmarshal_def field_of_exact is_ascii_def)
  moreover have "to_valid_utf8 TypeNewOk = TypeNewOk" by (rule ascii_valid_utf8) (simp add: proto_simps is_ascii_def)
  ultimately show ?thesis
    using frame_of_sendable [OF s] frame_of_Parse [OF s io_ok_clock [OF assms(1), of 2], of TypeNewOk q "[]"]
    by (auto simp: new_ok_frame_def decode_new_ok_def payload_bytes_def raw)
qed

lemma handle_new_ok:
  assumes g: "good C h" and ok: "io_ok io" and c: "c \<in> C"
    and q: "QueueID env = []" "NewID (rnd io) = Some q"
    and cr: "CreateQueue (f_create io) q (clock io 0) (db h) = Some s"
  shows "\<exists>h'. handle_new io c env h = Ret h' \<and>
    map_of (queues h') q = Some \<lparr>owner = Some c, sub = None\<rparr> \<and> q \<in> qids (db h') \<and>
    buf (conns h' c) = take sendCap (buf (conns h c) @ opt_list (new_ok_frame io q)) \<and>
    (\<forall>d. d \<noteq> c \<longrightarrow> conns h' d = conns h d) \<and>
    messages_tab (db h') = messages_tab (db h) \<and> qids (db h') = insert q (qids (db h)) \<and>
    (\<forall>p. p \<noteq> q \<longrightarrow> map_of (queues h') p = map_of (queues h) p)"
proof -
  have v: "ValidQueueID q"
    using q(2) ok NewID_valid by (auto simp: io_ok_def NewID_def split: option.splits)
  let ?h1 = "touch io (clock io 1) q (h\<lparr>db := s\<rparr>)"
  let ?h2 = "?h1\<lparr>queues := AList.update q \<lparr>owner = Some c, sub = None\<rparr> (queues ?h1)\<rparr>"
  have "db_inv s" using g cr by (auto simp: good_def hub_inv_def intro: db_inv_create)
  then have g1: "good C ?h1" using g by (intro good_touch good_db)
  have g2: "good C ?h2" by (rule good_update [OF g1 v]) (simp add: uses_def c)
  have e: "handle_new io c env h = Ret (post c (new_ok_frame io q) ?h2)"
    using q cr ValidQueueID_length [OF v] send_to_good [OF g2 c]
    by (simp add: handle_new_def Let_def slice8_def new_ok_frame_def)
  have "qids (db ?h1) = insert q (qids (db h))"
    using TouchQueue_frame(1) [of "f_touch io" q "clock io 1" s] CreateQueue_frame [OF cr] by (simp add: touch_def split: option.split)
  then show ?thesis
    using e good_open [OF g2 c] CreateQueue_frame [OF cr] by (simp add: update_conv')
qed

subsection \<open>Isolation\<close>

text \<open>A command reaches the channels of the sender and of the queue's subscriber, no other.\<close>

definition only :: "nat set \<Rightarrow> hub \<Rightarrow> hub_outcome \<Rightarrow> bool" where
  "only D h m \<longleftrightarrow> (\<forall>h'. m = Ret h' \<longrightarrow> (\<forall>d. d \<notin> D \<longrightarrow> conns h' d = conns h d))"

lemma only_Ret: "conns h' = conns h \<Longrightarrow> only D h (Ret h')"
  by (simp add: only_def)

lemma only_bind: "only D h m \<Longrightarrow> (\<And>h'. only D h' (f h')) \<Longrightarrow> only D h (bind_outcome m f)"
  by (cases m) (auto simp: only_def)

lemma only_on_conn: "c \<in> D \<Longrightarrow> only D h (on_conn c f h)"
  by (auto simp: only_def on_conn_Ret)

lemma only_send: "c \<in> D \<Longrightarrow> only D h (send_to c now t q m pl h)"
  by (simp add: send_to_def only_on_conn)

lemma only_error: "c \<in> D \<Longrightarrow> only D h (error_to c now code msg h)"
  by (simp add: error_to_def only_on_conn)

lemma only_slice8: "only D h (slice8 s h)"
  by (simp add: only_def slice8_def)

lemma only_cong: "conns h1 = conns h \<Longrightarrow> only D h1 m \<Longrightarrow> only D h m"
  by (simp add: only_def)

lemma only_kick: "c \<in> D \<Longrightarrow> only D h (kick c h)"
  by (auto simp: kick_def only_def on_conn_Ret split: if_splits)

lemma only_fold: "(\<And>x h. only D h (f x h)) \<Longrightarrow> only D h (fold_outcome f xs h)"
  by (induction xs arbitrary: h) (auto intro: only_bind only_Ret)

lemma only_replay: "c \<in> D \<Longrightarrow> only D h (replayOffline io c q h)"
  by (auto simp: replayOffline_def replay_one_def intro!: only_Ret only_fold only_send split: option.split)

definition touched :: "nat \<Rightarrow> envelope \<Rightarrow> hub \<Rightarrow> nat set" where
  "touched from env h = insert from {d. \<exists>qs. map_of (queues h) (QueueID env) = Some qs \<and> sub qs = Some d}"

lemma find_queue_sub:
  "find_queue io (QueueID env) h = Inr (qs, h1) \<Longrightarrow> sub qs = Some d \<Longrightarrow> d \<in> touched c env h"
  by (auto simp: find_queue_def Let_def touched_def split: option.splits if_splits bool.splits)

lemma only_handle: "only (touched c env h) h (handle io c env h)"
proof -
  let ?D = "touched c env h"
  have c: "c \<in> ?D" by (simp add: touched_def)
  have new: "only ?D h (handle_new io c env h)"
    by (auto simp: handle_new_def Let_def intro!: only_error c only_bind only_cong [OF _ only_slice8] only_send split: option.split)
  have sub: "only ?D h (handle_sub io c env h)"
  proof (cases "find_queue io (QueueID env) h")
    case (Inl e)
    then show ?thesis by (cases e) (simp add: handle_sub_def only_error c)
  next
    case (Inr x)
    then obtain qs h1 where fq: "find_queue io (QueueID env) h = Inr (qs, h1)" by (cases x) auto
    have k: "only ?D h1 (kick_previous c qs h1)"
      using find_queue_sub [OF fq] by (auto simp: kick_previous_def intro: only_kick only_Ret split: option.split)
    have s: "only ?D h2 (send_to c t ty q m pl (set_sub q c h2))" for h2 t ty q m pl
      by (rule only_cong [OF _ only_send [OF c]]) simp
    have "only ?D h1 (handle_sub io c env h)"
      using fq by (auto simp: handle_sub_def Let_def intro!: only_error c only_bind k s only_replay only_Ret)
    then show ?thesis by (rule only_cong [OF find_queue_frame(2) [OF fq]])
  qed
  have send: "only ?D h (handle_send io c env h)"
  proof (cases "find_queue io (QueueID env) h")
    case (Inl e)
    then show ?thesis by (cases e) (simp add: handle_send_def only_error c)
  next
    case (Inr x)
    then obtain qs h1 where fq: "find_queue io (QueueID env) h = Inr (qs, h1)" by (cases x) auto
    have s8: "only ?D h1 (slice8 x (touch io t q (h1\<lparr>db := s\<rparr>)))" for x t q s
      by (rule only_cong [OF _ only_slice8]) simp
    have sd: "only ?D h1 (send_to d t' ty q' m pl (touch io t q (h1\<lparr>db := s\<rparr>)))" if "sub qs = Some d" for d t' ty q' m pl t q s
      by (rule only_cong [OF _ only_send [OF find_queue_sub [OF fq that]]]) simp
    have "only ?D h1 (handle_send io c env h)"
      using fq by (auto simp: handle_send_def Let_def split: option.split
          intro!: only_error c only_bind s8 only_slice8 intro: sd only_send [OF c])
    then show ?thesis by (rule only_cong [OF find_queue_frame(2) [OF fq]])
  qed
  have ack: "only ?D h (handle_ack io env h)"
    by (auto simp: handle_ack_def intro!: only_bind only_slice8 only_Ret only_cong [OF _ only_slice8, of _ h]
        split: option.split)
  show ?thesis using new sub send ack by (auto simp: handle_def only_error c)
qed

subsection \<open>What kicking leaves behind\<close>

lemma kick_closes:
  "good C h \<Longrightarrow> d \<in> C \<Longrightarrow> \<exists>h'. kick d h = Ret h' \<and> closed (conns h' d) \<and> queues h' = queues h \<and> db h' = db h"
  by (auto simp: kick_def on_conn_def chan_close_def good_def hub_inv_def)

lemma replay_frame_of:
  assumes "\<not> closed (conns h c)" "length (buf (conns h c)) \<le> sendCap"
  obtains h' where "replayOffline io c q h = Ret h'" "queues h' = queues h" "clients h' = clients h"
    "db h' = db h" "\<And>d. d \<noteq> c \<Longrightarrow> conns h' d = conns h d"
  using replay_fold [OF assms] that by (cases "Undelivered (f_undelivered io) q (db h)") (auto simp: replayOffline_def)

lemma sub_kicks:
  assumes g: "good C h" and c: "c \<in> C" and d: "d \<in> C" "d \<noteq> c"
    and m: "map_of (queues h) (QueueID env) = Some qs" "sub qs = Some d" "owner qs \<noteq> Some c"
  shows "\<exists>h1. handle_sub io c env h = Ret h1 \<and> clients h1 = C - {d} \<and> closed (conns h1 d) \<and>
    buf (conns h1 d) = buf (conns h d) \<and>
    queues h1 = AList.update (QueueID env) (qs\<lparr>sub := Some c\<rparr>) (queues h) \<and>
    same_mail (db h1) (db h)"
proof -
  let ?q = "QueueID env"
  have v: "ValidQueueID ?q" using map_of_valid [OF _ m(1)] g by (simp add: good_def hub_inv_def)
  then have fq: "find_queue io ?q h = Inr (qs, h)" using m(1) by (simp add: find_queue_def)
  have o: "\<not> closed (conns h d)" "clients h = C" using g d by (auto simp: good_def hub_inv_def)
  define h2 where "h2 = h\<lparr>clients := C - {d}, conns := (conns h)(d := (conns h d)\<lparr>closed := True\<rparr>)\<rparr>"
  have k: "kick_previous c qs h = Ret h2"
    using m(2) d o by (simp add: kick_previous_def kick_def on_conn_def chan_close_def h2_def)
  have oc: "\<not> closed (conns h2 c)" "length (buf (conns h2 c)) \<le> sendCap"
    using good_open [OF g c] d(2) by (auto simp: h2_def)
  define h3 where "h3 = post c (frame_of (clock io 0) TypeSubOk ?q [] NoPayload) (set_sub ?q c h2)"
  have s: "send_to c (clock io 0) TypeSubOk ?q [] NoPayload (set_sub ?q c h2) = Ret h3"
    using oc by (simp add: send_to_open h3_def)
  have "\<not> closed (conns h3 c)" "length (buf (conns h3 c)) \<le> sendCap" using oc by (simp_all add: h3_def)
  then obtain h4 where r: "replayOffline io c ?q h3 = Ret h4" "queues h4 = queues h3" "clients h4 = clients h3"
    "db h4 = db h3" "\<And>d. d \<noteq> c \<Longrightarrow> conns h4 d = conns h3 d"
    by (rule replay_frame_of [of h3 c io ?q]) (rule that)
  have "handle_sub io c env h = Ret (touch io (clock io 1) ?q h4)"
    using fq m(3) k s r(1) by (simp add: handle_sub_def Let_def)
  moreover have "queues h3 = AList.update ?q (qs\<lparr>sub := Some c\<rparr>) (queues h)"
    using m(1) by (simp add: h3_def set_sub_def h2_def)
  moreover have "db h3 = db h" by (simp add: h3_def h2_def)
  moreover have "same_mail (db (touch io (clock io 1) ?q h4)) (db h)"
    using same_mail_touch [of io "clock io 1" ?q h4] r(4) calculation(3) by simp
  ultimately show ?thesis
    using r d(2) by (simp add: h3_def h2_def)
qed

text \<open>A SEND to a queue whose subscriber's channel is closed ends the process.\<close>

lemma send_to_kicked:
  assumes fq: "find_queue io (QueueID env) h = Inr (qs, h1)" and d: "sub qs = Some d" "closed (conns h d)"
    and sv: "SaveMessage (f_save io) (fk_on io) (sent_message io env) (db h) = Some s"
    and p: "env_ok env"
  shows "is_panic (handle_send io c env h)"
proof -
  note fr = find_queue_frame [OF fq]
  have "sendable (RawMessage (Payload env))" using p by (auto simp: sendable_def env_ok_def split: option.split)
  then have "frame_of now t q m (RawMessage (Payload env)) \<noteq> None" for now t q m
    using frame_of_sendable by auto
  then have "is_panic (send_to d now t q m (RawMessage (Payload env)) (touch io u q' (h1\<lparr>db := s\<rparr>)))" for now t q m u q'
    using d fr(2) by (simp add: send_to_panic)
  then show ?thesis
    using fq d sv fr(3) by (simp add: handle_send_def Let_def is_panic_bind)
qed

text \<open>Any command that makes the hub answer a kicked connection does too.\<close>

lemma reply_to_kicked: "closed (conns h c) \<Longrightarrow> is_panic (error_to c now code msg h)"
proof -
  assume "closed (conns h c)"
  moreover have "frame_of now TypeError [] [] (ErrorMessage code msg) \<noteq> None"
    using frame_of_sendable [of "ErrorMessage code msg"] by (simp add: sendable_def)
  ultimately show ?thesis by (simp add: error_to_send send_to_panic)
qed

end
