(* ===== verification/Relay.thy ===== *)
theory Relay
  imports Hub_Behaviour
begin

text \<open>
  The relay as a whole (\<open>server/main.go\<close> and the pumps of \<open>server/client.go\<close> around the hub): one
  reader and one writer goroutine per connection, the hub's goroutine, the sweeper, a crash, a kill, a
  restart on the same file.  A step is one turn of one goroutine; unbuffered channels make a
  reader wait (\<open>Handing\<close>, \<open>Leaving\<close>) until the hub takes what it offers.
\<close>

subsection \<open>State\<close>

datatype reader = NotConnected | Reading | Handing envelope | Leaving | Gone

record relay =
  core :: hub
  readers :: "nat \<Rightarrow> reader"
  writing :: "nat \<Rightarrow> bool"
  socket :: "nat \<Rightarrow> wire list"

datatype process = Up relay | Down store

definition queueTTL :: int where "queueTTL = 7 * 24 * 3600"
definition ackGrace :: int where "ackGrace = 24 * 3600"
definition sweepEvery :: int where "sweepEvery = 3600"

definition new_relay :: "store \<Rightarrow> relay" where
  "new_relay s = \<lparr>core = NewHub s, readers = (\<lambda>_. NotConnected), writing = (\<lambda>_. False), socket = (\<lambda>_. [])\<rparr>"

definition disk :: "process \<Rightarrow> store" where
  "disk p = (case p of Up r \<Rightarrow> db (core r) | Down s \<Rightarrow> s)"

subsection \<open>Steps\<close>

text \<open>\<open>sweepLoop\<close>: one tick, whose result is only logged.\<close>

definition sweep_tick :: "bool \<times> bool \<times> bool \<Rightarrow> bool \<Rightarrow> int \<Rightarrow> store \<Rightarrow> store" where
  "sweep_tick faults fk now s = fst (Sweep faults fk now queueTTL ackGrace s)"

definition set_reader :: "nat \<Rightarrow> reader \<Rightarrow> relay \<Rightarrow> relay" where
  "set_reader c x r = r\<lparr>readers := (readers r)(c := x)\<rparr>"

text \<open>A turn of the hub: the process goes on with the new hub or is down with what is on disk.\<close>

definition after_turn :: "hub_outcome \<Rightarrow> relay \<Rightarrow> process" where
  "after_turn m r = (case m of Panic s \<Rightarrow> Down s | Ret h \<Rightarrow> Up (r\<lparr>core := h\<rparr>))"

text \<open>\<open>serveWS\<close>: a fresh channel, registered with the hub, and the two pumps started.\<close>

definition serveWS :: "nat \<Rightarrow> relay \<Rightarrow> process" where
  "serveWS c r =
     after_turn (hub_register c ((core r)\<lparr>conns := (conns (core r))(c := new_client)\<rparr>))
       (set_reader c Reading (r\<lparr>writing := (writing r)(c := True), socket := (socket r)(c := [])\<rparr>))"

definition read_turn :: "(string \<Rightarrow> string) \<Rightarrow> int \<Rightarrow> nat \<Rightarrow> string \<Rightarrow> relay \<Rightarrow> process" where
  "read_turn jerr now c data r =
     (case read_frame jerr now data (conns (core r) c) of
        Panic _ \<Rightarrow> Down (db (core r))
      | Ret (x, m) \<Rightarrow>
          Up (set_reader c (case m of None \<Rightarrow> Reading | Some env \<Rightarrow> Handing env)
                (r\<lparr>core := (core r)\<lparr>conns := (conns (core r))(c := x)\<rparr>\<rparr>)))"

definition put_wire :: "nat \<Rightarrow> client \<times> wire list \<times> bool \<Rightarrow> relay \<Rightarrow> relay" where
  "put_wire c out r =
     (case out of (x, ws, go) \<Rightarrow>
        r\<lparr>core := (core r)\<lparr>conns := (conns (core r))(c := x)\<rparr>,
          socket := (socket r)(c := socket r c @ ws), writing := (writing r)(c := go)\<rparr>)"

datatype event =
    Accept nat
  | Frame nat int string
  | ReadFails nat
  | HubRoute nat io
  | HubDrop nat
  | WriteTurn nat bool bool
  | SweepTick "bool \<times> bool \<times> bool" bool int
  | Kill
  | Restart

inductive relay_step :: "(string \<Rightarrow> string) \<Rightarrow> process \<Rightarrow> event \<Rightarrow> process \<Rightarrow> bool"
  for jerr :: "string \<Rightarrow> string"
where
  accept: "readers r c = NotConnected \<Longrightarrow> relay_step jerr (Up r) (Accept c) (serveWS c r)"
| frame: "readers r c = Reading \<Longrightarrow> length data \<le> maxMsgSize \<Longrightarrow>
     relay_step jerr (Up r) (Frame c now data) (read_turn jerr now c data r)"
| read_fails: "readers r c = Reading \<Longrightarrow>
     relay_step jerr (Up r) (ReadFails c) (Up (set_reader c Leaving r))"
| route: "readers r c = Handing env \<Longrightarrow>
     relay_step jerr (Up r) (HubRoute c io)
       (after_turn (hub_turn io (Route c env) (core r)) (set_reader c Reading r))"
| drop_conn: "readers r c = Leaving \<Longrightarrow>
     relay_step jerr (Up r) (HubDrop c)
       (after_turn (hub_unregister c (core r)) (set_reader c Gone r))"
| write_out: "writing r c \<Longrightarrow> write_turn tick ok (conns (core r) c) = Some out \<Longrightarrow>
     relay_step jerr (Up r) (WriteTurn c tick ok) (Up (put_wire c out r))"
| sweep: "relay_step jerr (Up r) (SweepTick faults fk now)
     (Up (r\<lparr>core := (core r)\<lparr>db := sweep_tick faults fk now (db (core r))\<rparr>\<rparr>))"
| kill: "relay_step jerr (Up r) Kill (Down (db (core r)))"
| restart: "Open False False False (database_of s) = (d, Some s') \<Longrightarrow>
     relay_step jerr (Down s) Restart (Up (new_relay s'))"

inductive_cases relay_stepE [consumes 1, case_names accept frame read_fails route drop_conn write_out sweep kill restart]:
  "relay_step jerr p e p'"

inductive_cases stepE_sweep [elim]: "relay_step jerr p (SweepTick fs fk now) p'"
inductive_simps step_restart_iff: "relay_step jerr (Down s) e p'"
inductive_simps step_kill_iff: "relay_step jerr p Kill p'"

text \<open>What the machine guarantees of a step: clock readings fit, random identifiers have 16 bytes.\<close>

definition event_ok :: "process \<Rightarrow> event \<Rightarrow> bool" where
  "event_ok p e =
     (case e of HubRoute c io \<Rightarrow> io_ok io | Frame c now data \<Rightarrow> int64_range now | _ \<Rightarrow> True)"

subsection \<open>The invariant of the relay\<close>

definition wire_ok :: "wire \<Rightarrow> bool" where
  "wire_ok w \<longleftrightarrow> (case w of TextMsg f \<Rightarrow> \<exists>e. Parse f = Inr e | _ \<Rightarrow> True)"

definition relay_inv :: "process \<Rightarrow> bool" where
  "relay_inv p \<longleftrightarrow>
     (case p of
        Down s \<Rightarrow> db_inv s
      | Up r \<Rightarrow> hub_inv (core r) \<and> (\<forall>c env. readers r c = Handing env \<longrightarrow> env_ok env) \<and>
               (\<forall>c. \<forall>w \<in> set (socket r c). wire_ok w))"

lemma relay_inv_new: "db_inv s \<Longrightarrow> relay_inv (Up (new_relay s))"
  by (simp add: relay_inv_def new_relay_def hub_inv_New)

lemma relay_inv_turn:
  "safe m \<Longrightarrow> relay_inv (Up r) \<Longrightarrow> (\<And>env. x \<noteq> Handing env) \<Longrightarrow> relay_inv (after_turn m (set_reader c x r))"
  by (cases m) (auto simp: after_turn_def relay_inv_def set_reader_def safe_def)

lemma hub_inv_conn: "hub_inv h \<Longrightarrow> conn_inv x \<Longrightarrow> closed x = closed (conns h c) \<Longrightarrow> hub_inv (h\<lparr>conns := (conns h)(c := x)\<rparr>)"
  by (auto simp: hub_inv_def)

lemma db_inv_sweep:
  assumes "db_inv s" shows "db_inv (sweep_tick fs fk now s)"
proof -
  have nd: "none_delivered s" and si: "store_inv s" using assms by (simp_all add: db_inv_def)
  have "set (messages_tab (sweep_tick fs fk now s)) \<subseteq> set (messages_tab s)"
    unfolding sweep_tick_def
    by (rule Sweep_cases [OF nd, of fs fk now queueTTL ackGrace]) (auto simp: swept_def)
  then show ?thesis
    using assms store_inv_sweep [OF nd si] none_delivered_sweep [OF nd]
    by (auto simp: db_inv_def sweep_tick_def)
qed

lemma write_turn_wire:
  "conn_inv x \<Longrightarrow> write_turn tick ok x = Some (x', ws, go) \<Longrightarrow> \<forall>w \<in> set ws. wire_ok w"
  by (auto simp: write_turn_def conn_inv_def wire_ok_def split: if_splits list.splits)

theorem relay_inv_step:
  assumes "relay_step jerr p e p'" "relay_inv p" "event_ok p e"
  shows "relay_inv p'"
  using assms
proof (cases rule: relay_stepE)
  case (accept r c)
  have "hub_inv ((core r)\<lparr>conns := (conns (core r))(c := new_client)\<rparr>)"
    using assms(2) accept by (auto simp: relay_inv_def hub_inv_def conn_inv_new)
  then have "safe (hub_register c ((core r)\<lparr>conns := (conns (core r))(c := new_client)\<rparr>))"
    by (intro safe_register) simp_all
  with assms(2) accept show ?thesis
    unfolding accept serveWS_def by (intro relay_inv_turn) (auto simp: relay_inv_def)
next
  case (frame r c data now)
  show ?thesis
  proof (cases "read_frame jerr now data (conns (core r) c)")
    case (Panic u)
    with frame assms(2) show ?thesis by (simp add: read_turn_def relay_inv_def hub_inv_def)
  next
    case (Ret xm)
    obtain x m where xm: "xm = (x, m)" by (cases xm)
    note rf = read_frame_RetD [OF Ret [unfolded xm]]
    have h: "hub_inv (core r)" using assms(2) frame by (simp add: relay_inv_def)
    have "conn_inv x" "closed x = closed (conns (core r) c)"
      using rf(1,3) h frame assms(3) by (auto simp: hub_inv_def event_ok_def)
    from hub_inv_conn [OF h this] show ?thesis
      using rf(2) Parse_env_ok frame assms(2) Ret xm
      by (auto simp: read_turn_def relay_inv_def set_reader_def split: option.split)
  qed
next
  case (read_fails r c)
  with assms(2) show ?thesis by (auto simp: relay_inv_def set_reader_def)
next
  case (route r c env io)
  then have "safe (hub_turn io (Route c env) (core r))"
    using assms(2,3) by (auto simp: hub_turn_def relay_inv_def event_ok_def intro!: safe_handle)
  from relay_inv_turn [OF this] route assms(2) show ?thesis by auto
next
  case (drop_conn r c)
  then have "safe (hub_unregister c (core r))"
    using assms(2) by (auto simp: relay_inv_def intro: safe_unregister)
  from relay_inv_turn [OF this] drop_conn assms(2) show ?thesis by auto
next
  case (write_out r c tick ok out)
  obtain x ws go where out: "out = (x, ws, go)" by (cases out)
  have h: "hub_inv (core r)" and ci: "conn_inv (conns (core r) c)"
    using assms(2) write_out by (auto simp: relay_inv_def hub_inv_def)
  from conn_inv_write [OF ci] write_turn_wire [OF ci] write_out out
  have "conn_inv x" "closed x = closed (conns (core r) c)" "\<forall>w \<in> set ws. wire_ok w" by auto
  with hub_inv_conn [OF h this(1,2)] write_out out assms(2) show ?thesis
    by (auto simp: relay_inv_def put_wire_def)
next
  case (sweep r faults fk now)
  with assms(2) show ?thesis by (auto simp: relay_inv_def hub_inv_def intro: db_inv_sweep)
next
  case (kill r)
  with assms(2) show ?thesis by (simp add: relay_inv_def hub_inv_def)
next
  case (restart s d s')
  with assms(2) show ?thesis by (simp add: Open_database_of relay_inv_def [of "Down s"] relay_inv_new)
qed

subsection \<open>The specification: a mailbox\<close>

text \<open>
  What the relay is for, without connections, frames, processes or crashes: a set of queues and a set of
  messages waiting in them.
\<close>

record mailbox =
  boxes :: "string set"
  mail :: "stored_message set"

datatype mail_op =
    Skip
  | MkQueue string
  | Deposit stored_message
  | Withdraw string
  | Clear "string set"
  | Expire "string set"

fun mail_step :: "mail_op \<Rightarrow> mailbox \<Rightarrow> mailbox" where
  "mail_step Skip b = b"
| "mail_step (MkQueue q) b = b\<lparr>boxes := insert q (boxes b)\<rparr>"
| "mail_step (Deposit m) b = b\<lparr>mail := insert m (mail b)\<rparr>"
| "mail_step (Withdraw i) b = b\<lparr>mail := {m \<in> mail b. Mid m \<noteq> i}\<rparr>"
| "mail_step (Clear Q) b = b\<lparr>mail := {m \<in> mail b. QID m \<notin> Q}\<rparr>"
| "mail_step (Expire Q) b = \<lparr>boxes = boxes b - Q, mail = {m \<in> mail b. QID m \<notin> Q}\<rparr>"

definition mailbox_of :: "store \<Rightarrow> mailbox" where
  "mailbox_of s = \<lparr>boxes = qids s, mail = row_msg ` set (messages_tab s)\<rparr>"

text \<open>The operations an event may amount to.\<close>

definition command_ops :: "io \<Rightarrow> envelope \<Rightarrow> store \<Rightarrow> mail_op set" where
  "command_ops io env s =
     (if Typ env = TypeNew then (case NewID (rnd io) of None \<Rightarrow> {Skip} | Some q \<Rightarrow> {Skip, MkQueue q})
      else if Typ env = TypeSend then
        insert Skip (if send_mid io env \<notin> row_mid ` set (messages_tab s) \<and> (fk_on io \<longrightarrow> QueueID env \<in> qids s)
                     then {Deposit (sent_message io env)} else {})
      else if Typ env = TypeAck then {Skip, Withdraw (MsgID env)}
      else {Skip})"

definition event_ops :: "process \<Rightarrow> event \<Rightarrow> mail_op set" where
  "event_ops p e =
     (case (p, e) of
        (Up r, HubRoute c io) \<Rightarrow> (case readers r c of Handing env \<Rightarrow> command_ops io env (db (core r)) | _ \<Rightarrow> {Skip})
      | (Up r, SweepTick faults fk now) \<Rightarrow>
          (let Q = expired_qids (now - queueTTL) (db (core r)) in {Skip, Clear Q, Expire Q})
      | _ \<Rightarrow> {Skip})"

lemma mailbox_same: "same_mail s s' \<Longrightarrow> mailbox_of s = mailbox_of s'"
  by (simp add: mailbox_of_def same_mail_def)

lemma mailbox_create: "CreateQueue f q t s = Some s' \<Longrightarrow> mailbox_of s' = mail_step (MkQueue q) (mailbox_of s)"
  using CreateQueue_frame [of f q t s s'] by (simp add: mailbox_of_def)

lemma mailbox_save: "SaveMessage f fk m s = Some s' \<Longrightarrow> mailbox_of s' = mail_step (Deposit m) (mailbox_of s)"
  using SaveMessage_frame [of f fk m s s'] by (simp add: mailbox_of_def qids_def)

lemma mailbox_delete: "DeleteMessage f i s = Some s' \<Longrightarrow> mailbox_of s' = mail_step (Withdraw i) (mailbox_of s)"
  using DeleteMessage_frame [of f i s s'] by (auto simp: mailbox_of_def qids_def row_mid_def)

lemma mailbox_clear:
  "mailbox_of (s\<lparr>messages_tab := filter (\<lambda>r. row_qid r \<notin> Q) (messages_tab s)\<rparr>) = mail_step (Clear Q) (mailbox_of s)"
  by (auto simp: mailbox_of_def qids_def row_qid_def)

lemma mailbox_swept:
  assumes "store_inv s"
  shows "mailbox_of (swept l s) = mail_step (Expire (expired_qids l s)) (mailbox_of s)"
proof -
  have d: "distinct (map qid_col (queues_tab s))" using assms by (simp add: store_inv_def)
  have "qid_col r \<in> expired_qids l s \<longleftrightarrow> expired l r" if "r \<in> set (queues_tab s)" for r
    using that inj_onD [OF d [unfolded distinct_map, THEN conjunct2]] by (auto simp: expired_qids_def)
  then have "qids (swept l s) = qids s - expired_qids l s"
    by (auto simp: swept_def qids_def image_iff)
  then show ?thesis by (auto simp: mailbox_of_def swept_def row_qid_def)
qed

lemma command_refines:
  "\<exists>x \<in> command_ops io env (db h). mailbox_of (store_after (handle io c env h)) = mail_step x (mailbox_of (db h))"
proof -
  have new: "\<exists>x \<in> command_ops io env (db h). mailbox_of (store_after (handle_new io c env h)) = mail_step x (mailbox_of (db h))"
    if t: "Typ env = TypeNew"
  proof (cases "\<exists>q s. QueueID env = [] \<and> NewID (rnd io) = Some q \<and> CreateQueue (f_create io) q (clock io 0) (db h) = Some s")
    case True
    then obtain q s where q: "QueueID env = []" "NewID (rnd io) = Some q"
      "CreateQueue (f_create io) q (clock io 0) (db h) = Some s" by blast
    then show ?thesis
      using t mailbox_same [OF mail_new_created [OF q]] mailbox_create [OF q(3)] by (simp add: command_ops_def)
  next
    case False
    then have "QueueID env \<noteq> [] \<or> NewID (rnd io) = None \<or>
      (\<exists>q. NewID (rnd io) = Some q \<and> CreateQueue (f_create io) q (clock io 0) (db h) = None)" by fastforce
    from store_after_new_rejected [OF this] t show ?thesis
      by (auto simp: command_ops_def split: option.split)
  qed
  have send: "\<exists>x \<in> command_ops io env (db h). mailbox_of (store_after (handle_send io c env h)) = mail_step x (mailbox_of (db h))"
    if t: "Typ env = TypeSend"
  proof (cases "send_stores io env h")
    case True
    then obtain qs h1 s where f: "find_queue io (QueueID env) h = Inr (qs, h1)"
      "SaveMessage (f_save io) (fk_on io) (sent_message io env) (db h) = Some s"
      by (auto simp: send_stores_def split: sum.splits)
    show ?thesis
      using t mailbox_same [OF mail_send_stored [OF f, of c]] mailbox_save [OF f(2)] SaveMessage_frame [OF f(2)]
      by (simp add: command_ops_def proto_simps sent_message_def)
  next
    case False
    then obtain e where "find_queue io (QueueID env) h = Inl e \<or>
      SaveMessage (f_save io) (fk_on io) (sent_message io env) (db h) = None"
      by (cases "find_queue io (QueueID env) h") (auto simp: send_stores_def)
    from store_after_send_rejected [OF this, of c] t show ?thesis
      by (simp add: command_ops_def proto_simps)
  qed
  have ack: "\<exists>x \<in> command_ops io env (db h). mailbox_of (store_after (handle_ack io env h)) = mail_step x (mailbox_of (db h))"
    if t: "Typ env = TypeAck"
    using t mailbox_delete [of "f_delete io" "MsgID env" "db h"]
    by (auto simp: command_ops_def proto_simps store_after_ack split: option.split)
  show ?thesis
    using new send ack mailbox_same [OF mail_sub, of io c env h]
    by (auto simp: handle_def keeps_db_simps command_ops_def proto_simps split: option.split)
qed

lemma disk_after_turn [simp]: "disk (after_turn m r) = store_after m"
  by (cases m) (simp_all add: after_turn_def disk_def)

lemma disk_Up [simp]: "disk (Up r) = db (core r)" "disk (Down s) = s"
  by (simp_all add: disk_def)

theorem relay_refines_mailbox:
  assumes "relay_inv p" "relay_step jerr p e p'"
  shows "\<exists>x \<in> event_ops p e. mailbox_of (disk p') = mail_step x (mailbox_of (disk p))"
  using assms(2)
proof (cases rule: relay_stepE)
  case (accept r c)
  then show ?thesis by (simp add: serveWS_def keeps_db_simps event_ops_def)
next
  case (frame r c data now)
  then show ?thesis
    by (simp add: read_turn_def event_ops_def set_reader_def split: outcome.split prod.split)
next
  case (read_fails r c)
  then show ?thesis by (simp add: event_ops_def set_reader_def)
next
  case (route r c env io)
  with command_refines [of io env "core r" c] show ?thesis by (simp add: event_ops_def hub_turn_def)
next
  case (drop_conn r c)
  then show ?thesis by (simp add: keeps_db_simps event_ops_def)
next
  case (write_out r c tick ok out)
  then show ?thesis by (simp add: put_wire_def event_ops_def split: prod.split)
next
  case (sweep r faults fk now)
  let ?l = "now - queueTTL" and ?s = "db (core r)"
  have s: "store_inv ?s" "none_delivered ?s" using assms(1) sweep by (simp_all add: relay_inv_def hub_inv_def db_inv_def)
  have e: "event_ops p e = {Skip, Clear (expired_qids ?l ?s), Expire (expired_qids ?l ?s)}"
    using sweep by (simp add: event_ops_def Let_def)
  have d: "disk p = ?s" "disk p' = fst (Sweep faults fk now queueTTL ackGrace ?s)"
    using sweep by (simp_all add: sweep_tick_def)
  show ?thesis
  proof (rule Sweep_cases [OF s(2), of faults fk now queueTTL ackGrace])
    assume "fst (Sweep faults fk now queueTTL ackGrace ?s) = ?s"
    then show ?thesis unfolding e d by simp
  next
    assume "fst (Sweep faults fk now queueTTL ackGrace ?s) =
      ?s\<lparr>messages_tab := filter (\<lambda>r. row_qid r \<notin> expired_qids ?l ?s) (messages_tab ?s)\<rparr>"
    then show ?thesis unfolding e d using mailbox_clear [of "expired_qids ?l ?s" ?s] by simp
  next
    assume "fst (Sweep faults fk now queueTTL ackGrace ?s) = swept ?l ?s"
    then show ?thesis unfolding e d using mailbox_swept [OF s(1), of ?l] by simp
  qed
next
  case (kill r)
  then show ?thesis by (simp add: event_ops_def)
next
  case (restart s d s')
  then show ?thesis by (simp add: event_ops_def Open_database_of new_relay_def NewHub_def)
qed

interpretation relay: refined_machine event_ok "relay_step jerr" relay_inv "\<lambda>p. mailbox_of (disk p)" event_ops mail_step
  for jerr
proof unfold_locales
  fix p e p'
  assume *: "relay_inv p" "event_ok p e" "relay_step jerr p e p'"
  from relay_inv_step [OF *(3,1,2)] show "relay_inv p'" .
  from relay_refines_mailbox [OF *(1,3)]
  show "\<exists>x \<in> event_ops p e. mailbox_of (disk p') = mail_step x (mailbox_of (disk p))" .
qed

subsection \<open>Retention\<close>

text \<open>
  The events that may remove a message: the hub takes an ACK that names it, or a sweep finds its queue
  expired.
\<close>

definition retires :: "stored_message \<Rightarrow> process \<Rightarrow> event \<Rightarrow> bool" where
  "retires m p e \<longleftrightarrow>
     (case (p, e) of
        (Up r, HubRoute c io) \<Rightarrow>
          (case readers r c of Handing env \<Rightarrow> Typ env = TypeAck \<and> MsgID env = Mid m | _ \<Rightarrow> False)
      | (Up r, SweepTick faults fk now) \<Rightarrow> QID m \<in> expired_qids (now - queueTTL) (db (core r))
      | _ \<Rightarrow> False)"

lemma mail_pending: "none_delivered s \<Longrightarrow> m \<in> set (pending s q) \<longleftrightarrow> m \<in> mail (mailbox_of s) \<and> QID m = q"
  by (auto simp: set_pending mailbox_of_def none_delivered_def row_qid_def)

lemma relay_inv_none_delivered: "relay_inv p \<Longrightarrow> none_delivered (disk p)"
  by (cases p) (simp_all add: relay_inv_def hub_inv_def db_inv_def)

lemma retires_ops:
  "\<not> retires m p e \<Longrightarrow> x \<in> event_ops p e \<Longrightarrow> m \<in> mail b \<Longrightarrow> m \<in> mail (mail_step x b)"
  by (auto simp: retires_def event_ops_def command_ops_def Let_def
      split: process.splits event.splits reader.splits if_splits option.splits)

lemma kept_until_retired:
  assumes "relay_inv p" and "m \<in> set (pending (disk p) q)"
    and "reaches (\<lambda>p e. event_ok p e \<and> \<not> retires m p e) (relay_step jerr) p p'"
  shows "m \<in> set (pending (disk p') q)"
proof -
  have q: "QID m = q" using assms(2) by (rule pending_qid)
  have "m \<in> mail (mailbox_of (disk p))"
    using assms(1,2) relay_inv_none_delivered mail_pending by blast
  then have "m \<in> mail (mailbox_of (disk p'))"
    by (rule relay.spec_kept [where P = "\<lambda>b. m \<in> mail b", OF assms(3,1)]) (rule retires_ops)
  moreover have "relay_inv p'"
    by (rule relay.inv_reaches [OF reaches_mono [OF assms(3)] assms(1)]) simp
  ultimately show ?thesis using q relay_inv_none_delivered mail_pending by blast
qed

subsection \<open>Staying up\<close>

definition polite :: "process \<Rightarrow> event \<Rightarrow> bool" where
  "polite p e \<longleftrightarrow>
     (case (p, e) of
        (Up r, HubRoute c io) \<Rightarrow> (case readers r c of Handing env \<Rightarrow> courteous io c env (core r) | _ \<Rightarrow> True)
      | (Up r, Kill) \<Rightarrow> False
      | _ \<Rightarrow> True)"

definition relay_tidy :: "process \<Rightarrow> bool" where
  "relay_tidy p \<longleftrightarrow>
     (case p of
        Down s \<Rightarrow> False
      | Up r \<Rightarrow> tidy (core r) \<and>
          (\<forall>c. readers r c = Reading \<or> (\<exists>env. readers r c = Handing env) \<longrightarrow> c \<in> clients (core r)))"

lemma relay_tidy_new: "relay_tidy (Up (new_relay s))"
  by (simp add: relay_tidy_def new_relay_def NewHub_def tidy_def)

lemma relay_tidy_step:
  assumes "relay_inv p" "event_ok p e" "polite p e" "relay_step jerr p e p'" "relay_tidy p"
  shows "relay_tidy p'"
  using assms(4)
proof (cases rule: relay_stepE)
  case (accept r c)
  with assms(5) show ?thesis
    by (auto simp: serveWS_def hub_register_def after_turn_def set_reader_def relay_tidy_def tidy_def)
next
  case (frame r c data now)
  have "\<not> closed (conns (core r) c)" using assms(1,5) frame by (auto simp: relay_inv_def hub_inv_def relay_tidy_def)
  from read_frame_open [OF this, of jerr now data] obtain x m where
    "read_frame jerr now data (conns (core r) c) = Ret (x, m)" by (auto simp: not_is_panic_iff)
  with frame assms(5) show ?thesis
    by (auto simp: read_turn_def set_reader_def relay_tidy_def tidy_def)
next
  case (read_fails r c)
  with assms(5) show ?thesis by (auto simp: set_reader_def relay_tidy_def)
next
  case (route r c env io)
  let ?C = "clients (core r)"
  have "good ?C (core r)" "io_ok io" "env_ok env" "c \<in> ?C" "courteous io c env (core r)"
    using assms(1,2,3,5) route
    by (auto simp: good_def relay_inv_def relay_tidy_def event_ok_def polite_def)
  from calmD [OF calm_handle [OF this]] obtain h' where
    "handle io c env (core r) = Ret h'" "tidy h'" "clients h' = ?C" by (auto simp: good_def)
  with route assms(5) show ?thesis
    by (auto simp: hub_turn_def after_turn_def set_reader_def relay_tidy_def)
next
  case (drop_conn r c)
  let ?C = "clients (core r)"
  have "good ?C (core r)" using assms(1,5) drop_conn by (simp add: good_def relay_inv_def relay_tidy_def)
  from calmD [OF calm_unregister [OF this, of c]] obtain h' where
    "hub_unregister c (core r) = Ret h'" "tidy h'" "clients h' = ?C - {c}" by (auto simp: good_def)
  with drop_conn assms(5) show ?thesis
    by (auto simp: after_turn_def set_reader_def relay_tidy_def)
next
  case (write_out r c tick ok out)
  with assms(5) show ?thesis by (auto simp: put_wire_def relay_tidy_def tidy_def split: prod.split)
next
  case (sweep r faults fk now)
  with assms(5) show ?thesis by (auto simp: relay_tidy_def tidy_def)
next
  case (kill r)
  with assms(3) show ?thesis by (simp add: polite_def)
next
  case (restart s d s')
  with assms(5) show ?thesis by (simp add: relay_tidy_def)
qed

lemma polite_stays_up:
  assumes "reaches (\<lambda>p e. event_ok p e \<and> polite p e) (relay_step jerr) (Up r) p'"
    and "relay_inv (Up r)" "relay_tidy (Up r)"
  shows "\<exists>r'. p' = Up r' \<and> relay_inv p' \<and> relay_tidy p'"
proof -
  have "relay_tidy p' \<and> relay_inv p'"
    by (rule relay.kept_reaches [where P = relay_tidy and Q = polite, OF assms(1-3)]) (rule relay_tidy_step)
  then show ?thesis by (cases p') (auto simp: relay_tidy_def)
qed

subsection \<open>Messages and their queues\<close>

definition foreign_keys :: "event \<Rightarrow> bool" where
  "foreign_keys e \<longleftrightarrow> (case e of HubRoute c io \<Rightarrow> fk_on io | _ \<Rightarrow> True)"

lemma fk_closed_mailbox: "fk_closed s \<longleftrightarrow> (\<forall>m \<in> mail (mailbox_of s). QID m \<in> boxes (mailbox_of s))"
  by (simp add: fk_closed_def mailbox_of_def row_qid_def)

lemma mailbox_of_simps [simp]: "boxes (mailbox_of s) = qids s" "mail (mailbox_of s) = row_msg ` set (messages_tab s)"
  by (simp_all add: mailbox_of_def)

lemma fk_closed_op:
  assumes "foreign_keys e" "x \<in> event_ops p e" "\<forall>m \<in> mail (mailbox_of (disk p)). QID m \<in> boxes (mailbox_of (disk p))"
  shows "\<forall>m \<in> mail (mail_step x (mailbox_of (disk p))). QID m \<in> boxes (mail_step x (mailbox_of (disk p)))"
  using assms
  by (auto simp: event_ops_def command_ops_def foreign_keys_def Let_def sent_message_def
      split: process.splits event.splits reader.splits if_splits option.splits)

lemma fk_closed_reaches:
  assumes "reaches (\<lambda>p e. event_ok p e \<and> foreign_keys e) (relay_step jerr) p p'" "relay_inv p" "fk_closed (disk p)"
  shows "fk_closed (disk p')"
  using relay.spec_kept [where P = "\<lambda>b. \<forall>m \<in> mail b. QID m \<in> boxes b" and Q = "\<lambda>p. foreign_keys",
      OF assms(1,2)] fk_closed_op assms(3)
  by (simp only: fk_closed_mailbox) blast

end
