(* ===== verification/Relay_Props.thy ===== *)
theory Relay_Props
  imports Relay
begin

text \<open>
  The properties of the relay: what holds of every state it can reach, what a message that was accepted
  can count on, what each command does, and when the process ends.  Each is followed by an instance on
  a small relay (\<open>demo_hub\<close>: two connections, one queue).
\<close>

subsection \<open>A small relay\<close>

definition demo_qid :: string where
  "demo_qid = replicate 32 (CHR ''a'')"

definition demo_store :: store where
  "demo_store = \<lparr>queues_tab = [\<lparr>qid_col = demo_qid, created_at = 1, last_active = 1\<rparr>], messages_tab = []\<rparr>"

definition demo_hub :: hub where
  "demo_hub = \<lparr>clients = {0, 1}, queues = [(demo_qid, \<lparr>owner = Some 0, sub = Some 1\<rparr>)],
              conns = (\<lambda>_. new_client), db = demo_store\<rparr>"

definition demo_io :: io where
  "demo_io = \<lparr>clock = (\<lambda>i. 100), rnd = Some (replicate 16 (CHR ''x'')), f_create = False, f_touch = False,
             f_exists = False, f_save = False, f_undelivered = False, f_delete = False, fk_on = True\<rparr>"

definition demo_env :: "string \<Rightarrow> string \<Rightarrow> envelope" where
  "demo_env t mid = \<lparr>Version = 1, Typ = t, QueueID = demo_qid, MsgID = mid, TS = 0, Payload = Some ''{}''\<rparr>"

definition demo_relay :: relay where
  "demo_relay = \<lparr>core = demo_hub, readers = (\<lambda>c. if c = 0 then Handing (demo_env TypeSend ''message1'') else Reading),
                writing = (\<lambda>_. True), socket = (\<lambda>_. [])\<rparr>"

lemma demo_qid_facts [simp]: "ValidQueueID demo_qid" "length demo_qid = 32" "demo_qid \<noteq> []"
  by (simp_all add: demo_qid_def ValidQueueID_iff list_all_iff hex_val_def)

lemma demo_db_inv [simp]: "db_inv demo_store"
  by (simp add: demo_store_def db_inv_def store_inv_def none_delivered_def)

lemma demo_qids [simp]: "qids demo_store = {demo_qid}"
  by (simp add: demo_store_def qids_def)

lemma demo_good [simp]: "good {0, 1} demo_hub"
  by (auto simp: good_def demo_hub_def hub_inv_def table_inv_def conn_inv_new tidy_def uses_def)

lemma demo_io_ok [simp]: "io_ok demo_io"
  by (simp add: io_ok_def demo_io_def int64_range_def)

lemma max_nesting_less [simp]: "1 < max_nesting"
  by (simp add: max_nesting_def)

lemma demo_env_ok [simp]: "t \<noteq> [] \<Longrightarrow> env_ok (demo_env t m)"
  by (simp add: env_ok_def demo_env_def)

lemma demo_find [simp]:
  "find_queue demo_io demo_qid demo_hub = Inr (\<lparr>owner = Some 0, sub = Some 1\<rparr>, demo_hub)"
  by (simp add: find_queue_def demo_hub_def)

lemma demo_save [simp]:
  "SaveMessage False True m demo_store = (if QID m = demo_qid then Some (demo_store\<lparr>messages_tab := [new_row demo_store m]\<rparr>) else None)"
  by (simp add: SaveMessage_def) (simp add: demo_store_def)

lemma demo_stores [simp]: "send_stores demo_io (demo_env t m) demo_hub"
  by (simp add: send_stores_def demo_env_def) (simp add: demo_hub_def demo_io_def sent_message_def)

lemma demo_relay_inv [simp]: "relay_inv (Up demo_relay)"
  using demo_good by (auto simp: relay_inv_def demo_relay_def good_def proto_simps split: if_splits)

subsection \<open>Every reachable state\<close>

text \<open>
  C3.  Whatever the clients send, however the goroutines interleave, across crashes and restarts: in a
  running relay no channel holds more than 16 frames, every frame queued or written parses as an
  envelope of the protocol, the channel of a registered connection is open, queue names are
  valid and unique, message identifiers are unique, no row is marked delivered.
\<close>

theorem relay_reachable_invariant:
  assumes "db_inv s" "reaches event_ok (relay_step jerr) (Up (new_relay s)) (Up r)"
  shows "(\<forall>c. length (buf (conns (core r) c)) \<le> 16 \<and> (\<forall>f \<in> set (buf (conns (core r) c)). \<exists>e. Parse f = Inr e)) \<and>
    (\<forall>c f. TextMsg f \<in> set (socket r c) \<longrightarrow> (\<exists>e. Parse f = Inr e)) \<and>
    (\<forall>c \<in> clients (core r). \<not> closed (conns (core r) c)) \<and>
    distinct (map fst (queues (core r))) \<and> (\<forall>(q, qs) \<in> set (queues (core r)). ValidQueueID q) \<and>
    distinct (map row_mid (messages_tab (db (core r)))) \<and>
    (\<forall>m \<in> set (messages_tab (db (core r))). \<not> delivered m)"
proof -
  have i: "relay_inv (Up r)" by (rule relay.inv_reaches [OF assms(2) relay_inv_new [OF assms(1)]])
  then have h: "hub_inv (core r)" and w: "\<And>c f. TextMsg f \<in> set (socket r c) \<Longrightarrow> wire_ok (TextMsg f)"
    by (auto simp: relay_inv_def)
  have "\<forall>c f. TextMsg f \<in> set (socket r c) \<longrightarrow> (\<exists>e. Parse f = Inr e)"
    using w by (auto simp: wire_ok_def)
  with h show ?thesis
    by (auto simp: hub_inv_def conn_inv_def sendCap_def table_inv_def db_inv_def store_inv_def none_delivered_def)
qed

theorem relay_reachable_invariant_witness: "length (buf (conns (core (new_relay demo_store)) 7)) \<le> 16"
  using relay_reachable_invariant [OF demo_db_inv here] by blast

text \<open>
  C4.  The relay implements the mailbox specification: seen as a set of queues and a set of waiting
  messages, every step of a reachable state (a crash in the middle of a command, a
  kill, a restart and a failing database included) is one of the mailbox operations its event allows.
\<close>

theorem relay_implements_mailbox:
  assumes "db_inv s" "reaches event_ok (relay_step jerr) (Up (new_relay s)) p"
    and "event_ok p e" "relay_step jerr p e p'"
  shows "\<exists>x \<in> event_ops p e. mailbox_of (disk p') = mail_step x (mailbox_of (disk p))"
  by (rule relay.simulates [OF relay.inv_reaches [OF assms(2) relay_inv_new [OF assms(1)]] assms(3,4)])

theorem relay_implements_mailbox_witness:
  "mailbox_of (disk (Down demo_store)) = mailbox_of (disk (Up (new_relay demo_store)))"
proof -
  have "relay_step (\<lambda>_. []) (Up (new_relay demo_store)) Kill (Down demo_store)"
    by (simp add: step_kill_iff new_relay_def NewHub_def)
  from relay_implements_mailbox [OF demo_db_inv here _ this] show ?thesis
    by (simp add: event_ok_def event_ops_def)
qed

text \<open>
  C9.  Store and forward: once the hub has taken a SEND that the database accepted (even if the turn
  itself ends the process), the message is pending in its queue in every later state, over
  crashes and restarts, until the hub takes an ACK with its identifier or a sweep finds its
  queue expired.
\<close>

theorem accepted_message_is_kept:
  assumes "relay_inv (Up r)" "readers r c = Handing env" "Typ env = TypeSend" "io_ok io"
    and "send_stores io env (core r)"
    and "relay_step jerr (Up r) (HubRoute c io) p1"
    and "reaches (\<lambda>p e. event_ok p e \<and> \<not> retires (sent_message io env) p e) (relay_step jerr) p1 p2"
  shows "sent_message io env \<in> set (pending (disk p2) (QueueID env))"
proof -
  have p1: "p1 = after_turn (handle io c env (core r)) (set_reader c Reading r)"
    using assms(6,2) by (cases rule: relay_stepE) (auto simp: hub_turn_def)
  obtain qs h1 s where f: "find_queue io (QueueID env) (core r) = Inr (qs, h1)"
    "SaveMessage (f_save io) (fk_on io) (sent_message io env) (db (core r)) = Some s"
    using assms(5) by (auto simp: send_stores_def split: sum.splits)
  have "same_mail (disk p1) s"
    using mail_send_stored [OF f] assms(3) by (simp add: p1 handle_def proto_simps)
  then have "pending (disk p1) (QueueID env) = pending s (QueueID env)" by (rule same_mail_pending)
  then have "sent_message io env \<in> set (pending (disk p1) (QueueID env))"
    using box.put_then_pending [OF f(2)] by (simp add: sent_message_def)
  moreover have "relay_inv p1"
    by (rule relay_inv_step [OF assms(6,1)]) (simp add: event_ok_def assms(4))
  ultimately show ?thesis using kept_until_retired assms(7) by blast
qed

theorem accepted_message_is_kept_witness:
  "sent_message demo_io (demo_env TypeSend ''message1'') \<in> set (pending
     (store_after (hub_turn demo_io (Route 0 (demo_env TypeSend ''message1'')) demo_hub)) demo_qid)"
proof -
  have h: "readers demo_relay 0 = Handing (demo_env TypeSend ''message1'')" by (simp add: demo_relay_def)
  have t: "Typ (demo_env TypeSend ''message1'') = TypeSend" by (simp add: demo_env_def)
  have s: "send_stores demo_io (demo_env TypeSend ''message1'') (core demo_relay)" by (simp add: demo_relay_def)
  from accepted_message_is_kept [OF demo_relay_inv h t demo_io_ok s route [OF h] here]
  show ?thesis by (simp add: demo_env_def demo_relay_def)
qed

text \<open>
  C10.  With nobody subscribing over somebody else, no SEND or ACK with identifiers shorter than 8
  bytes and no kill, the relay stays up for ever, whatever else the clients send and whatever statements fail.
\<close>

theorem polite_clients_never_crash_the_relay:
  assumes "db_inv s"
    and "reaches (\<lambda>p e. event_ok p e \<and> polite p e) (relay_step jerr) (Up (new_relay s)) p"
  shows "\<exists>r. p = Up r"
  using polite_stays_up [OF assms(2) relay_inv_new [OF assms(1)] relay_tidy_new] by blast

theorem polite_clients_never_crash_the_relay_witness:
  "\<exists>r. serveWS 5 (new_relay demo_store) = Up r"
proof -
  have "reaches (\<lambda>p e. event_ok p e \<and> polite p e) (relay_step (\<lambda>_. [])) (Up (new_relay demo_store)) (serveWS 5 (new_relay demo_store))"
    by (rule onward [OF here, where e = "Accept 5"]) (auto simp: event_ok_def polite_def new_relay_def intro: accept)
  from polite_clients_never_crash_the_relay [OF demo_db_inv this] show ?thesis .
qed

text \<open>
  C11.  While every command runs on a connection with foreign keys on, every stored message has
  its queue in the database, over sweeps that fail half way, crashes and restarts.
\<close>

theorem every_message_has_its_queue:
  assumes "db_inv s" "fk_closed s"
    and "reaches (\<lambda>p e. event_ok p e \<and> foreign_keys e) (relay_step jerr) (Up (new_relay s)) p"
  shows "\<forall>r \<in> set (messages_tab (disk p)). row_qid r \<in> qids (disk p)"
  using fk_closed_reaches [OF assms(3) relay_inv_new [OF assms(1)]] assms(2)
  by (simp add: fk_closed_def new_relay_def NewHub_def)

definition filled_store :: store where
  "filled_store = demo_store\<lparr>messages_tab := [new_row demo_store (sent_message demo_io (demo_env TypeSend ''message1''))]\<rparr>"

lemma filled_db_inv: "db_inv filled_store"
  by (simp add: filled_store_def db_inv_def store_inv_def none_delivered_def body_ok_def sent_message_def demo_env_def
      payload_bytes_def) (simp add: demo_store_def)

lemma filled_store_simps [simp]:
  "qids filled_store = {demo_qid}" "\<forall>r \<in> set (messages_tab filled_store). row_qid r = demo_qid"
  "messages_tab filled_store \<noteq> []"
  by (simp_all add: filled_store_def qids_def sent_message_def demo_env_def) (simp add: demo_store_def)

theorem every_message_has_its_queue_witness:
  "row_qid (hd (messages_tab (disk (Down filled_store)))) \<in> qids (disk (Down filled_store))"
proof -
  have f: "fk_closed filled_store" by (simp add: fk_closed_def)
  have "reaches (\<lambda>p e. event_ok p e \<and> foreign_keys e) (relay_step (\<lambda>_. [])) (Up (new_relay filled_store)) (Down filled_store)"
    by (rule onward [OF here, where e = Kill])
      (simp_all add: event_ok_def foreign_keys_def step_kill_iff new_relay_def NewHub_def)
  from every_message_has_its_queue [OF filled_db_inv f this] show ?thesis
    using hd_in_set [of "messages_tab filled_store"] by (simp del: filled_store_simps(1,2))
qed

subsection \<open>The commands\<close>

text \<open>
  C12.  SEND to a queue with a subscriber, accepted by the database: the subscriber's channel gets a
  DELIVER frame and the sender's an ACK frame (each if it has room), the message is pending in its
  queue and no other queue changes.  The DELIVER frame parses as an envelope built by the server, with
  the message identifier and the compacted payload of the SEND.
\<close>

theorem send_delivers_and_acknowledges:
  assumes g: "good C h" and ok: "io_ok io" "env_ok env" and c: "c \<in> C" and t: "Typ env = TypeSend"
    and st: "send_stores io env h" and m: "8 \<le> length (send_mid io env)"
    and q: "map_of (queues h) (QueueID env) = Some qs" "sub qs = Some d" "d \<noteq> c"
    and p: "Payload env = Some raw"
  shows "\<exists>h' f. handle io c env h = Ret h' \<and>
    Parse f = Inr \<lparr>Version = 1, Typ = TypeDeliver, QueueID = QueueID env,
        MsgID = to_valid_utf8 (send_mid io env), TS = clock io 2, Payload = Some (compact_out raw)\<rparr> \<and>
    buf (conns h' d) = take 16 (buf (conns h d) @ [f]) \<and>
    buf (conns h' c) = take 16 (buf (conns h c) @ opt_list (ack_frame io env)) \<and>
    set (pending (db h') (QueueID env)) = insert (sent_message io env) (set (pending (db h) (QueueID env))) \<and>
    (\<forall>q. q \<noteq> QueueID env \<longrightarrow> set (pending (db h') q) = set (pending (db h) q))"
proof -
  have v: "ValidQueueID (QueueID env)" using map_of_valid [OF _ q(1)] g by (simp add: good_def hub_inv_def)
  then have fq: "find_queue io (QueueID env) h = Inr (qs, h)" using q(1) by (simp add: find_queue_def)
  then obtain s where sv: "SaveMessage (f_save io) (fk_on io) (sent_message io env) (db h) = Some s"
    using st by (auto simp: send_stores_def)
  have d: "d \<in> C" using good_entry [OF g q(1), of d] q(2) by (simp add: uses_def)
  let ?h2 = "touch io (clock io 1) (QueueID env) (h\<lparr>db := s\<rparr>)"
  let ?h' = "post c (ack_frame io env) (post d (deliver_frame io env) ?h2)"
  have e: "handle io c env h = Ret ?h'"
    using handle_send_ok [OF g ok c fq sv m] q(2) t by (simp add: handle_def proto_simps)
  obtain f where f: "deliver_frame io env = Some f" "Parse f = Inr \<lparr>Version = 1, Typ = TypeDeliver, QueueID = QueueID env,
        MsgID = to_valid_utf8 (send_mid io env), TS = clock io 2, Payload = Some (compact_out raw)\<rparr>"
    using deliver_frame_parses [OF ok(1) p _ v] ok(2) p by (auto simp: env_ok_def)
  have "set (pending (db ?h') x) = set (pending s x)" for x by simp
  then have "set (pending (db ?h') (QueueID env)) = insert (sent_message io env) (set (pending (db h) (QueueID env)))"
    "\<forall>x. x \<noteq> QueueID env \<longrightarrow> set (pending (db ?h') x) = set (pending (db h) x)"
    using pending_save [OF sv] by (auto simp: sent_message_def)
  then show ?thesis
    using e f good_open [OF g c] good_open [OF g d] q(3) by (auto simp: sendCap_def opt_list_def)
qed

theorem send_delivers_and_acknowledges_witness:
  "\<exists>h' f. handle demo_io 0 (demo_env TypeSend ''message1'') demo_hub = Ret h' \<and>
    buf (conns h' 1) = [f] \<and> MsgID (projr (Parse f)) = ''message1''"
proof -
  have q: "map_of (queues demo_hub) (QueueID (demo_env TypeSend ''message1'')) = Some \<lparr>owner = Some 0, sub = Some 1\<rparr>"
    by (simp add: demo_hub_def demo_env_def)
  have "to_valid_utf8 ''message1'' = ''message1''" by (rule ascii_valid_utf8) (simp add: is_ascii_def)
  moreover have "env_ok (demo_env TypeSend ''message1'')" by (simp add: proto_simps)
  moreover have "Typ (demo_env TypeSend ''message1'') = TypeSend" "Payload (demo_env TypeSend ''message1'') = Some ''{}''"
    "8 \<le> length (send_mid demo_io (demo_env TypeSend ''message1''))"
    by (simp_all add: demo_env_def send_mid_def)
  moreover have "(0 :: nat) \<in> {0, 1}" "sub \<lparr>owner = Some 0, sub = Some (1 :: nat)\<rparr> = Some 1" "(1 :: nat) \<noteq> 0" by simp_all
  ultimately show ?thesis
    using send_delivers_and_acknowledges [OF demo_good demo_io_ok _ _ _ demo_stores _ q, of 0 1 "''{}''"]
    by (auto simp: demo_env_def send_mid_def demo_hub_def)
qed

text \<open>
  C13.  A SEND that is not accepted (bad or unknown queue, database error, duplicate identifier,
  queue missing under the foreign key) stores nothing, answers the sender with an ERROR of code 400, 404 or 500 and reaches
  no other connection.
\<close>

theorem rejected_send_is_answered:
  assumes g: "good C h" and ok: "io_ok io" and c: "c \<in> C" and t: "Typ env = TypeSend" and st: "\<not> send_stores io env h"
  shows "\<exists>h' code msg i. handle io c env h = Ret h' \<and> code \<in> {400, 404, 500} \<and> db h' = db h \<and>
    buf (conns h' c) = take 16 (buf (conns h c) @ opt_list (frame_of (clock io i) TypeError [] [] (ErrorMessage code msg))) \<and>
    (\<forall>d. d \<noteq> c \<longrightarrow> conns h' d = conns h d)"
proof -
  obtain code msg i h1 where e: "handle_send io c env h = error_to c (clock io i) code msg h1"
    "good C h1" "code \<in> {400, 404, 500}" "conns h1 = conns h" "db h1 = db h"
    by (rule send_rejected_form [OF st g, of c])
  have "handle io c env h = Ret (post c (frame_of (clock io i) TypeError [] [] (ErrorMessage code msg)) h1)"
    using e(1) t error_to_good [OF e(2) c] by (simp add: handle_def proto_simps)
  then show ?thesis
    using e(3-5) good_open [OF g c] by (intro exI [of _ "post c (frame_of (clock io i) TypeError [] [] (ErrorMessage code msg)) h1"]
        exI [of _ code] exI [of _ msg] exI [of _ i]) (auto simp: sendCap_def)
qed

theorem rejected_send_is_answered_witness:
  "\<exists>h'. handle demo_io 0 (demo_env TypeSend ''m''\<lparr>QueueID := ''short''\<rparr>) demo_hub = Ret h' \<and> db h' = demo_store"
proof -
  have "\<not> send_stores demo_io (demo_env TypeSend ''m''\<lparr>QueueID := ''short''\<rparr>) demo_hub"
    by (simp add: send_stores_def find_queue_def ValidQueueID_iff)
  from rejected_send_is_answered [OF demo_good demo_io_ok _ _ this, of 0] show ?thesis
    by (auto simp: demo_env_def demo_hub_def)
qed

text \<open>
  C14.  SEND to a queue nobody is subscribed to (known to the hub, or only to the database, as after a
  restart): acknowledged to the sender, pending in its queue, no other connection touched.
\<close>

theorem offline_send_is_stored_and_acknowledged:
  assumes g: "good C h" and ok: "io_ok io" "env_ok env" and c: "c \<in> C" and t: "Typ env = TypeSend"
    and st: "send_stores io env h" and m: "8 \<le> length (send_mid io env)"
    and q: "\<And>qs. map_of (queues h) (QueueID env) = Some qs \<Longrightarrow> sub qs = None"
  shows "\<exists>h'. handle io c env h = Ret h' \<and>
    buf (conns h' c) = take 16 (buf (conns h c) @ opt_list (ack_frame io env)) \<and>
    (\<forall>d. d \<noteq> c \<longrightarrow> conns h' d = conns h d) \<and>
    set (pending (db h') (QueueID env)) = insert (sent_message io env) (set (pending (db h) (QueueID env)))"
proof -
  obtain qs h1 s where fq: "find_queue io (QueueID env) h = Inr (qs, h1)"
    and sv: "SaveMessage (f_save io) (fk_on io) (sent_message io env) (db h) = Some s"
    using st by (auto simp: send_stores_def split: sum.splits)
  note fr = find_queue_frame [OF fq]
  have n: "sub qs = None"
    using fq q by (auto simp: find_queue_def Let_def split: option.splits if_splits bool.splits)
  let ?h2 = "touch io (clock io 1) (QueueID env) (h1\<lparr>db := s\<rparr>)"
  have e: "handle io c env h = Ret (post c (ack_frame io env) ?h2)"
    using handle_send_ok [OF g ok c fq sv m] n t by (simp add: handle_def proto_simps)
  have "set (pending (db ?h2) (QueueID env)) = insert (sent_message io env) (set (pending (db h) (QueueID env)))"
    using pending_save [OF sv, of "QueueID env"] by (simp add: sent_message_def)
  then show ?thesis using e fr(2) good_open [OF g c] by (simp add: sendCap_def)
qed

definition idle_hub :: hub where
  "idle_hub = demo_hub\<lparr>queues := []\<rparr>"

lemma idle_good [simp]: "good {0, 1} idle_hub"
  using demo_good by (auto simp: good_def idle_hub_def hub_inv_def table_inv_def tidy_def)

lemma idle_find [simp]:
  "find_queue demo_io demo_qid idle_hub = Inr (\<lparr>owner = None, sub = None\<rparr>,
     idle_hub\<lparr>queues := [(demo_qid, \<lparr>owner = None, sub = None\<rparr>)]\<rparr>)"
  by (simp add: find_queue_def idle_hub_def QueueExists_def demo_io_def) (simp add: demo_hub_def Let_def)

lemma idle_stores [simp]: "send_stores demo_io (demo_env t m) idle_hub"
  by (simp add: send_stores_def demo_env_def) (simp add: idle_hub_def demo_hub_def demo_io_def sent_message_def)

theorem offline_send_is_stored_and_acknowledged_witness:
  "\<exists>h'. handle demo_io 0 (demo_env TypeSend ''message1'') idle_hub = Ret h' \<and>
     sent_message demo_io (demo_env TypeSend ''message1'') \<in> set (pending (db h') demo_qid)"
proof -
  have "env_ok (demo_env TypeSend ''message1'')" by (simp add: proto_simps)
  moreover have "Typ (demo_env TypeSend ''message1'') = TypeSend"
    "8 \<le> length (send_mid demo_io (demo_env TypeSend ''message1''))"
    by (simp_all add: demo_env_def send_mid_def)
  ultimately show ?thesis
    using offline_send_is_stored_and_acknowledged [OF idle_good demo_io_ok _ _ _ idle_stores, of TypeSend "''message1''" 0]
    by (auto simp: demo_env_def idle_hub_def)
qed

text \<open>
  C15.  SUB by a connection that does not own the queue, with nobody else subscribed: the channel gets
  SUB_OK and then every pending message in order, cut at 16 frames in all; the connection becomes
  the subscriber, the messages stay pending (only an ACK removes them), no other channel changes.
\<close>

theorem subscribe_replays_pending:
  assumes g: "good C h" and ok: "io_ok io" "\<not> f_undelivered io" and c: "c \<in> C" and t: "Typ env = TypeSub"
    and fq: "find_queue io (QueueID env) h = Inr (qs, h1)"
    and q: "owner qs \<noteq> Some c" "sub qs = None \<or> sub qs = Some c"
  shows "\<exists>h'. handle io c env h = Ret h' \<and>
    buf (conns h' c) = take 16 (buf (conns h c) @ opt_list (sub_ok_frame io (QueueID env))
       @ replay_frames io (QueueID env) (pending (db h) (QueueID env))) \<and>
    map_of (queues h') (QueueID env) = Some (qs\<lparr>sub := Some c\<rparr>) \<and>
    (\<forall>x. pending (db h') x = pending (db h) x) \<and>
    (\<forall>d. d \<noteq> c \<longrightarrow> conns h' d = conns h d)"
  using handle_sub_ok [OF g ok(1) c fq q ok(2)] t
  by (auto simp: handle_def proto_simps sendCap_def intro: pending_cong)

theorem subscribe_replays_pending_witness:
  "\<exists>h'. handle demo_io 1 (demo_env TypeSub []) demo_hub = Ret h' \<and>
     map_of (queues h') demo_qid = Some \<lparr>owner = Some 0, sub = Some 1\<rparr>"
proof -
  have "find_queue demo_io (QueueID (demo_env TypeSub [])) demo_hub
      = Inr (\<lparr>owner = Some 0, sub = Some 1\<rparr>, demo_hub)" by (simp add: demo_env_def)
  from subscribe_replays_pending [OF demo_good demo_io_ok _ _ _ this, of 1] show ?thesis
    by (auto simp: demo_env_def demo_io_def)
qed

text \<open>The frame \<open>f\<close> delivers the stored message \<open>m\<close> of the queue \<open>q\<close>.\<close>

definition delivers_message :: "string \<Rightarrow> string \<Rightarrow> stored_message \<Rightarrow> bool" where
  "delivers_message q f m \<longleftrightarrow>
     (\<exists>ts. Parse f = Inr \<lparr>Version = 1, Typ = TypeDeliver, QueueID = q, MsgID = to_valid_utf8 (Mid m), TS = ts,
        Payload = Some (compact_out (Body m))\<rparr>)"

lemma replay_frame_delivers:
  assumes "io_ok io" "ValidQueueID q" "json_text (max_nesting - 1) (Body m)"
  obtains f where "replay_frame io q (i, m) = Some f" "delivers_message q f m"
proof -
  have s: "sendable (RawMessage (Some (Body m)))" using assms(3) by (simp add: sendable_def)
  have "payload_text (RawMessage (Some (Body m))) = compact_out (Body m)"
    using json_compact_text [OF json_text_mono [OF assms(3), of max_nesting]] by (simp add: payload_text_def)
  moreover have "to_valid_utf8 TypeDeliver = TypeDeliver" by (rule ascii_valid_utf8) (simp add: proto_simps is_ascii_def)
  ultimately show thesis
    using that frame_of_sendable [OF s] frame_of_Parse [OF s io_ok_clock [OF assms(1), of "2 + i"], of TypeDeliver] ValidQueueID_utf8 [OF assms(2)]
    by (auto simp: replay_frame_def delivers_message_def)
qed

lemma replay_frames_deliver:
  assumes "io_ok io" "ValidQueueID q" "\<forall>m \<in> set ms. json_text (max_nesting - 1) (Body m)"
  shows "list_all2 (delivers_message q) (replay_frames io q ms) ms"
proof -
  have "list_all2 (delivers_message q) (concat (map (\<lambda>im. opt_list (replay_frame io q im)) (List.enumerate k ms))) ms" for k
    using assms(3)
  proof (induction ms arbitrary: k)
    case (Cons m ms)
    from Cons.prems have "json_text (max_nesting - 1) (Body m)" by simp
    from replay_frame_delivers [OF assms(1,2) this] obtain f where "replay_frame io q (k, m) = Some f" "delivers_message q f m" by blast
    then show ?case using Cons by (simp add: opt_list_def)
  qed simp
  then show ?thesis by (simp add: replay_frames_def)
qed

text \<open>
  C16.  After a restart on the same file, SUB by the first subscriber of a queue fills its channel with SUB_OK and the
  messages that were pending before the restart, in their order, up to the 16 frames it holds; all of them stay pending until they are
  acknowledged.  When at most 15 are pending, none with an empty payload, the subscriber is sent every one of
  them: each frame after the SUB_OK parses to the DELIVER of the next message, with its identifier and its payload.
\<close>

theorem restart_then_subscribe:
  assumes i: "db_inv s" and ok: "io_ok io" "\<not> f_undelivered io" "\<not> f_exists io" and t: "Typ env = TypeSub"
    and q: "ValidQueueID (QueueID env)" "QueueID env \<in> qids s"
    and up: "relay_step jerr (Down s) Restart (Up r)" and reg: "hub_register c (core r) = Ret h"
  shows "\<exists>h' g e. handle io c env h = Ret h' \<and> Parse g = Inr e \<and> Typ e = TypeSubOk \<and>
    buf (conns h' c) = take 16 (g # replay_frames io (QueueID env) (pending s (QueueID env))) \<and>
    (\<forall>x. pending (db h') x = pending s x) \<and>
    (length (pending s (QueueID env)) \<le> 15 \<and> (\<forall>m \<in> set (pending s (QueueID env)). Body m \<noteq> []) \<longrightarrow>
       (\<exists>gs. buf (conns h' c) = g # gs \<and> list_all2 (delivers_message (QueueID env)) gs (pending s (QueueID env))))"
proof -
  let ?q = "QueueID env" and ?gs = "replay_frames io (QueueID env) (pending s (QueueID env))"
  have r: "core r = NewHub s" using up by (auto simp: step_restart_iff Open_database_of new_relay_def)
  have h: "h = (NewHub s)\<lparr>clients := {c}\<rparr>" using reg r by (simp add: hub_register_def NewHub_def)
  have g: "good {c} h" using hub_inv_New [OF i] by (auto simp: h good_def hub_inv_def tidy_def NewHub_def)
  have f: "find_queue io ?q h = Inr (\<lparr>owner = None, sub = None\<rparr>, h\<lparr>queues := [(?q, \<lparr>owner = None, sub = None\<rparr>)]\<rparr>)"
    using q ok by (simp add: find_queue_def h NewHub_def QueueExists_def Let_def)
  have d: "db h = s" "buf (conns h c) = []" by (simp_all add: h NewHub_def)
  obtain ok0 where so: "sub_ok_frame io ?q = Some ok0" using frame_of_sendable [of NoPayload] by (simp add: sub_ok_frame_def sendable_def)
  have "\<exists>e. Parse ok0 = Inr e \<and> Typ e = TypeSubOk"
    using frame_of_Parse [OF _ io_ok_clock [OF ok(1), of 0] _ so [unfolded sub_ok_frame_def]]
    by (simp add: proto_simps ascii_valid_utf8 is_ascii_def sendable_def)
  moreover obtain h' where "handle_sub io c env h = Ret h'" "messages_tab (db h') = messages_tab (db h)"
    "buf (conns h' c) = take sendCap (buf (conns h c) @ opt_list (sub_ok_frame io ?q) @ replay_frames io ?q (pending (db h) ?q))"
    using handle_sub_ok [OF g ok(1) _ f _ _ ok(2)] by auto
  then have h': "handle io c env h = Ret h'" "buf (conns h' c) = take 16 (ok0 # ?gs)" "\<forall>x. pending (db h') x = pending s x"
    using t d so by (auto simp: handle_def proto_simps sendCap_def opt_list_def intro: pending_cong)
  moreover have "\<exists>gs. buf (conns h' c) = ok0 # gs \<and> list_all2 (delivers_message ?q) gs (pending s ?q)"
    if "length (pending s ?q) \<le> 15" "\<forall>m \<in> set (pending s ?q). Body m \<noteq> []"
  proof -
    have "\<forall>m \<in> set (pending s ?q). json_text (max_nesting - 1) (Body m)" using that(2) i by (auto simp: db_inv_def body_ok_def set_pending)
    from replay_frames_deliver [OF ok(1) q(1) this] have l: "list_all2 (delivers_message ?q) ?gs (pending s ?q)" .
    then have "length ?gs \<le> 15" using that(1) by (simp add: list_all2_lengthD)
    then show ?thesis using h'(2) l by simp
  qed
  ultimately show ?thesis by blast
qed

definition demo_waiting :: store where
  "demo_waiting = demo_store\<lparr>messages_tab := [new_row demo_store \<lparr>Mid = ''m1'', QID = demo_qid, Body = ''{}'', StoredAt = 1\<rparr>]\<rparr>"

lemma demo_waiting_facts:
  "db_inv demo_waiting" "pending demo_waiting demo_qid = [\<lparr>Mid = ''m1'', QID = demo_qid, Body = ''{}'', StoredAt = 1\<rparr>]"
  "demo_qid \<in> qids demo_waiting"
proof -
  have "SaveMessage False False \<lparr>Mid = ''m1'', QID = demo_qid, Body = ''{}'', StoredAt = 1\<rparr> demo_store = Some demo_waiting"
    by (simp add: SaveMessage_def demo_waiting_def demo_store_def)
  from db_inv_save [OF demo_db_inv _ this] show "db_inv demo_waiting" by (simp add: body_ok_def)
  show "pending demo_waiting demo_qid = [\<lparr>Mid = ''m1'', QID = demo_qid, Body = ''{}'', StoredAt = 1\<rparr>]" "demo_qid \<in> qids demo_waiting"
    by (simp_all add: pending_eq demo_waiting_def demo_store_def new_row_def row_qid_def qids_def)
qed

theorem restart_then_subscribe_witness:
  "\<exists>h' h g f. hub_register 3 (NewHub demo_waiting) = Ret h \<and> handle demo_io 3 (demo_env TypeSub []) h = Ret h' \<and>
     buf (conns h' 3) = [g, f] \<and> delivers_message demo_qid f \<lparr>Mid = ''m1'', QID = demo_qid, Body = ''{}'', StoredAt = 1\<rparr>"
proof -
  have up: "relay_step (\<lambda>_. []) (Down demo_waiting) Restart (Up (new_relay demo_waiting))"
    by (rule restart) (rule Open_database_of)
  have reg: "hub_register 3 (core (new_relay demo_waiting)) = Ret ((NewHub demo_waiting)\<lparr>clients := {3}\<rparr>)"
    by (simp add: hub_register_def new_relay_def NewHub_def)
  have e: "QueueID (demo_env TypeSub []) = demo_qid" "Typ (demo_env TypeSub []) = TypeSub" "\<not> f_undelivered demo_io" "\<not> f_exists demo_io"
    by (simp_all add: demo_env_def demo_io_def)
  obtain h' g gs where h': "handle demo_io 3 (demo_env TypeSub []) ((NewHub demo_waiting)\<lparr>clients := {3}\<rparr>) = Ret h'"
    "buf (conns h' 3) = g # gs" "list_all2 (delivers_message demo_qid) gs [\<lparr>Mid = ''m1'', QID = demo_qid, Body = ''{}'', StoredAt = 1\<rparr>]"
    using restart_then_subscribe [OF demo_waiting_facts(1) demo_io_ok e(3,4,2) _ _ up reg] demo_waiting_facts(2,3)
    unfolding e(1) by force
  moreover from h'(3) obtain f where "gs = [f]" "delivers_message demo_qid f \<lparr>Mid = ''m1'', QID = demo_qid, Body = ''{}'', StoredAt = 1\<rparr>"
    by (cases gs) auto
  moreover have "hub_register 3 (NewHub demo_waiting) = Ret ((NewHub demo_waiting)\<lparr>clients := {3}\<rparr>)"
    by (simp add: hub_register_def NewHub_def)
  ultimately show ?thesis by blast
qed

text \<open>
  C17.  NEW: the queue gets the fresh random name, exists in the database and in the table with the
  sender as its owner, and the NEW_OK frame the sender gets is one its client decodes to that name.
\<close>

theorem new_creates_queue:
  assumes g: "good C h" and ok: "io_ok io" and c: "c \<in> C" and t: "Typ env = TypeNew"
    and q: "QueueID env = []" "NewID (rnd io) = Some q"
    and cr: "CreateQueue (f_create io) q (clock io 0) (db h) = Some s"
  shows "\<exists>h' f e. handle io c env h = Ret h' \<and>
    map_of (queues h') q = Some \<lparr>owner = Some c, sub = None\<rparr> \<and> q \<in> qids (db h') \<and> ValidQueueID q \<and>
    buf (conns h' c) = take 16 (buf (conns h c) @ [f]) \<and> Parse f = Inr e \<and> Typ e = TypeNewOk \<and>
    decode_new_ok e = (q, False) \<and> (\<forall>d. d \<noteq> c \<longrightarrow> conns h' d = conns h d)"
proof -
  have v: "ValidQueueID q"
    using q(2) ok NewID_valid by (auto simp: io_ok_def NewID_def split: option.splits)
  obtain h' where h': "handle_new io c env h = Ret h'" "map_of (queues h') q = Some \<lparr>owner = Some c, sub = None\<rparr>"
    "q \<in> qids (db h')" "buf (conns h' c) = take sendCap (buf (conns h c) @ opt_list (new_ok_frame io q))"
    "\<forall>d. d \<noteq> c \<longrightarrow> conns h' d = conns h d"
    using handle_new_ok [OF g ok c q cr] by blast
  obtain f e where "new_ok_frame io q = Some f" "Parse f = Inr e" "Typ e = TypeNewOk" "decode_new_ok e = (q, False)"
    using new_ok_decodes [OF ok v] by blast
  with h' v t show ?thesis by (auto simp: handle_def sendCap_def opt_list_def)
qed

theorem new_creates_queue_witness:
  "\<exists>h' f e. handle demo_io 0 (demo_env TypeNew []\<lparr>QueueID := []\<rparr>) demo_hub = Ret h' \<and>
     buf (conns h' 0) = [f] \<and> Parse f = Inr e \<and> decode_new_ok e = (hex_encode (replicate 16 (CHR ''x'')), False)"
proof -
  let ?q = "hex_encode (replicate 16 (CHR ''x''))"
  have n: "NewID (rnd demo_io) = Some ?q" by (simp add: NewID_def demo_io_def)
  obtain s where "CreateQueue (f_create demo_io) ?q (clock demo_io 0) (db demo_hub) = Some s"
    by (cases "?q \<in> qids (db demo_hub)") (auto simp: CreateQueue_def demo_io_def)
  from new_creates_queue [OF demo_good demo_io_ok _ _ _ n this, of 0 "demo_env TypeNew []\<lparr>QueueID := []\<rparr>"]
  show ?thesis by (auto simp: demo_env_def demo_hub_def)
qed

text \<open>
  C18.  ACK removes the named message from whatever queue it waits in, whether the turn returns or
  ends the process, and changes nothing else in the database.  It does so whoever sends it: no connection is refused, also
  one that is not subscribed to the queue of the message, for which \<open>payloads.go\<close> reserves the code 403.
\<close>

theorem ack_removes_the_message:
  assumes "Typ env = TypeAck" "\<not> f_delete io"
  shows "pending (store_after (handle io c env h)) q = filter (\<lambda>m. Mid m \<noteq> MsgID env) (pending (db h) q) \<and>
    queues_tab (store_after (handle io c env h)) = queues_tab (db h) \<and>
    (\<forall>h'. handle io c env h = Ret h' \<longrightarrow> conns h' = conns h \<and> queues h' = queues h)"
proof (intro conjI allI impI)
  show "pending (store_after (handle io c env h)) q = filter (\<lambda>m. Mid m \<noteq> MsgID env) (pending (db h) q)"
    "queues_tab (store_after (handle io c env h)) = queues_tab (db h)"
    using assms pending_delete [OF delete_now_eq] DeleteMessage_frame [OF delete_now_eq]
    by (simp_all add: handle_def proto_simps store_after_ack delete_now_eq)
  fix h' assume "handle io c env h = Ret h'"
  then have "handle_ack io env h = Ret h'" using assms(1) by (simp add: handle_def proto_simps)
  then show "conns h' = conns h" "queues h' = queues h"
    by (auto simp: handle_ack_def slice8_def split: option.splits if_splits)
qed

theorem ack_removes_the_message_witness:
  "pending (store_after (handle demo_io 1 (demo_env TypeAck ''m'') demo_hub)) demo_qid
     = filter (\<lambda>m. Mid m \<noteq> ''m'') (pending demo_store demo_qid)"
  using ack_removes_the_message [of "demo_env TypeAck ''m''" demo_io 1 demo_hub demo_qid]
  by (simp add: demo_env_def demo_io_def demo_hub_def)

text \<open>
  C19.  Isolation: a command writes to the channel of its sender and of the subscriber of the queue it
  names, and to no other, whatever the envelope says.
\<close>

theorem commands_are_isolated:
  assumes "handle io c env h = Ret h'" "d \<noteq> c"
    and "\<And>qs. map_of (queues h) (QueueID env) = Some qs \<Longrightarrow> sub qs \<noteq> Some d"
  shows "conns h' d = conns h d"
proof -
  have "d \<notin> touched c env h" using assms(2,3) by (auto simp: touched_def)
  then show ?thesis using only_handle [of c env h io] assms(1) by (simp add: only_def)
qed

theorem commands_are_isolated_witness:
  "case handle demo_io 0 (demo_env TypeAck ''message1'') demo_hub of
     Panic s \<Rightarrow> False | Ret h' \<Rightarrow> conns h' 7 = new_client"
proof -
  obtain h' where e: "handle demo_io 0 (demo_env TypeAck ''message1'') demo_hub = Ret h'"
    by (simp add: handle_def handle_ack_def proto_simps demo_env_def demo_io_def DeleteMessage_def slice8_def)
  have "conns h' 7 = conns demo_hub 7"
    by (rule commands_are_isolated [OF e]) (simp_all add: demo_env_def demo_hub_def)
  with e show ?thesis by (simp add: demo_hub_def)
qed

subsection \<open>Crashes\<close>

text \<open>
  C20.  An ACK ends the whole process exactly when the queue or the message identifier the client
  put into it is shorter than 8 bytes (a missing one included): both are sliced for the log line.
\<close>

theorem ack_crash_iff:
  "Typ env = TypeAck \<Longrightarrow>
     is_panic (handle io c env h) \<longleftrightarrow> length (QueueID env) < 8 \<or> length (MsgID env) < 8"
  using ack_panic_iff [of io env h] by (simp add: handle_def proto_simps)

theorem ack_crash_iff_witness: "is_panic (handle demo_io 0 (demo_env TypeAck ''m1'') demo_hub)"
  using ack_crash_iff [of "demo_env TypeAck ''m1''" demo_io 0 demo_hub] by (simp add: demo_env_def)

text \<open>
  C21.  Among connections that are all alive, a SEND ends the process exactly when it was stored under a message
  identifier shorter than 8 bytes.
\<close>

theorem send_crash_iff:
  assumes "good C h" "io_ok io" "env_ok env" "c \<in> C" "Typ env = TypeSend"
  shows "is_panic (handle io c env h) \<longleftrightarrow> send_stores io env h \<and> length (send_mid io env) < 8"
  using send_panic_iff [OF assms(1-4)] assms(5) by (simp add: handle_def proto_simps)

theorem send_crash_iff_witness: "is_panic (handle demo_io 0 (demo_env TypeSend ''m1'') demo_hub)"
proof -
  have "env_ok (demo_env TypeSend ''m1'')" by (simp add: proto_simps)
  from send_crash_iff [OF demo_good demo_io_ok this, of 0] show ?thesis
    by (simp add: demo_env_def [of TypeSend] send_mid_def) (simp add: demo_env_def [symmetric])
qed

text \<open>
  C22.  A connection that is kicked off one queue stays the subscriber of the others it had, with a
  closed channel; the next SEND to one of those, from anybody, ends the process.
\<close>

theorem kick_then_send_crashes:
  assumes g: "good C h" and c: "c \<in> C" and d: "d \<in> C" "d \<noteq> c" and t: "Typ env = TypeSub"
    and m: "map_of (queues h) (QueueID env) = Some qs" "sub qs = Some d" "owner qs \<noteq> Some c"
    and m2: "map_of (queues h) q2 = Some qs2" "sub qs2 = Some d" "q2 \<noteq> QueueID env"
  shows "\<exists>h1. handle io c env h = Ret h1 \<and> d \<notin> clients h1 \<and>
    (\<forall>io2 x env2. Typ env2 = TypeSend \<and> QueueID env2 = q2 \<and> env_ok env2 \<and> send_stores io2 env2 h1 \<longrightarrow>
       is_panic (handle io2 x env2 h1))"
proof -
  obtain h1 where h1: "handle_sub io c env h = Ret h1" "clients h1 = C - {d}" "closed (conns h1 d)"
    "queues h1 = AList.update (QueueID env) (qs\<lparr>sub := Some c\<rparr>) (queues h)"
    using sub_kicks [OF g c d m] by blast
  have q: "map_of (queues h1) q2 = Some qs2" using m2 by (simp add: h1(4) update_conv')
  have "is_panic (handle io2 x env2 h1)"
    if e: "Typ env2 = TypeSend" "QueueID env2 = q2" "env_ok env2" "send_stores io2 env2 h1" for io2 x env2
  proof -
    obtain qs' h' s where f: "find_queue io2 (QueueID env2) h1 = Inr (qs', h')"
      "SaveMessage (f_save io2) (fk_on io2) (sent_message io2 env2) (db h1) = Some s"
      using e(4) by (auto simp: send_stores_def split: sum.splits)
    have "qs' = qs2" using f(1) q e(2) by (simp add: find_queue_def split: if_splits)
    with send_to_kicked [OF f(1) _ h1(3) f(2) e(3), of x] m2(2) e(1) show ?thesis
      by (simp add: handle_def proto_simps)
  qed
  with h1(1,2) t show ?thesis by (auto simp: handle_def proto_simps)
qed

definition demo_qid2 :: string where
  "demo_qid2 = replicate 32 (CHR ''b'')"

definition two_queues :: hub where
  "two_queues = demo_hub\<lparr>queues := [(demo_qid, \<lparr>owner = None, sub = Some 1\<rparr>), (demo_qid2, \<lparr>owner = None, sub = Some 1\<rparr>)],
     db := demo_store\<lparr>queues_tab := queues_tab demo_store @ [\<lparr>qid_col = demo_qid2, created_at = 1, last_active = 1\<rparr>]\<rparr>\<rparr>"

lemma demo_qid2_facts [simp]: "ValidQueueID demo_qid2" "demo_qid2 \<noteq> demo_qid"
  by (simp_all add: demo_qid2_def demo_qid_def ValidQueueID_iff list_all_iff hex_val_def)

lemma two_queues_good: "good {0, 1} two_queues"
  by (auto simp: good_def two_queues_def demo_hub_def hub_inv_def table_inv_def conn_inv_new tidy_def uses_def
      demo_store_def db_inv_def store_inv_def none_delivered_def demo_qid2_facts(2) [symmetric]
      simp del: demo_db_inv)

theorem kick_then_send_crashes_witness:
  "\<exists>h1. handle demo_io 0 (demo_env TypeSub []) two_queues = Ret h1 \<and> 1 \<notin> clients h1"
proof -
  have m: "map_of (queues two_queues) (QueueID (demo_env TypeSub [])) = Some \<lparr>owner = None, sub = Some 1\<rparr>"
    "map_of (queues two_queues) demo_qid2 = Some \<lparr>owner = None, sub = Some 1\<rparr>"
    by (simp_all add: two_queues_def demo_env_def)
  from kick_then_send_crashes [OF two_queues_good _ _ _ _ m(1) _ _ m(2), of 0 1 demo_io] show ?thesis
    by (auto simp: demo_env_def)
qed



text \<open>
  No channel is ever closed twice: kicking and unregistering never panic in a reachable hub, and the
  late Unregister of a connection that was kicked changes nothing.
\<close>

theorem no_double_close:
  assumes "hub_inv h"
  shows "\<exists>h1. kick c h = Ret h1 \<and> c \<notin> clients h1 \<and> hub_unregister c h1 = Ret h1 \<and> \<not> is_panic (hub_unregister c h)"
proof -
  obtain h1 where k: "kick c h = Ret h1" "c \<notin> clients h1" "queues h1 = queues h"
    using assms by (cases "c \<in> clients h") (auto simp: kick_def on_conn_def chan_close_def hub_inv_def)
  have "length q = 32" if "(q, qs) \<in> set (queues h)" for q qs
    using assms that ValidQueueID_length [of q] by (force simp: hub_inv_def table_inv_def)
  then have "\<not> is_panic (releaseQueue c h1)" by (auto simp: releaseQueue_def k(3))
  then have "\<not> is_panic (hub_unregister c h)" using k(1) by (simp add: hub_unregister_kick go_simps)
  with k show ?thesis by (auto simp: hub_unregister_def)
qed

theorem no_double_close_witness: "\<not> is_panic (hub_unregister 1 demo_hub)"
  using no_double_close [of demo_hub 1] demo_good by (auto simp: good_def)

subsection \<open>The database\<close>

text \<open>
  C24.  A sweep without driver errors removes exactly the queues whose last activity is older than
  the limit, with their messages, succeeds under foreign keys too, and reports no acknowledged
  residue; a queue that was never active (last activity 0) stays.
\<close>

theorem sweep_removes_exactly_the_expired:
  assumes "db_inv s" "Sweep (False, False, False) fk now ttl grace s = (s', res)"
  shows "qids s' = qids s - expired_qids (now - ttl) s \<and>
    (\<forall>q. pending s' q = (if q \<in> expired_qids (now - ttl) s then [] else pending s q)) \<and>
    (\<exists>nq nm. res = Some (nq, nm, 0)) \<and>
    (\<forall>r \<in> set (queues_tab s). last_active r = 0 \<longrightarrow> qid_col r \<in> qids s')"
proof -
  have i: "none_delivered s" "store_inv s" using assms(1) by (simp_all add: db_inv_def)
  have s': "s' = swept (now - ttl) s" and r: "\<exists>nq nm. res = Some (nq, nm, 0)"
    using assms(2) by (auto simp: Sweep_ok [OF i(1)])
  have "mailbox_of s' = mail_step (Expire (expired_qids (now - ttl) s)) (mailbox_of s)"
    unfolding s' by (rule mailbox_swept [OF i(2)])
  then have q: "qids s' = qids s - expired_qids (now - ttl) s"
    by (metis mail_step.simps(6) mailbox.select_convs(1) mailbox_of_simps(1))
  have "qid_col r \<in> qids s'" if "r \<in> set (queues_tab s)" "last_active r = 0" for r
    using that by (force simp: s' swept_def qids_def expired_def)
  with q r show ?thesis by (simp add: s' pending_swept_full)
qed

theorem sweep_removes_exactly_the_expired_witness:
  "qids (fst (Sweep (False, False, False) True 1000 100 50 demo_store)) = {}"
proof -
  obtain s' res where e: "Sweep (False, False, False) True 1000 100 50 demo_store = (s', res)"
    by (cases "Sweep (False, False, False) True 1000 100 50 demo_store")
  have "expired_qids (1000 - 100) demo_store = {demo_qid}"
    by (simp add: expired_qids_def expired_def demo_store_def)
  with sweep_removes_exactly_the_expired [OF demo_db_inv e] e show ?thesis by simp
qed

text \<open>
  Whatever statement of a sweep fails, and whatever the order, the pending messages of a queue
  that is not expired are untouched.
\<close>

theorem sweep_never_touches_a_live_queue:
  assumes "db_inv s" "q \<notin> expired_qids (now - ttl) s"
  shows "pending (fst (Sweep faults fk now ttl grace s)) q = pending s q"
  using Sweep_keeps_live [OF _ assms(2)] assms(1) by (simp add: db_inv_def)

theorem sweep_never_touches_a_live_queue_witness:
  "pending (fst (Sweep (False, True, False) True 50 100 10 demo_store)) demo_qid = pending demo_store demo_qid"
  by (rule sweep_never_touches_a_live_queue [OF demo_db_inv]) (simp add: expired_qids_def expired_def demo_store_def)



text \<open>
  A message sent without a payload and stored while nobody is subscribed is acknowledged but can never be
  replayed: its empty body does not encode, and the frame is silently skipped.
\<close>

theorem message_without_payload_is_never_replayed:
  assumes "Payload env = None"
  shows "replay_frame io q (i, sent_message io' env) = None"
  using assms by (simp add: replay_frame_def sent_message_def payload_bytes_def frame_of_def NewEnvelope_def json_compact_def)

theorem message_without_payload_is_never_replayed_witness:
  "replay_frame demo_io demo_qid (0, sent_message demo_io (demo_env TypeSend ''m''\<lparr>Payload := None\<rparr>)) = None"
  by (rule message_without_payload_is_never_replayed) simp

text \<open>
  A queue the sweep removed from the database while the hub still had it in its table is not reported as
  missing: a SEND to it fails on the foreign key and is answered with 500, not 404.
\<close>

theorem swept_queue_is_not_reported_missing:
  assumes g: "good C h" and ok: "io_ok io" and c: "c \<in> C" and t: "Typ env = TypeSend"
    and q: "map_of (queues h) (QueueID env) = Some qs" "QueueID env \<notin> qids (db h)" "fk_on io"
  shows "handle io c env h =
    Ret (post c (frame_of (clock io 1) TypeError [] [] (ErrorMessage 500 ''storage error'')) h)"
proof -
  have v: "ValidQueueID (QueueID env)" using map_of_valid [OF _ q(1)] g by (simp add: good_def hub_inv_def)
  then have fq: "find_queue io (QueueID env) h = Inr (qs, h)" using q(1) by (simp add: find_queue_def)
  have "SaveMessage (f_save io) (fk_on io) (sent_message io env) (db h) = None"
    using q(2,3) by (simp add: SaveMessage_def sent_message_def)
  with fq t error_to_good [OF g c] show ?thesis by (simp add: handle_def proto_simps handle_send_def Let_def)
qed

theorem swept_queue_is_not_reported_missing_witness:
  "handle demo_io 0 (demo_env TypeSend ''message1'') (demo_hub\<lparr>db := empty_store\<rparr>) =
     Ret (post 0 (frame_of 100 TypeError [] [] (ErrorMessage 500 ''storage error'')) (demo_hub\<lparr>db := empty_store\<rparr>))"
proof -
  have g: "good {0, 1} (demo_hub\<lparr>db := empty_store\<rparr>)"
    using demo_good db_inv_empty by (intro good_db) auto
  have "map_of (queues (demo_hub\<lparr>db := empty_store\<rparr>)) (QueueID (demo_env TypeSend ''message1''))
      = Some \<lparr>owner = Some 0, sub = Some 1\<rparr>" by (simp add: demo_hub_def demo_env_def)
  from swept_queue_is_not_reported_missing [OF g demo_io_ok _ _ this, of 0] show ?thesis
    by (simp add: demo_env_def demo_io_def qids_def empty_store_def)
qed

subsection \<open>Frames\<close>

text \<open>
  C26.  What an endpoint sends is what the other parses: any envelope with a payload that fits comes back with its
  type, identifiers (invalid UTF-8 replaced), time and compacted payload.
\<close>

theorem frame_round_trip:
  assumes "sendable pl" "int64_range now" "t \<noteq> []"
  shows "\<exists>f. frame_of now t q m pl = Some f \<and>
    Parse f = Inr \<lparr>Version = 1, Typ = to_valid_utf8 t, QueueID = to_valid_utf8 q,
      MsgID = to_valid_utf8 m, TS = now, Payload = Some (payload_text pl)\<rparr>"
  using frame_of_sendable [OF assms(1)] frame_of_Parse [OF assms] by blast

theorem frame_round_trip_witness:
  "\<exists>f. frame_of 7 TypeSend demo_qid [] (ChatMessage ''hi'') = Some f \<and> TS (projr (Parse f)) = 7"
proof -
  have "sendable (ChatMessage ''hi'')" "int64_range 7" "TypeSend \<noteq> []"
    by (simp_all add: sendable_def int64_range_def proto_simps)
  from frame_round_trip [OF this, of demo_qid "[]"] show ?thesis by auto
qed

text \<open>
  C27.  \<open>Parse\<close> accepts only version 1 envelopes with a type, and the payload of an accepted envelope is
  one JSON value that the relay can send on.
\<close>

theorem parsed_envelopes_are_deliverable:
  assumes "Parse data = Inr e"
  shows "Version e = 1 \<and> Typ e \<noteq> [] \<and> (\<forall>p. Payload e = Some p \<longrightarrow> json_valid p) \<and>
    frame_of now t q m (RawMessage (Payload e)) \<noteq> None"
proof -
  have "env_ok e" using assms by (rule Parse_env_ok)
  then have "sendable (RawMessage (Payload e))" by (auto simp: sendable_def env_ok_def split: option.split)
  then have "frame_of now t q m (RawMessage (Payload e)) \<noteq> None" using frame_of_sendable by simp
  moreover have "\<forall>p. Payload e = Some p \<longrightarrow> json_valid p"
    using Parse_SomeD(3) [OF assms] json_text_valid json_text_mono [of "max_nesting - 1" _ max_nesting] by auto
  ultimately show ?thesis using Parse_SomeD(1,2) [OF assms] by blast
qed

theorem parsed_envelopes_are_deliverable_witness:
  "\<exists>f e. frame_of 7 TypePing [] [] NoPayload = Some f \<and> Parse f = Inr e \<and> Version e = 1"
proof -
  have s: "sendable NoPayload" "int64_range 7" "TypePing \<noteq> []"
    by (simp_all add: sendable_def int64_range_def proto_simps)
  obtain f where f: "frame_of 7 TypePing [] [] NoPayload = Some f" using frame_of_sendable [OF s(1)] by blast
  from parsed_envelopes_are_deliverable [OF frame_of_Parse [OF s f]] frame_of_Parse [OF s f] f
  show ?thesis by auto
qed

text \<open>
  \<open>NewID\<close> makes queue names \<open>ValidQueueID\<close> accepts, different for different random bytes; \<open>ValidQueueID\<close>
  accepts exactly 32 hexadecimal digits, upper case included.
\<close>

theorem queue_identifiers:
  "(ValidQueueID q \<longleftrightarrow> length q = 32 \<and> list_all (\<lambda>c. hex_val c \<noteq> None) q) \<and>
   (length b = 16 \<longrightarrow> (\<exists>i. NewID (Some b) = Some i \<and> ValidQueueID i)) \<and>
   (NewID (Some b) = NewID (Some b') \<longrightarrow> b = b') \<and>
   ValidQueueID (replicate 32 (CHR ''A''))"
  using ValidQueueID_iff [of q] NewID_valid [of b] hex.encode_inject [of b b']
  by (auto simp: NewID_def ValidQueueID_iff list_all_iff hex_val_def)

theorem queue_identifiers_witness: "ValidQueueID (replicate 32 (CHR ''A''))"
  using queue_identifiers by blast

text \<open>
  The writer of a connection puts the queued frames on the socket in order, each once, and says goodbye
  only after the last of them.
\<close>

theorem writer_drains_in_order:
  assumes "length (buf c) < n"
  shows "drain n c = map TextMsg (buf c) @ (if closed c then [CloseMsg] else [])"
  by (rule drain_wire [OF assms])

theorem writer_drains_in_order_witness:
  "drain 3 \<lparr>buf = [''a'', ''b''], closed = True\<rparr> = [TextMsg ''a'', TextMsg ''b'', CloseMsg]"
  using writer_drains_in_order [of "\<lparr>buf = [''a'', ''b''], closed = True\<rparr>" 3] by simp

end
