(* ===== verification/Base64.thy ===== *)
theory Base64
  imports Go_Strings
begin

text \<open>
  \<open>encoding/base64\<close>: \<open>RawURLEncoding\<close> (the key of an invite) and \<open>StdEncoding\<close> (byte slices in
  JSON).  The decoders skip carriage returns and newlines and, as Go's do unless strict, ignore the
  unused bits of the last character.
\<close>

subsection \<open>The alphabets\<close>

text \<open>\<open>url\<close> selects the alphabet with minus and underscore for 62 and 63.\<close>

definition b64_char :: "bool \<Rightarrow> nat \<Rightarrow> char" where
  "b64_char url n =
     (if n < 26 then char_of (65 + n) else if n < 52 then char_of (71 + n)
      else if n < 62 then char_of (n - 4)
      else if n = 62 then (if url then CHR ''-'' else CHR ''+'')
      else if url then CHR ''_'' else CHR ''/'')"

definition b64_val :: "bool \<Rightarrow> char \<Rightarrow> nat option" where
  "b64_val url c =
     (let b = byte c in
      if 65 \<le> b \<and> b \<le> 90 then Some (b - 65) else if 97 \<le> b \<and> b \<le> 122 then Some (b - 71)
      else if 48 \<le> b \<and> b \<le> 57 then Some (b + 4)
      else if c = (if url then CHR ''-'' else CHR ''+'') then Some 62
      else if c = (if url then CHR ''_'' else CHR ''/'') then Some 63
      else None)"

lemma b64_val_char [simp]: "n < 64 \<Longrightarrow> b64_val url (b64_char url n) = Some n"
  by (cases "n = 62"; cases "n = 63") (auto simp: b64_val_def b64_char_def Let_def)

definition pad_char :: char where "pad_char = CHR ''=''"

lemma b64_char_not_pad [simp]: "n < 64 \<Longrightarrow> b64_char url n \<noteq> pad_char"
proof -
  have "b64_val url pad_char = None" by (cases url) (simp_all add: b64_val_def pad_char_def Let_def)
  then show "n < 64 \<Longrightarrow> b64_char url n \<noteq> pad_char" by (metis b64_val_char option.distinct(1))
qed

subsection \<open>Groups\<close>

definition six1 :: "char \<Rightarrow> nat" where "six1 x = byte x div 4"
definition six2 :: "char \<Rightarrow> nat \<Rightarrow> nat" where "six2 x y = byte x mod 4 * 16 + y div 16"
definition six3 :: "nat \<Rightarrow> nat \<Rightarrow> nat" where "six3 y z = y mod 16 * 4 + z div 64"

definition out1 :: "nat \<Rightarrow> nat \<Rightarrow> char" where "out1 a b = char_of (a * 4 + b div 16)"
definition out2 :: "nat \<Rightarrow> nat \<Rightarrow> char" where "out2 b c = char_of (b mod 16 * 16 + c div 4)"
definition out3 :: "nat \<Rightarrow> nat \<Rightarrow> char" where "out3 c d = char_of (c mod 4 * 64 + d)"

lemma six_less [simp]: "six1 x < 64" "y < 256 \<Longrightarrow> six2 x y < 64" "z < 256 \<Longrightarrow> six3 y z < 64" "n mod 64 < (64 :: nat)"
proof -
  show "six1 x < 64" using byte_less_256 [of x] by (simp add: six1_def less_mult_imp_div_less)
  have "byte x mod 4 < 4" "y mod 16 < 16" by simp_all
  then show "y < 256 \<Longrightarrow> six2 x y < 64" "z < 256 \<Longrightarrow> six3 y z < 64"
    by (auto simp: six2_def six3_def less_mult_imp_div_less)
qed simp

lemma char_of_byte_eq: "n = byte c \<Longrightarrow> char_of n = c"
  by (simp add: char_of_char)

lemma out1_six: "y < 256 \<Longrightarrow> out1 (six1 x) (six2 x y) = x"
  unfolding out1_def six1_def six2_def
  by (rule char_of_byte_eq) (simp add: div_add_self2 less_mult_imp_div_less)

lemma out2_six: "z < 256 \<Longrightarrow> out2 (six2 x (byte y)) (six3 (byte y) z) = y"
  unfolding out2_def six2_def six3_def
  by (rule char_of_byte_eq) (simp add: less_mult_imp_div_less)

lemma out3_six: "out3 (six3 y (byte z)) (byte z mod 64) = z"
  unfolding out3_def six3_def
  by (rule char_of_byte_eq) (use byte_less_256 [of z] in \<open>simp add: less_mult_imp_div_less\<close>)

subsection \<open>Raw (no padding)\<close>

fun b64_raw :: "bool \<Rightarrow> bytes \<Rightarrow> string" where
  "b64_raw url [] = []"
| "b64_raw url [x] = map (b64_char url) [six1 x, six2 x 0]"
| "b64_raw url [x, y] = map (b64_char url) [six1 x, six2 x (byte y), six3 (byte y) 0]"
| "b64_raw url (x # y # z # r) =
     map (b64_char url) [six1 x, six2 x (byte y), six3 (byte y) (byte z), byte z mod 64] @ b64_raw url r"

definition not_newline :: "char \<Rightarrow> bool" where
  "not_newline c \<longleftrightarrow> byte c \<noteq> 10 \<and> byte c \<noteq> 13"

fun b64_raw_groups :: "bool \<Rightarrow> string \<Rightarrow> bytes option" where
  "b64_raw_groups url [] = Some []"
| "b64_raw_groups url [a] = None"
| "b64_raw_groups url [a, b] =
     (case (b64_val url a, b64_val url b) of (Some i, Some j) \<Rightarrow> Some [out1 i j] | _ \<Rightarrow> None)"
| "b64_raw_groups url [a, b, c] =
     (case (b64_val url a, b64_val url b, b64_val url c) of
        (Some i, Some j, Some k) \<Rightarrow> Some [out1 i j, out2 j k] | _ \<Rightarrow> None)"
| "b64_raw_groups url (a # b # c # d # r) =
     (case (b64_val url a, b64_val url b, b64_val url c, b64_val url d) of
        (Some i, Some j, Some k, Some l) \<Rightarrow>
          map_option (\<lambda>bs. out1 i j # out2 j k # out3 k l # bs) (b64_raw_groups url r)
      | _ \<Rightarrow> None)"

definition b64_raw_decode :: "bool \<Rightarrow> string \<Rightarrow> bytes option" where
  "b64_raw_decode url s = b64_raw_groups url (filter not_newline s)"

lemma b64_char_not_newline [simp]: "n < 64 \<Longrightarrow> not_newline (b64_char url n)"
  by (auto simp: not_newline_def b64_char_def)

definition in_alphabet :: "bool \<Rightarrow> char \<Rightarrow> bool" where
  "in_alphabet url c \<longleftrightarrow> b64_val url c \<noteq> None"

lemma in_alphabet_char [simp]: "n < 64 \<Longrightarrow> in_alphabet url (b64_char url n)"
  by (simp add: in_alphabet_def)

lemma in_alphabet_not_newline: "in_alphabet url c \<Longrightarrow> not_newline c"
  by (auto simp: in_alphabet_def b64_val_def not_newline_def Let_def split: if_splits)

lemma b64_raw_chars: "list_all (in_alphabet url) (b64_raw url bs)"
  by (induction url bs rule: b64_raw.induct) simp_all

lemma b64_raw_filter [simp]: "filter not_newline (b64_raw url bs) = b64_raw url bs"
  using b64_raw_chars [of url bs] in_alphabet_not_newline by (simp add: list_all_iff filter_id_conv) blast

lemma b64_raw_groups_enc: "b64_raw_groups url (b64_raw url bs) = Some bs"
  by (induction url bs rule: b64_raw.induct)
    (simp_all add: out1_six out2_six out3_six)

lemma b64_raw_decode_enc [simp]: "b64_raw_decode url (b64_raw url bs) = Some bs"
  by (simp add: b64_raw_decode_def b64_raw_groups_enc)

interpretation b64raw: codec "b64_raw url" "b64_raw_decode url" "\<lambda>_. True" for url
  by unfold_locales simp

subsection \<open>Standard (padded)\<close>

fun b64_std :: "bytes \<Rightarrow> string" where
  "b64_std [] = []"
| "b64_std [x] = map (b64_char False) [six1 x, six2 x 0] @ [pad_char, pad_char]"
| "b64_std [x, y] = map (b64_char False) [six1 x, six2 x (byte y), six3 (byte y) 0] @ [pad_char]"
| "b64_std (x # y # z # r) =
     map (b64_char False) [six1 x, six2 x (byte y), six3 (byte y) (byte z), byte z mod 64] @ b64_std r"

fun b64_std_groups :: "string \<Rightarrow> bytes option" where
  "b64_std_groups [] = Some []"
| "b64_std_groups (a # b # c # d # r) =
     (if d = pad_char then
        (if r \<noteq> [] then None
         else if c = pad_char then b64_raw_groups False [a, b] else b64_raw_groups False [a, b, c])
      else
        (case (b64_val False a, b64_val False b, b64_val False c, b64_val False d) of
           (Some i, Some j, Some k, Some l) \<Rightarrow>
             map_option (\<lambda>bs. out1 i j # out2 j k # out3 k l # bs) (b64_std_groups r)
         | _ \<Rightarrow> None))"
| "b64_std_groups _ = None"

definition b64_std_decode :: "string \<Rightarrow> bytes option" where
  "b64_std_decode s = b64_std_groups (filter not_newline s)"

lemma pad_not_newline [simp]: "not_newline pad_char"
  by (simp add: not_newline_def pad_char_def)

lemma b64_std_chars: "list_all (\<lambda>c. c = pad_char \<or> in_alphabet False c) (b64_std bs)"
  by (induction bs rule: b64_std.induct) simp_all

lemma b64_std_filter [simp]: "filter not_newline (b64_std bs) = b64_std bs"
  using b64_std_chars [of bs] in_alphabet_not_newline by (auto simp: list_all_iff filter_id_conv)

lemma b64_std_groups_enc: "b64_std_groups (b64_std bs) = Some bs"
  by (induction bs rule: b64_std.induct) (simp_all add: out1_six out2_six out3_six)

lemma b64_std_decode_enc [simp]: "b64_std_decode (b64_std bs) = Some bs"
  by (simp add: b64_std_decode_def b64_std_groups_enc)

interpretation b64std: codec b64_std b64_std_decode "\<lambda>_. True"
  by unfold_locales simp

end
