(* ===== verification/Knock_Crypto.thy ===== *)
theory Knock_Crypto
  imports Envelope Base64 Sha256
begin

text \<open>
  \<open>crypto/crypto.go\<close>: identities, their JSON file format, key derivation, encryption, signatures and
  the fingerprint.  The elliptic curves, HKDF and the AEAD are code outside the repository: the record
  \<open>prims\<close> holds them as parameters.
\<close>

subsection \<open>Primitives outside the repository\<close>

record prims =
  X25519 :: "bytes \<Rightarrow> bytes \<Rightarrow> bytes option"
  Basepoint :: bytes
  Hkdf32 :: "bytes \<Rightarrow> bytes \<Rightarrow> bytes"
  XSeal :: "bytes \<Rightarrow> bytes \<Rightarrow> bytes \<Rightarrow> bytes \<Rightarrow> bytes"
  XOpen :: "bytes \<Rightarrow> bytes \<Rightarrow> bytes \<Rightarrow> bytes \<Rightarrow> bytes option"
  EdKey :: "bytes \<Rightarrow> bytes"
  EdPublic :: "bytes \<Rightarrow> bytes"
  EdSign :: "bytes \<Rightarrow> bytes \<Rightarrow> bytes"
  EdVerify :: "bytes \<Rightarrow> bytes \<Rightarrow> bytes \<Rightarrow> bool"

text \<open>\<open>copy(dst[:], src)\<close> into a zeroed array of 32 bytes.\<close>

definition zeros :: "nat \<Rightarrow> bytes" where
  "zeros n = replicate n (CHR 0x00)"

definition copy32 :: "bytes \<Rightarrow> bytes" where
  "copy32 b = take 32 b @ zeros (32 - length b)"

lemma length_copy32 [simp]: "length (copy32 b) = 32"
  by (simp add: copy32_def zeros_def)

lemma copy32_id [simp]: "length b = 32 \<Longrightarrow> copy32 b = b"
  by (simp add: copy32_def zeros_def)

subsection \<open>Identities\<close>

text \<open>A nil signing key is \<open>None\<close>.\<close>

record identity =
  SignPriv :: "bytes option"
  SignPub :: "bytes option"
  BoxPriv :: bytes
  BoxPub :: bytes

text \<open>\<open>r1\<close> are the 32 random bytes of the box key, \<open>r2\<close> the 32 of the signing seed.\<close>

definition GenerateIdentity :: "prims \<Rightarrow> bytes option \<Rightarrow> bytes option \<Rightarrow> identity option" where
  "GenerateIdentity p r1 r2 =
     (case r1 of None \<Rightarrow> None
      | Some priv \<Rightarrow>
          (case X25519 p priv (Basepoint p) of None \<Rightarrow> None
           | Some pub \<Rightarrow>
               (case r2 of None \<Rightarrow> None
                | Some seed \<Rightarrow> Some \<lparr>SignPriv = Some (EdKey p seed), SignPub = Some (EdPublic p (EdKey p seed)),
                                    BoxPriv = priv, BoxPub = copy32 pub\<rparr>)))"

definition enc_bytes :: "bytes option \<Rightarrow> string" where
  "enc_bytes b = (case b of None \<Rightarrow> ''null'' | Some x \<Rightarrow> dquote # b64_std x @ [dquote])"

text \<open>A map is encoded with its keys sorted, and \<open>Encode\<close> ends with a newline.\<close>

definition Save :: "identity \<Rightarrow> string" where
  "Save i = enc_object [(''v1_box_priv'', enc_bytes (Some (BoxPriv i))), (''v1_sign_priv'', enc_bytes (SignPriv i))]
            @ [CHR 0x0A]"

subsection \<open>Reading a JSON map of byte slices\<close>

text \<open>
  \<open>Decoder.Decode\<close> reads one value and leaves the rest of the stream; a scalar must end there or before
  white space.
\<close>

definition json_stream :: "string \<Rightarrow> json option" where
  "json_stream s =
     (case jvalue (Suc (2 * length s)) max_nesting (skip_ws s) of
        None \<Rightarrow> None
      | Some (v, r) \<Rightarrow>
          (case v of JObj ms \<Rightarrow> Some v | JArr vs \<Rightarrow> Some v
           | _ \<Rightarrow> if r = [] \<or> is_ws (hd r) then Some v else None))"

definition byte_of_json :: "json \<Rightarrow> char option" where
  "byte_of_json v =
     (case v of JNull \<Rightarrow> Some (CHR 0x00)
      | JNum t \<Rightarrow> (case parse_digits t of Some n \<Rightarrow> if n < 256 then Some (char_of n) else None | None \<Rightarrow> None)
      | _ \<Rightarrow> None)"

text \<open>A byte slice: a base64 string, an array of numbers, or null; \<open>None\<close> is a decoding error.\<close>

definition bytes_of_json :: "json \<Rightarrow> bytes option option" where
  "bytes_of_json v =
     (case v of JNull \<Rightarrow> Some None
      | JStr t \<Rightarrow> map_option Some (b64_std_decode (unquote t))
      | JArr vs \<Rightarrow> if list_all (\<lambda>x. byte_of_json x \<noteq> None) vs then Some (Some (map (the \<circ> byte_of_json) vs)) else None
      | _ \<Rightarrow> None)"

definition byte_map :: "json \<Rightarrow> (string \<times> bytes option) list option" where
  "byte_map v =
     (case v of JNull \<Rightarrow> Some []
      | JObj ms \<Rightarrow>
          if list_all (\<lambda>(k, v, raw). bytes_of_json v \<noteq> None) ms
          then Some (rev (map (\<lambda>(k, v, raw). (unquote k, the (bytes_of_json v))) ms)) else None
      | _ \<Rightarrow> None)"

definition LoadIdentity :: "prims \<Rightarrow> string \<Rightarrow> identity option" where
  "LoadIdentity p s =
     (case Option.bind (json_stream s) byte_map of
        None \<Rightarrow> None
      | Some raw \<Rightarrow>
          let sp = (case map_of raw ''v1_sign_priv'' of Some (Some b) \<Rightarrow> if length b = 64 then Some b else None | _ \<Rightarrow> None);
              bp = (case map_of raw ''v1_box_priv'' of Some (Some b) \<Rightarrow> if length b = 32 then b else zeros 32 | _ \<Rightarrow> zeros 32)
          in case X25519 p bp (Basepoint p) of None \<Rightarrow> None
             | Some pub \<Rightarrow> Some \<lparr>SignPriv = sp, SignPub = map_option (EdPublic p) sp, BoxPriv = bp, BoxPub = copy32 pub\<rparr>)"

subsection \<open>Keys, encryption, signatures\<close>

definition key_info :: "bool \<Rightarrow> string" where
  "key_info dirA2B = (if dirA2B then ''knock-m3-v1:a2b'' else ''knock-m3-v1:b2a'')"

definition DeriveKey :: "prims \<Rightarrow> bytes \<Rightarrow> bytes \<Rightarrow> bool \<Rightarrow> bytes option" where
  "DeriveKey p myBoxPriv peerBoxPub dirA2B =
     map_option (\<lambda>shared. Hkdf32 p shared (key_info dirA2B)) (X25519 p myBoxPriv peerBoxPub)"

text \<open>\<open>chacha20poly1305.NewX\<close> fails on a key that is not 32 bytes long; \<open>r\<close> are the nonce's random bytes.\<close>

definition Encrypt :: "prims \<Rightarrow> bytes option \<Rightarrow> bytes \<Rightarrow> bytes \<Rightarrow> bytes \<Rightarrow> (bytes \<times> bytes) option" where
  "Encrypt p r key plaintext aad =
     (if length key \<noteq> 32 then None
      else case r of None \<Rightarrow> None | Some nonce \<Rightarrow> Some (XSeal p key nonce plaintext aad, nonce))"

definition Decrypt :: "prims \<Rightarrow> bytes \<Rightarrow> bytes \<Rightarrow> bytes \<Rightarrow> bytes \<Rightarrow> bytes option" where
  "Decrypt p key ciphertext aad nonce = (if length key \<noteq> 32 then None else XOpen p key nonce ciphertext aad)"

definition Sign :: "prims \<Rightarrow> bytes \<Rightarrow> bytes \<Rightarrow> bytes" where
  "Sign p priv msg = EdSign p priv msg"

definition Verify :: "prims \<Rightarrow> bytes \<Rightarrow> bytes \<Rightarrow> bytes \<Rightarrow> bool" where
  "Verify p pub msg sig = EdVerify p pub msg sig"

subsection \<open>Fingerprint\<close>

definition to_upper :: "char \<Rightarrow> char" where
  "to_upper c = (if 97 \<le> byte c \<and> byte c \<le> 122 then char_of (byte c - 32) else c)"

fun pair_up :: "string \<Rightarrow> string" where
  "pair_up [] = []"
| "pair_up [a] = [to_upper a]"
| "pair_up [a, b] = [to_upper a, to_upper b]"
| "pair_up (a # b # r) = to_upper a # to_upper b # CHR '' '' # pair_up r"

definition Fingerprint :: "bytes \<Rightarrow> string" where
  "Fingerprint boxPub = pair_up (hex_encode (take 8 (sha256 boxPub)))"

subsection \<open>Facts\<close>

lemma hex_encode_Cons [simp]: "hex_encode (x # xs) = hex_digit (byte x div 16) # hex_digit (byte x mod 16) # hex_encode xs"
  by (simp add: hex_encode_def hex_byte_def)

lemma hex_encode_Nil [simp]: "hex_encode [] = []"
  by (simp add: hex_encode_def)

lemma length_pair_up: "xs \<noteq> [] \<Longrightarrow> length (pair_up (hex_encode xs)) = 3 * length xs - 1"
proof (induction xs)
  case (Cons x xs)
  show ?case
  proof (cases xs)
    case (Cons y ys)
    then have "length (pair_up (hex_encode xs)) = 3 * length xs - 1" using Cons.IH by simp
    then show ?thesis using Cons by simp
  qed simp
qed simp

lemma to_upper_hex: "n < 16 \<Longrightarrow> to_upper (hex_digit n) \<noteq> CHR '' ''"
  using hex_digit_props(2) [of n] by (auto simp: to_upper_def is_lower_hex_def is_dec_digit_def)

lemma remove_pair_up: "remove_all (CHR '' '') (pair_up (hex_encode xs)) = map to_upper (hex_encode xs)"
proof (induction xs)
  case (Cons x xs)
  have n: "to_upper (hex_digit (byte x div 16)) \<noteq> CHR '' ''" "to_upper (hex_digit (byte x mod 16)) \<noteq> CHR '' ''"
    by (rule to_upper_hex, simp)+
  show ?case
  proof (cases xs)
    case (Cons y ys)
    then show ?thesis using n Cons.IH by (simp add: remove_all_def)
  qed (use n in \<open>simp add: remove_all_def\<close>)
qed (simp add: remove_all_def)

lemma Fingerprint_length: "length (Fingerprint b) = 23"
proof -
  have "length (take 8 (sha256 b)) = 8" by simp
  then have "take 8 (sha256 b) \<noteq> []" by (metis list.size(3) zero_neq_numeral)
  from length_pair_up [OF this] show ?thesis by (simp add: Fingerprint_def)
qed

lemma Fingerprint_hex: "remove_all (CHR '' '') (Fingerprint b) = map to_upper (hex_encode (take 8 (sha256 b)))"
  by (simp add: Fingerprint_def remove_pair_up)

subsection \<open>The identity file\<close>

lemma html_safe_ascii: "html_safe c \<Longrightarrow> is_ascii c"
  by (simp add: html_safe_def is_ascii_def)

lemma esc_string_safe: "list_all html_safe s \<Longrightarrow> esc_string s = s"
proof (induction s)
  case (Cons c s)
  then have "is_ascii c" "esc_ascii c = [c]" by (simp_all add: html_safe_ascii esc_ascii_def)
  with Cons show ?case by (subst esc_string.simps) simp
qed (simp add: esc_string.simps)

lemma b64_std_safe: "list_all html_safe (b64_std b)"
proof -
  have "html_safe c" if "c = pad_char \<or> in_alphabet False c" for c
    using that by (auto simp: in_alphabet_def b64_val_def pad_char_def html_safe_def Let_def split: if_splits)
  then show ?thesis using b64_std_chars [of b] by (simp add: list_all_iff)
qed

lemma enc_bytes_string: "enc_bytes (Some b) = enc_string (b64_std b)"
  using esc_string_safe [OF b64_std_safe [of b]] by (simp add: enc_bytes_def enc_string_def)

lemma b64_std_utf8 [simp]: "to_valid_utf8 (b64_std b) = b64_std b"
  using b64_std_safe [of b] html_safe_ascii by (intro ascii_valid_utf8) (auto simp: list_all_iff)

lemma json_text_enc_bytes [simp]: "json_text d (enc_bytes b)"
proof (cases b)
  case None
  then show ?thesis by (simp add: enc_bytes_def)
next
  case (Some x)
  show ?thesis unfolding Some enc_bytes_string by simp
qed

lemma json_tree_null [simp]: "json_tree d ''null'' = JNull"
proof (rule json_tree_eq)
  show "jvalue 1 d ''null'' = Some (JNull, [])"
    by (simp add: jvalue_scalar opens_def jscalar_def jlit_def)
qed

lemma bytes_of_enc [simp]: "bytes_of_json (json_tree d (enc_bytes b)) = Some b"
proof (cases b)
  case None
  then show ?thesis by (simp add: enc_bytes_def bytes_of_json_def)
next
  case (Some x)
  show ?thesis unfolding Some enc_bytes_string by (simp add: bytes_of_json_def)
qed

lemma json_stream_object:
  assumes "fs \<noteq> []" "\<forall>(k, t) \<in> set fs. json_text d t" "stops w" "d < max_nesting"
  shows "json_stream (enc_object fs @ w) = Some (JObj (map (\<lambda>(k, t). (esc_string k, json_tree d t, t)) fs))"
proof -
  note o = enc_object_at [OF assms(1,2,4)]
  have "jvalue (Suc (2 * length (enc_object fs @ w))) max_nesting (enc_object fs @ w)
      = Some (json_tree max_nesting (enc_object fs), w)"
    using o by (intro json_text_at assms(3)) auto
  moreover have "skip_ws (enc_object fs @ w) = enc_object fs @ w"
    using o by (intro skip_ws_text_id [of max_nesting]) simp
  ultimately show ?thesis using o by (simp add: json_stream_def)
qed

lemma Save_map:
  "Option.bind (json_stream (Save i)) byte_map =
     Some [(''v1_sign_priv'', SignPriv i), (''v1_box_priv'', Some (BoxPriv i))]"
proof -
  let ?fs = "[(''v1_box_priv'', enc_bytes (Some (BoxPriv i))), (''v1_sign_priv'', enc_bytes (SignPriv i))]"
  have "json_stream (enc_object ?fs @ [CHR 0x0A]) = Some (JObj (map (\<lambda>(k, t). (esc_string k, json_tree 0 t, t)) ?fs))"
    by (rule json_stream_object) (simp_all add: num_char_def is_dec_digit_def)
  moreover have "to_valid_utf8 ''v1_box_priv'' = ''v1_box_priv''" "to_valid_utf8 ''v1_sign_priv'' = ''v1_sign_priv''"
    by (rule ascii_valid_utf8, simp add: is_ascii_def)+
  ultimately show ?thesis by (simp add: Save_def byte_map_def)
qed

definition identity_ok :: "prims \<Rightarrow> identity \<Rightarrow> bool" where
  "identity_ok p i \<longleftrightarrow>
     (\<exists>sp pub. SignPriv i = Some sp \<and> length sp = 64 \<and> SignPub i = Some (EdPublic p sp) \<and> length (BoxPriv i) = 32 \<and>
        X25519 p (BoxPriv i) (Basepoint p) = Some pub \<and> BoxPub i = copy32 pub)"

lemma identity_file_round_trip: "identity_ok p i \<Longrightarrow> LoadIdentity p (Save i) = Some i"
  by (auto simp: LoadIdentity_def Save_map identity_ok_def Let_def)

lemma GenerateIdentity_ok:
  "GenerateIdentity p (Some r1) r2 = Some i \<Longrightarrow> length r1 = 32 \<Longrightarrow> (\<And>s. length (EdKey p s) = 64) \<Longrightarrow> identity_ok p i"
  by (auto simp: GenerateIdentity_def identity_ok_def split: option.splits)

text \<open>A file with no keys is not refused: it gives the identity of the all-zero scalar.\<close>

lemma LoadIdentity_empty_object:
  assumes "X25519 p (zeros 32) (Basepoint p) = Some pub"
  shows "LoadIdentity p ''{}'' = Some \<lparr>SignPriv = None, SignPub = None, BoxPriv = zeros 32, BoxPub = copy32 pub\<rparr>"
proof -
  have "jvalue (Suc 0) max_nesting ''{}'' = Some (JObj [], [])"
    by (simp add: jvalue_object skip_ws_Cons is_ws_def)
  then have "jvalue (Suc (2 * length ''{}'')) max_nesting ''{}'' = Some (JObj [], [])" by (rule jvalue_any_fuel)
  moreover have "skip_ws ''{}'' = ''{}''" by (simp add: skip_ws_Cons is_ws_def)
  ultimately have "json_stream ''{}'' = Some (JObj [])" by (simp add: json_stream_def)
  then show ?thesis using assms by (simp add: LoadIdentity_def byte_map_def)
qed

end
