(* ===== verification/Identity_File.thy ===== *)
theory Identity_File
  imports Knock_Crypto
begin

text \<open>
  \<open>identity/identity.go\<close> over a file system: a map from paths to content and mode.  A write is the list of the
  successive states of the disk, so that a crash anywhere in it leaves one of them.
\<close>

type_synonym fs = "string \<Rightarrow> (bytes \<times> nat) option"

text \<open>Which call of the write fails (\<open>WriteFails n\<close>: after \<open>n\<close> bytes).\<close>

datatype write_fault =
    AllFine | MkdirFails | CreateTempFails | WriteFails nat | CloseFails | ChmodFails | RenameFails

definition private_mode :: nat where "private_mode = 384"

definition temp_state :: "string \<Rightarrow> bytes \<Rightarrow> nat \<Rightarrow> fs \<Rightarrow> fs" where
  "temp_state tmp content n fs = fs(tmp \<mapsto> (take n content, private_mode))"

text \<open>The states while the temporary file grows to \<open>n\<close> bytes.\<close>

definition growing :: "string \<Rightarrow> bytes \<Rightarrow> nat \<Rightarrow> fs \<Rightarrow> fs list" where
  "growing tmp content n fs = map (\<lambda>k. temp_state tmp content k fs) [0..<Suc n]"

text \<open>
  The common pattern: make the directory, create \<open>tmp\<close> beside the target (mode 0600), write, close,
  set the mode if \<open>chmod\<close>, rename.  A failed write, close or chmod removes the temporary file; a failed rename does not.
\<close>

definition write_states :: "bool \<Rightarrow> write_fault \<Rightarrow> string \<Rightarrow> string \<Rightarrow> bytes \<Rightarrow> fs \<Rightarrow> fs list" where
  "write_states chmod f tmp path content fs =
     (let full = growing tmp content (length content) fs in
      case f of
        MkdirFails \<Rightarrow> [fs]
      | CreateTempFails \<Rightarrow> [fs]
      | WriteFails n \<Rightarrow> fs # growing tmp content n fs @ [fs(tmp := None)]
      | CloseFails \<Rightarrow> fs # full @ [fs(tmp := None)]
      | ChmodFails \<Rightarrow> if chmod then fs # full @ [fs(tmp := None)]
                     else fs # full @ [fs(tmp := None, path \<mapsto> (content, private_mode))]
      | RenameFails \<Rightarrow> fs # full
      | AllFine \<Rightarrow> fs # full @ [fs(tmp := None, path \<mapsto> (content, private_mode))])"

definition write_ok :: "bool \<Rightarrow> write_fault \<Rightarrow> bool" where
  "write_ok chmod f \<longleftrightarrow> f = AllFine \<or> f = ChmodFails \<and> \<not> chmod"

definition SaveToFile :: "write_fault \<Rightarrow> string \<Rightarrow> string \<Rightarrow> identity \<Rightarrow> fs \<Rightarrow> fs list" where
  "SaveToFile f tmp path i fs = write_states True f tmp path (Save i) fs"

subsection \<open>Loading or creating\<close>

datatype stat_result = StatOk | StatNotExist | StatError

datatype identity_error = OpenError | CorruptFile | StatFailed | GenerateFailed | SaveFailed

text \<open>
  \<open>stat_fails\<close> and \<open>open_fails\<close> are errors of those calls; the result is the identity, whether it was
  made, and the disk.
\<close>

definition stat :: "bool \<Rightarrow> string \<Rightarrow> fs \<Rightarrow> stat_result" where
  "stat stat_fails path fs = (if stat_fails then StatError else if fs path = None then StatNotExist else StatOk)"

definition LoadOrCreate ::
  "prims \<Rightarrow> bool \<Rightarrow> bool \<Rightarrow> write_fault \<Rightarrow> bytes option \<Rightarrow> bytes option \<Rightarrow> string \<Rightarrow> string \<Rightarrow> fs \<Rightarrow>
     (identity_error + identity \<times> bool) \<times> fs"
where
  "LoadOrCreate p stat_fails open_fails f r1 r2 tmp path fs =
     (case stat stat_fails path fs of
        StatOk \<Rightarrow>
          (if open_fails then (Inl OpenError, fs)
           else case LoadIdentity p (fst (the (fs path))) of
                  None \<Rightarrow> (Inl CorruptFile, fs)
                | Some i \<Rightarrow> (Inr (i, False), fs))
      | StatError \<Rightarrow> (Inl StatFailed, fs)
      | StatNotExist \<Rightarrow>
          (case GenerateIdentity p r1 r2 of
             None \<Rightarrow> (Inl GenerateFailed, fs)
           | Some i \<Rightarrow> (if write_ok True f then Inr (i, True) else Inl SaveFailed, last (SaveToFile f tmp path i fs))))"

text \<open>\<open>DefaultPath\<close>: the environment variable, or the user's configuration directory (clean, without a final slash).\<close>

definition join_path :: "string \<Rightarrow> string \<Rightarrow> string" where
  "join_path dir rest = (if dir = [] then rest else dir @ ''/'' @ rest)"

definition DefaultPath :: "string \<Rightarrow> string option \<Rightarrow> string option" where
  "DefaultPath env dir =
     (if env \<noteq> [] then Some env
      else case dir of None \<Rightarrow> None | Some d \<Rightarrow> Some (join_path d ''knock/identity.json''))"

subsection \<open>Facts\<close>

lemma growing_other: "s \<in> set (growing tmp content n fs) \<Longrightarrow> x \<noteq> tmp \<Longrightarrow> s x = fs x"
  by (auto simp: growing_def temp_state_def)

lemma growing_last: "last (growing tmp content n fs) = temp_state tmp content n fs" "growing tmp content n fs \<noteq> []"
  by (simp_all add: growing_def)

text \<open>Atomicity: at every moment the target is what it was or the complete new content.\<close>

lemma write_atomic:
  assumes "tmp \<noteq> path" "s \<in> set (write_states chmod f tmp path content fs)"
  shows "s path = fs path \<or> s path = Some (content, private_mode)"
  using assms growing_other [of s tmp content _ fs path]
  by (cases f) (auto simp: write_states_def Let_def split: if_splits)

lemma write_result:
  assumes "tmp \<noteq> path"
  shows "last (write_states chmod f tmp path content fs) path =
     (if write_ok chmod f then Some (content, private_mode) else fs path)"
  using assms growing_last
  by (cases f) (auto simp: write_states_def write_ok_def Let_def temp_state_def)

lemma write_leaves_no_temp:
  "fs tmp = None \<Longrightarrow> tmp \<noteq> path \<Longrightarrow> f \<noteq> RenameFails \<Longrightarrow> last (write_states chmod f tmp path content fs) tmp = None"
  by (cases f) (auto simp: write_states_def Let_def)

lemma write_other:
  "x \<noteq> tmp \<Longrightarrow> x \<noteq> path \<Longrightarrow> s \<in> set (write_states chmod f tmp path content fs) \<Longrightarrow> s x = fs x"
  using growing_other [of s tmp content _ fs x]
  by (cases f) (auto simp: write_states_def Let_def split: if_splits)

lemma LoadOrCreate_again:
  assumes "LoadOrCreate p False of1 f (Some r1) r2 tmp path fs = (Inr (i, True), fs')" "tmp \<noteq> path"
    and "length r1 = 32" "\<And>s. length (EdKey p s) = 64"
  shows "LoadOrCreate p False False f' r1' r2' tmp' path fs' = (Inr (i, False), fs')"
proof -
  from assms(1) have g: "GenerateIdentity p (Some r1) r2 = Some i" "write_ok True f"
    and fs': "fs' = last (SaveToFile f tmp path i fs)"
    by (auto simp: LoadOrCreate_def split: stat_result.splits option.splits if_splits)
  have "fs' path = Some (Save i, private_mode)"
    using write_result [OF assms(2)] g(2) by (simp add: fs' SaveToFile_def)
  moreover have "LoadIdentity p (Save i) = Some i"
    by (rule identity_file_round_trip [OF GenerateIdentity_ok [OF g(1) assms(3,4)]])
  ultimately show ?thesis by (simp add: LoadOrCreate_def stat_def)
qed

lemma LoadOrCreate_keeps:
  "fs path = Some c \<Longrightarrow> snd (LoadOrCreate p sf of1 f r1 r2 tmp path fs) = fs"
  by (auto simp: LoadOrCreate_def stat_def split: option.split)

end
