(* ===== verification/Go_Url.thy ===== *)
theory Go_Url
  imports Go_Strings
begin

text \<open>
  \<open>net/url\<close> as the invite uses it: \<open>url.Parse\<close> (scheme, authority with user information, path, query,
  fragment; \<open>None\<close> is a parse error), \<open>Hostname\<close>, \<open>Port\<close>, \<open>Query().Get\<close>, and \<open>String\<close> for a URL
  with a scheme, a host, a path and a query.  How an authority with a bracketed IP literal is
  checked changed between Go releases; it is the parameter \<open>ipl\<close> (the host, or an error).
\<close>

subsection \<open>Cutting strings\<close>

text \<open>\<open>strings.Cut\<close> at the first occurrence of a byte (the rest is empty when there is none).\<close>

definition cut_before :: "char \<Rightarrow> string \<Rightarrow> string" where
  "cut_before c s = takeWhile (\<lambda>x. x \<noteq> c) s"

definition cut_after :: "char \<Rightarrow> string \<Rightarrow> string" where
  "cut_after c s = drop 1 (dropWhile (\<lambda>x. x \<noteq> c) s)"

text \<open>The same at the last occurrence: all up to it, and what follows it (everything when there is none).\<close>

definition last_before :: "char \<Rightarrow> string \<Rightarrow> string" where
  "last_before c s = rev (drop 1 (dropWhile (\<lambda>x. x \<noteq> c) (rev s)))"

definition last_after :: "char \<Rightarrow> string \<Rightarrow> string" where
  "last_after c s = rev (takeWhile (\<lambda>x. x \<noteq> c) (rev s))"

lemma cut_append: "c \<notin> set s \<Longrightarrow> cut_before c (s @ c # t) = s \<and> cut_after c (s @ c # t) = t"
proof -
  assume "c \<notin> set s"
  then have "\<forall>x \<in> set s. x \<noteq> c" by auto
  then show ?thesis by (simp add: cut_before_def cut_after_def)
qed

lemma cut_none: "c \<notin> set s \<Longrightarrow> cut_before c s = s \<and> cut_after c s = []"
proof -
  assume "c \<notin> set s"
  then have "\<forall>x \<in> set s. x \<noteq> c" by auto
  then have "dropWhile (\<lambda>x. x \<noteq> c) s = []" "takeWhile (\<lambda>x. x \<noteq> c) s = s"
    by (simp_all add: takeWhile_eq_all_conv dropWhile_eq_Nil_conv)
  then show ?thesis by (simp only: cut_before_def cut_after_def drop_Nil simp_thms)
qed

lemma last_append: "c \<notin> set t \<Longrightarrow> last_before c (s @ c # t) = s \<and> last_after c (s @ c # t) = t"
proof -
  assume "c \<notin> set t"
  then have "\<forall>x \<in> set (rev t). x \<noteq> c" by auto
  then show ?thesis by (simp add: last_before_def last_after_def)
qed

subsection \<open>Characters\<close>

definition is_letter :: "char \<Rightarrow> bool" where
  "is_letter c \<longleftrightarrow> 65 \<le> byte c \<and> byte c \<le> 90 \<or> 97 \<le> byte c \<and> byte c \<le> 122"

definition is_alnum :: "char \<Rightarrow> bool" where
  "is_alnum c \<longleftrightarrow> is_letter c \<or> is_dec_digit c"

definition is_ctl :: "char \<Rightarrow> bool" where
  "is_ctl c \<longleftrightarrow> byte c < 32 \<or> byte c = 127"

definition to_lower :: "char \<Rightarrow> char" where
  "to_lower c = (if 65 \<le> byte c \<and> byte c \<le> 90 then char_of (byte c + 32) else c)"

definition unreserved :: "char \<Rightarrow> bool" where
  "unreserved c \<longleftrightarrow> is_alnum c \<or> c \<in> set ''-_.~''"

text \<open>\<open>!shouldEscape(c, mode)\<close> for a host and for a path.\<close>

definition host_char :: "char \<Rightarrow> bool" where
  "host_char c \<longleftrightarrow> unreserved c \<or> c \<in> set ''!$&()*+,;=:[]<>'' \<or> byte c = 34 \<or> byte c = 39"

definition path_char :: "char \<Rightarrow> bool" where
  "path_char c \<longleftrightarrow> unreserved c \<or> c \<in> set ''$&+,/:;=@''"

definition upper_hex :: "nat \<Rightarrow> char" where
  "upper_hex n = ''0123456789ABCDEF'' ! n"

definition pct :: "char \<Rightarrow> string" where
  "pct c = [CHR ''%'', upper_hex (byte c div 16), upper_hex (byte c mod 16)]"

definition url_escape :: "(char \<Rightarrow> bool) \<Rightarrow> string \<Rightarrow> string" where
  "url_escape ok s = concat (map (\<lambda>c. if ok c then [c] else pct c) s)"

lemma url_escape_id: "list_all ok s \<Longrightarrow> url_escape ok s = s"
  by (induction s) (auto simp: url_escape_def)

subsection \<open>Unescaping\<close>

datatype mode = ModePath | ModeHost | ModeQuery

text \<open>
  In a host an escape must be for a byte above 127 or be \<open>%25\<close>, and a plain byte below 128 must be one
  that needs no escape.
\<close>

definition escape_allowed :: "mode \<Rightarrow> char \<Rightarrow> char \<Rightarrow> bool" where
  "escape_allowed m a b \<longleftrightarrow> m = ModeHost \<longrightarrow> 8 \<le> the (hex_val a) \<or> a = CHR ''2'' \<and> b = CHR ''5''"

fun url_unescape :: "mode \<Rightarrow> string \<Rightarrow> string option" where
  "url_unescape m [] = Some []"
| "url_unescape m (c # r) =
     (if c = CHR ''%'' then
        (case r of
           a # b # r' \<Rightarrow>
             if hex_val a \<noteq> None \<and> hex_val b \<noteq> None \<and> escape_allowed m a b
             then map_option (Cons (char_of (16 * the (hex_val a) + the (hex_val b)))) (url_unescape m r')
             else None
         | _ \<Rightarrow> None)
      else if m = ModeHost \<and> byte c < 128 \<and> \<not> host_char c then None
      else map_option (Cons (if m = ModeQuery \<and> c = CHR ''+'' then CHR '' '' else c)) (url_unescape m r))"

definition plain_in :: "mode \<Rightarrow> char \<Rightarrow> bool" where
  "plain_in m c \<longleftrightarrow> c \<noteq> CHR ''%'' \<and> (m = ModeQuery \<longrightarrow> c \<noteq> CHR ''+'') \<and> (m = ModeHost \<longrightarrow> host_char c)"

lemma url_unescape_plain: "list_all (plain_in m) s \<Longrightarrow> url_unescape m s = Some s"
  by (induction s) (auto simp: plain_in_def)

subsection \<open>Parsing\<close>

record url =
  Scheme :: string
  Host :: string
  Path :: string
  RawQuery :: string

definition scheme_char :: "char \<Rightarrow> bool" where
  "scheme_char c \<longleftrightarrow> is_alnum c \<or> c \<in> set ''+-.''"

definition get_scheme :: "string \<Rightarrow> (string \<times> string) option" where
  "get_scheme s =
     (let w = takeWhile scheme_char s; r = dropWhile scheme_char s in
      if w \<noteq> [] \<and> \<not> is_letter (hd w) then Some ([], s)
      else case r of
             c # rest \<Rightarrow> if c = CHR '':'' then (if w = [] then None else Some (map to_lower w, rest)) else Some ([], s)
           | [] \<Rightarrow> Some ([], s))"

definition parse_host :: "(string \<Rightarrow> string option) \<Rightarrow> string \<Rightarrow> string option" where
  "parse_host ipl host =
     (if CHR ''['' \<in> set host then ipl host
      else if CHR '':'' \<in> set host \<and> \<not> list_all is_dec_digit (last_after (CHR '':'') host) then None
      else url_unescape ModeHost host)"

definition userinfo_char :: "char \<Rightarrow> bool" where
  "userinfo_char c \<longleftrightarrow> is_alnum c \<or> c \<in> set ''-._:~!$&()*+,;=%@'' \<or> byte c = 39"

definition parse_authority :: "(string \<Rightarrow> string option) \<Rightarrow> string \<Rightarrow> string option" where
  "parse_authority ipl a =
     (if CHR ''@'' \<notin> set a then parse_host ipl a
      else let info = last_before (CHR ''@'') a in
           if list_all userinfo_char info \<and> url_unescape ModePath (cut_before (CHR '':'') info) \<noteq> None
              \<and> url_unescape ModePath (cut_after (CHR '':'') info) \<noteq> None
           then parse_host ipl (last_after (CHR ''@'') a) else None)"

text \<open>\<open>url.Parse\<close>: the fragment is cut off first (it must unescape), then scheme, query, authority, path.\<close>

definition parse_rest :: "(string \<Rightarrow> string option) \<Rightarrow> string \<Rightarrow> string \<Rightarrow> url option" where
  "parse_rest ipl scheme rest0 =
     (let rest = cut_before (CHR ''?'') rest0; query = cut_after (CHR ''?'') rest0 in
      if \<not> has_prefix ''/'' rest then
        (if scheme \<noteq> [] then Some \<lparr>Scheme = scheme, Host = [], Path = [], RawQuery = query\<rparr>
         else if CHR '':'' \<in> set (cut_before (CHR ''/'') rest) then None
         else map_option (\<lambda>p. \<lparr>Scheme = scheme, Host = [], Path = p, RawQuery = query\<rparr>) (url_unescape ModePath rest))
      else if has_prefix ''//'' rest \<and> (scheme \<noteq> [] \<or> \<not> has_prefix ''///'' rest) then
        (let authority = cut_before (CHR ''/'') (drop 2 rest); path = dropWhile (\<lambda>c. c \<noteq> CHR ''/'') (drop 2 rest) in
         case (parse_authority ipl authority, url_unescape ModePath path) of
           (Some h, Some p) \<Rightarrow> Some \<lparr>Scheme = scheme, Host = h, Path = p, RawQuery = query\<rparr>
         | _ \<Rightarrow> None)
      else map_option (\<lambda>p. \<lparr>Scheme = scheme, Host = [], Path = p, RawQuery = query\<rparr>) (url_unescape ModePath rest))"

definition url_parse :: "(string \<Rightarrow> string option) \<Rightarrow> string \<Rightarrow> url option" where
  "url_parse ipl raw =
     (let u = cut_before (CHR ''#'') raw; frag = cut_after (CHR ''#'') raw in
      if list_ex is_ctl u then None
      else if u = ''*'' then (if url_unescape ModePath frag = None then None
                            else Some \<lparr>Scheme = [], Host = [], Path = ''*'', RawQuery = []\<rparr>)
      else case get_scheme u of
             None \<Rightarrow> None
           | Some (scheme, rest) \<Rightarrow> if url_unescape ModePath frag = None then None else parse_rest ipl scheme rest)"

subsection \<open>Reading the parts\<close>

definition has_port :: "string \<Rightarrow> bool" where
  "has_port h \<longleftrightarrow> CHR '':'' \<in> set h \<and> list_all is_dec_digit (last_after (CHR '':'') h)"

definition strip_brackets :: "string \<Rightarrow> string" where
  "strip_brackets h = (if has_prefix ''['' h \<and> h \<noteq> [] \<and> last h = CHR '']'' then butlast (tl h) else h)"

definition Hostname :: "url \<Rightarrow> string" where
  "Hostname u = strip_brackets (if has_port (Host u) then last_before (CHR '':'') (Host u) else Host u)"

definition Port :: "url \<Rightarrow> string" where
  "Port u = (if has_port (Host u) then last_after (CHR '':'') (Host u) else [])"

text \<open>One \<open>key=value\<close> piece of a query; pieces that are broken are skipped.\<close>

definition query_piece :: "string \<Rightarrow> (string \<times> string) option" where
  "query_piece p =
     (if CHR '';'' \<in> set p \<or> p = [] then None
      else case (url_unescape ModeQuery (cut_before (CHR ''='') p), url_unescape ModeQuery (cut_after (CHR ''='') p)) of
             (Some k, Some v) \<Rightarrow> Some (k, v)
           | _ \<Rightarrow> None)"

definition query_get :: "string \<Rightarrow> string \<Rightarrow> string" where
  "query_get raw k =
     (case map_of (List.map_filter query_piece (split_on (CHR ''&'') raw)) k of None \<Rightarrow> [] | Some v \<Rightarrow> v)"

subsection \<open>Printing\<close>

definition url_string :: "url \<Rightarrow> string" where
  "url_string u =
     Scheme u @ ''://'' @ url_escape host_char (Host u) @ url_escape path_char (Path u)
     @ (if RawQuery u = [] then [] else CHR ''?'' # RawQuery u)"

end
