(* ===== verification/Invite.thy ===== *)
theory Invite
  imports Envelope Base64 Sha256 Go_Url
begin

text \<open>
  \<open>protocol/invite.go\<close>: the invitation link, its checksum, printing and parsing.  The link is
  printed and parsed by \<open>net/url\<close> (\<open>Go_Url\<close>), the key is \<open>base64.RawURLEncoding\<close>, the checksum
  the first four bytes of SHA-256.
\<close>

definition inviteVersion :: string where "inviteVersion = ''v2''"

record invite =
  IHost :: string
  IPort :: int
  IQueueID :: string
  IBoxPub :: bytes

definition inviteChecksum :: "string \<Rightarrow> int \<Rightarrow> string \<Rightarrow> string \<Rightarrow> string" where
  "inviteChecksum host port qid keyB64 =
     hex_encode (take 4 (sha256 (''knock|'' @ host @ ''|'' @ show_int port @ ''|'' @ qid @ ''|'' @ keyB64)))"

definition Invite_String :: "invite \<Rightarrow> string" where
  "Invite_String i =
     (let key = b64_raw True (IBoxPub i) in
      url_string \<lparr>Scheme = ''knock'', Host = IHost i @ '':'' @ show_int (IPort i),
        Path = ''/'' @ inviteVersion @ ''/'' @ IQueueID i,
        RawQuery = ''k='' @ key @ ''&c='' @ inviteChecksum (IHost i) (IPort i) (IQueueID i) key\<rparr>)"

datatype invite_error =
    BadUrl | BadScheme | OldFormat | BadVersion | BadQueue | BadPort | BadKey | NoChecksum | WrongChecksum

definition ParseInvite :: "(string \<Rightarrow> string option) \<Rightarrow> string \<Rightarrow> invite_error + invite" where
  "ParseInvite ipl link =
     (case url_parse ipl link of
        None \<Rightarrow> Inl BadUrl
      | Some u \<Rightarrow>
          if Scheme u \<noteq> ''knock'' then Inl BadScheme
          else let segs = split_on (CHR ''/'') (trim_prefix ''/'' (Path u)) in
            if length segs \<noteq> 2 then Inl OldFormat
            else if segs ! 0 \<noteq> inviteVersion then Inl BadVersion
            else if \<not> ValidQueueID (segs ! 1) then Inl BadQueue
            else case parse_int (Port u) of
              None \<Rightarrow> Inl BadPort
            | Some port \<Rightarrow>
                if port < 1 \<or> 65535 < port then Inl BadPort
                else let kparam = query_get (RawQuery u) ''k''; got = query_get (RawQuery u) ''c'' in
                  case b64_raw_decode True kparam of
                    None \<Rightarrow> Inl BadKey
                  | Some key \<Rightarrow>
                      if length key \<noteq> 32 then Inl BadKey
                      else if got = [] then Inl NoChecksum
                      else if got \<noteq> inviteChecksum (Hostname u) port (segs ! 1) kparam then Inl WrongChecksum
                      else Inr \<lparr>IHost = Hostname u, IPort = port, IQueueID = segs ! 1, IBoxPub = key\<rparr>)"

subsection \<open>What a link is made of\<close>

definition host_plain :: "char \<Rightarrow> bool" where
  "host_plain c \<longleftrightarrow> is_alnum c \<or> c = CHR ''-'' \<or> c = CHR ''.''"

definition link_char :: "char \<Rightarrow> bool" where
  "link_char c \<longleftrightarrow> is_alnum c \<or> c \<in> set ''-._:/=&''"

lemma alnum_facts [simp]:
  "is_alnum c \<Longrightarrow> \<not> is_ctl c" "is_alnum c \<Longrightarrow> c \<notin> set ''#?@:/[%&=;+''"
  by (auto simp: is_alnum_def is_letter_def is_dec_digit_def is_ctl_def)

lemma hex_alnum: "hex_val c \<noteq> None \<Longrightarrow> is_alnum c"
  by (auto simp: hex_val_def is_alnum_def is_letter_def is_dec_digit_def split: if_splits)

lemma digit_alnum: "is_dec_digit c \<Longrightarrow> is_alnum c"
  by (simp add: is_alnum_def)

lemma b64_url_alnum: "in_alphabet True c \<Longrightarrow> is_alnum c \<or> c = CHR ''-'' \<or> c = CHR ''_''"
  by (auto simp: in_alphabet_def b64_val_def is_alnum_def is_letter_def is_dec_digit_def Let_def split: if_splits)

lemma qid_alnum: "ValidQueueID q \<Longrightarrow> list_all is_alnum q"
  using hex_alnum by (auto simp: ValidQueueID_iff list_all_iff)

lemma port_digits: "0 \<le> p \<Longrightarrow> list_all is_dec_digit (show_int p) \<and> show_int p \<noteq> []"
  using show_nat_digits [of "nat p"] by (simp add: show_int_def)

lemma checksum_alnum: "list_all is_alnum (inviteChecksum h p q k)"
  using hex_encode_lower [of "take 4 (sha256 (''knock|'' @ h @ ''|'' @ show_int p @ ''|'' @ q @ ''|'' @ k))"]
    hex_val_lower hex_alnum by (fastforce simp: inviteChecksum_def list_all_iff)

lemma length_checksum [simp]: "length (inviteChecksum h p q k) = 8"
  by (simp add: inviteChecksum_def)

definition printable_invite :: "invite \<Rightarrow> bool" where
  "printable_invite i \<longleftrightarrow> list_all host_plain (IHost i) \<and> 0 \<le> IPort i \<and> ValidQueueID (IQueueID i)"

definition link_authority :: "invite \<Rightarrow> string" where
  "link_authority i = IHost i @ '':'' @ show_int (IPort i)"

definition link_query :: "invite \<Rightarrow> string" where
  "link_query i = (let key = b64_raw True (IBoxPub i)
                   in ''k='' @ key @ ''&c='' @ inviteChecksum (IHost i) (IPort i) (IQueueID i) key)"

lemma host_plain_link: "host_plain c \<Longrightarrow> link_char c \<and> host_char c \<and> c \<notin> set ''#?@:/[%''"
  by (auto simp: host_plain_def link_char_def host_char_def unreserved_def is_alnum_def is_letter_def is_dec_digit_def)

lemma authority_chars:
  assumes "printable_invite i"
  shows "list_all link_char (link_authority i)" "list_all host_char (link_authority i)"
    "CHR ''/'' \<notin> set (link_authority i)" "CHR ''@'' \<notin> set (link_authority i)"
    "CHR ''['' \<notin> set (link_authority i)" "CHR ''%'' \<notin> set (link_authority i)"
proof -
  have p: "\<forall>c \<in> set (show_int (IPort i)). is_dec_digit c"
    using assms port_digits [of "IPort i"] by (simp add: printable_invite_def list_all_iff)
  have d: "is_dec_digit c \<Longrightarrow> link_char c \<and> host_char c \<and> c \<notin> set ''/@[%''" for c
    by (auto simp: link_char_def host_char_def unreserved_def is_alnum_def is_dec_digit_def)
  have h: "\<forall>c \<in> set (IHost i). link_char c \<and> host_char c \<and> c \<notin> set ''#?@:/[%''"
    using assms host_plain_link by (auto simp: printable_invite_def list_all_iff)
  have c: "link_char (CHR '':'')" "host_char (CHR '':'')" by (simp_all add: link_char_def host_char_def)
  show "list_all link_char (link_authority i)" "list_all host_char (link_authority i)"
    using p d h c by (auto simp: link_authority_def list_all_iff)
  show "CHR ''/'' \<notin> set (link_authority i)" "CHR ''@'' \<notin> set (link_authority i)"
    "CHR ''['' \<notin> set (link_authority i)" "CHR ''%'' \<notin> set (link_authority i)"
    using h p d [of "CHR ''/''"] d [of "CHR ''@''"] d [of "CHR ''[''"] d [of "CHR ''%''"]
    by (auto simp: link_authority_def)
qed

lemma query_chars: "list_all link_char (link_query i)"
proof -
  have "list_all (in_alphabet True) (b64_raw True (IBoxPub i))" by (rule b64_raw_chars)
  then have "list_all link_char (b64_raw True (IBoxPub i))"
    using b64_url_alnum by (auto simp: list_all_iff link_char_def)
  moreover have "list_all link_char (inviteChecksum h p q k)" for h p q k
    using checksum_alnum [of h p q k] by (auto simp: list_all_iff link_char_def)
  ultimately show ?thesis
    by (simp add: link_query_def Let_def link_char_def is_alnum_def is_letter_def)
qed

lemma Invite_String_eq:
  assumes "printable_invite i"
  shows "Invite_String i = ''knock:'' @ ''//'' @ link_authority i @ ''/v2/'' @ IQueueID i @ ''?'' @ link_query i"
proof -
  have "list_all path_char (''/v2/'' @ IQueueID i)"
    using qid_alnum [of "IQueueID i"] assms
    by (auto simp: printable_invite_def list_all_iff path_char_def unreserved_def is_alnum_def is_letter_def is_dec_digit_def)
  then show ?thesis
    using url_escape_id authority_chars(2) [OF assms]
    by (simp add: Invite_String_def url_string_def Let_def link_authority_def link_query_def inviteVersion_def)
qed

subsection \<open>Parsing what was printed\<close>

lemma link_char_facts: "link_char c \<Longrightarrow> \<not> is_ctl c \<and> c \<noteq> CHR ''#'' \<and> c \<noteq> CHR ''?''"
  by (auto simp: link_char_def is_ctl_def is_alnum_def is_letter_def is_dec_digit_def)

lemma url_parse_link:
  assumes "printable_invite i"
  shows "url_parse ipl (Invite_String i) = Some \<lparr>Scheme = ''knock'', Host = link_authority i,
    Path = ''/v2/'' @ IQueueID i, RawQuery = link_query i\<rparr>"
proof -
  let ?A = "link_authority i" and ?P = "''/v2/'' @ IQueueID i" and ?Q = "link_query i"
  let ?rest = "''//'' @ ?A @ ?P @ ''?'' @ ?Q"
  note a = authority_chars [OF assms]
  have q: "list_all is_alnum (IQueueID i)" using assms qid_alnum by (simp add: printable_invite_def)
  then have qc: "list_all link_char ?P" by (auto simp: list_all_iff link_char_def is_alnum_def is_letter_def is_dec_digit_def)
  have s: "Invite_String i = ''knock:'' @ ?rest" using Invite_String_eq [OF assms] by simp
  have all: "\<forall>c \<in> set (''knock:'' @ ''//'' @ ?A @ ?P). link_char c"
    using a(1) qc by (auto simp: list_all_iff link_char_def is_alnum_def is_letter_def)
  have hash: "CHR ''#'' \<notin> set (Invite_String i)" and ctl: "\<not> list_ex is_ctl (Invite_String i)"
    using all query_chars [of i] link_char_facts
    by (auto simp: s list_all_iff list_ex_iff is_ctl_def simp del: append.simps)
  have sch: "get_scheme (Invite_String i) = Some (''knock'', ?rest)"
    by (simp add: s get_scheme_def scheme_char_def is_alnum_def is_letter_def is_dec_digit_def to_lower_def Let_def)
  have "CHR ''?'' \<notin> set (''//'' @ ?A @ ?P)"
    using all link_char_facts by auto
  from cut_append [OF this, of ?Q]
  have cut: "cut_before (CHR ''?'') ?rest = ''//'' @ ?A @ ?P" "cut_after (CHR ''?'') ?rest = ?Q" by simp_all
  have sl: "cut_before (CHR ''/'') (?A @ ?P) = ?A" "dropWhile (\<lambda>c. c \<noteq> CHR ''/'') (?A @ ?P) = ?P"
  proof -
    show "cut_before (CHR ''/'') (?A @ ?P) = ?A"
      using cut_append [OF a(3), of "''v2/'' @ IQueueID i"] by simp
    have "\<forall>x \<in> set ?A. x \<noteq> CHR ''/''" using a(3) by auto
    then show "dropWhile (\<lambda>c. c \<noteq> CHR ''/'') (?A @ ?P) = ?P" by simp
  qed
  have port: "last_after (CHR '':'') ?A = show_int (IPort i)"
  proof -
    have "CHR '':'' \<notin> set (show_int (IPort i))"
      using assms port_digits [of "IPort i"] by (auto simp: printable_invite_def list_all_iff is_dec_digit_def)
    from last_append [OF this, of "IHost i"] show ?thesis by (simp add: link_authority_def)
  qed
  have "list_all (plain_in ModeHost) ?A" using a(2,6) by (auto simp: list_all_iff plain_in_def)
  then have host: "parse_authority ipl ?A = Some ?A"
    using a(4,5) assms port_digits [of "IPort i"]
    by (simp add: parse_authority_def parse_host_def port printable_invite_def url_unescape_plain)
  have "list_all (plain_in ModePath) ?P"
    using q by (auto simp: list_all_iff plain_in_def is_alnum_def is_letter_def is_dec_digit_def)
  then have path: "url_unescape ModePath ?P = Some ?P" by (rule url_unescape_plain)
  have "parse_rest ipl ''knock'' ?rest = Some \<lparr>Scheme = ''knock'', Host = ?A, Path = ?P, RawQuery = ?Q\<rparr>"
    unfolding parse_rest_def Let_def cut
    using sl host path by (simp del: url_unescape.simps)
  then show ?thesis
    using hash ctl sch cut_none [OF hash] by (simp add: url_parse_def Let_def s)
qed

lemma host_of_link:
  assumes "printable_invite i" "Host u = link_authority i"
  shows "Hostname u = IHost i" "Port u = show_int (IPort i)"
proof -
  have d: "list_all is_dec_digit (show_int (IPort i))" using assms(1) port_digits [of "IPort i"] by (simp add: printable_invite_def)
  then have "CHR '':'' \<notin> set (show_int (IPort i))" by (auto simp: list_all_iff is_dec_digit_def)
  note l = last_append [OF this, of "IHost i"]
  have h: "list_all host_plain (IHost i)" using assms(1) by (simp add: printable_invite_def)
  have "strip_brackets (IHost i) = IHost i"
  proof (cases "IHost i")
    case (Cons c r)
    with h have "c \<noteq> CHR ''[''" by (auto simp: host_plain_def is_alnum_def is_letter_def is_dec_digit_def)
    with Cons show ?thesis by (simp add: strip_brackets_def)
  qed (simp add: strip_brackets_def)
  with l d show "Hostname u = IHost i" "Port u = show_int (IPort i)"
    by (simp_all add: Hostname_def Port_def has_port_def assms(2) link_authority_def)
qed

lemma query_of_link:
  "query_get (link_query i) ''k'' = b64_raw True (IBoxPub i)"
  "query_get (link_query i) ''c'' = inviteChecksum (IHost i) (IPort i) (IQueueID i) (b64_raw True (IBoxPub i))"
proof -
  let ?key = "b64_raw True (IBoxPub i)"
  let ?cs = "inviteChecksum (IHost i) (IPort i) (IQueueID i) ?key"
  have k: "\<forall>c \<in> set ?key. is_alnum c \<or> c = CHR ''-'' \<or> c = CHR ''_''"
    using b64_raw_chars [of True "IBoxPub i"] b64_url_alnum by (auto simp: list_all_iff)
  have c: "\<forall>c \<in> set ?cs. is_alnum c" using checksum_alnum by (simp add: list_all_iff)
  have pk: "list_all (plain_in ModeQuery) ?key" "list_all (plain_in ModeQuery) ?cs"
    using k c by (auto simp: list_all_iff plain_in_def is_alnum_def is_letter_def is_dec_digit_def)
  have no: "CHR ''&'' \<notin> set ?key" "CHR ''&'' \<notin> set ?cs" "CHR '';'' \<notin> set ?key" "CHR '';'' \<notin> set ?cs"
    using k c by (auto simp: is_alnum_def is_letter_def is_dec_digit_def)
  have sp: "split_on (CHR ''&'') (link_query i) = [''k='' @ ?key, ''c='' @ ?cs]"
    using no split_on_append_sep [of "CHR ''&''" "''k='' @ ?key" "''c='' @ ?cs"]
    by (simp add: link_query_def Let_def)
  have piece: "query_piece (x # ''='' @ v) = Some ([x], v)"
    if "list_all (plain_in ModeQuery) v" "CHR '';'' \<notin> set v" "x = CHR ''k'' \<or> x = CHR ''c''" for x v
  proof -
    have "CHR ''='' \<notin> set [x]" using that(3) by auto
    from cut_append [OF this, of v] show ?thesis
      using that url_unescape_plain [OF that(1)] by (auto simp: query_piece_def)
  qed
  show "query_get (link_query i) ''k'' = ?key" "query_get (link_query i) ''c'' = ?cs"
    using piece [OF pk(1) no(3), of "CHR ''k''"] piece [OF pk(2) no(4), of "CHR ''c''"]
    by (simp_all add: query_get_def sp List.map_filter_def)
qed

lemma ParseInvite_link:
  assumes "printable_invite i" "IPort i \<le> 65535" "length (IBoxPub i) = 32"
  shows "ParseInvite ipl (Invite_String i) = (if IPort i = 0 then Inl BadPort else Inr i)"
proof -
  let ?u = "\<lparr>Scheme = ''knock'', Host = link_authority i, Path = ''/v2/'' @ IQueueID i, RawQuery = link_query i\<rparr>"
  have q: "ValidQueueID (IQueueID i)" and p: "0 \<le> IPort i" using assms(1) by (simp_all add: printable_invite_def)
  have "CHR ''/'' \<notin> set (IQueueID i)"
    using qid_alnum [OF q] by (auto simp: list_all_iff is_alnum_def is_letter_def is_dec_digit_def)
  then have segs: "split_on (CHR ''/'') (trim_prefix ''/'' (Path ?u)) = [''v2'', IQueueID i]"
    using split_on_append_sep [of "CHR ''/''" "''v2''" "IQueueID i"] by (simp add: trim_prefix_def)
  have port: "parse_int (Port ?u) = Some (IPort i)"
    using host_of_link(2) [OF assms(1), of ?u] p assms(2) by (simp add: int64_range_def)
  have cs: "inviteChecksum h x y z \<noteq> []" for h x y z using length_checksum [of h x y z] by (metis list.size(3) zero_neq_numeral)
  show ?thesis
    using url_parse_link [OF assms(1), of ipl] segs port q p assms(2,3) cs
      host_of_link(1) [OF assms(1), of ?u] query_of_link [of i]
    by (simp add: ParseInvite_def Let_def inviteVersion_def)
qed

text \<open>What an accepted link guarantees.\<close>

lemma ParseInvite_InrD:
  assumes "ParseInvite ipl link = Inr i"
  shows "ValidQueueID (IQueueID i) \<and> 1 \<le> IPort i \<and> IPort i \<le> 65535 \<and> length (IBoxPub i) = 32 \<and>
    (\<exists>u. url_parse ipl link = Some u \<and> Scheme u = ''knock'' \<and> IHost i = Hostname u \<and>
       b64_raw_decode True (query_get (RawQuery u) ''k'') = Some (IBoxPub i) \<and>
       query_get (RawQuery u) ''c'' = inviteChecksum (IHost i) (IPort i) (IQueueID i) (query_get (RawQuery u) ''k''))"
  using assms by (auto simp: ParseInvite_def Let_def split: option.splits if_splits)

end
