(* ===== verification/Go_Utf8.thy ===== *)
theory Go_Utf8
  imports Envelope
begin

text \<open>
  Well-formed UTF-8 as a grammar of whole runes, and the fact that every text that comes out of the JSON
  decoder (hence every string of a parsed envelope) is well-formed, so that it survives being sent again.
\<close>

inductive runes :: "bytes \<Rightarrow> bool" where
  no_rune: "runes []"
| ascii_rune: "is_ascii c \<Longrightarrow> runes r \<Longrightarrow> runes (c # r)"
| long_rune: "utf8_len w = Some (length w) \<Longrightarrow> runes r \<Longrightarrow> runes (w @ r)"

lemma long_rune_high: "utf8_len (c # w) = Some n \<Longrightarrow> \<not> is_ascii c"
  by (auto simp: is_ascii_def in_range_def split: if_splits)

lemma runes_valid: "runes s \<Longrightarrow> valid_utf8 s"
proof (induction rule: runes.induct)
  case (long_rune w r)
  then have u: "utf8_len (w @ r) = Some (length w)" using utf8_len_take [of w "length w" r] by simp
  obtain c w' where w: "w = c # w'" using long_rune(1) by (cases w) auto
  then have "\<not> is_ascii c" using long_rune(1) long_rune_high by blast
  then have "to_valid_utf8 (w @ r) = w @ to_valid_utf8 r"
    using u by (subst to_valid_utf8.simps) (simp add: w del: utf8_len.simps)
  with long_rune.IH show ?case by (simp add: valid_utf8_def)
qed (simp_all add: valid_utf8_def)

lemma runes_append: "runes s \<Longrightarrow> runes t \<Longrightarrow> runes (s @ t)"
  by (induction rule: runes.induct) (auto intro: runes.intros simp del: utf8_len.simps)

lemma runes_one: "utf8_len w = Some (length w) \<Longrightarrow> runes w"
  using long_rune [OF _ no_rune, of w] by simp

lemma runes_error: "runes rune_error"
  by (rule runes_one) (simp add: rune_error_def in_range_def)

lemma runes_take: "utf8_len s = Some n \<Longrightarrow> runes (take n s)"
  using utf8_len_take [of s n "[]"] utf8_len_bounds [of s n] by (intro runes_one) (simp del: utf8_len.simps)

lemma runes_ascii: "list_all is_ascii s \<Longrightarrow> runes s"
  by (induction s) (auto intro: runes.intros)

lemma runes_simple_escape: "esc_letter e \<Longrightarrow> runes [simple_escape e]"
proof -
  have "list_all (\<lambda>e. is_ascii (simple_escape e)) (bslash # dquote # ''bfnrt/'')"
    by (simp add: simple_escape_def is_ascii_def)
  moreover assume "esc_letter e"
  then have "e \<in> set (bslash # dquote # ''bfnrt/'')" by (auto simp: esc_letter_def)
  ultimately show ?thesis by (simp only: list_all_iff) (auto intro: ascii_rune no_rune)
qed

lemma digits3: "(r :: nat) = 4096 * (r div 4096) + 64 * (r div 64 mod 64) + r mod 64"
proof -
  have "r = 64 * (r div 64) + r mod 64" "r div 64 = 64 * (r div 64 div 64) + r div 64 mod 64" by simp_all
  moreover have "r div 64 div 64 = r div 4096" by (simp add: div_mult2_eq [symmetric])
  ultimately show ?thesis by linarith
qed

lemma digits4: "(r :: nat) = 262144 * (r div 262144) + 4096 * (r div 4096 mod 64) + 64 * (r div 64 mod 64) + r mod 64"
proof -
  have "r div 4096 = 64 * (r div 4096 div 64) + r div 4096 mod 64" by simp
  moreover have "r div 4096 div 64 = r div 262144" by (simp add: div_mult2_eq [symmetric])
  ultimately show ?thesis using digits3 [of r] by linarith
qed

text \<open>The encoder's output for every code point up to the last one, surrogates replaced.\<close>

lemma runes_encode: "runes (utf8_encode r)"
proof -
  consider "r < 128" | "128 \<le> r" "r < 2048" | "55296 \<le> r \<and> r < 57344 \<or> 1114112 \<le> r"
    | "2048 \<le> r" "r < 65536" "\<not> (55296 \<le> r \<and> r < 57344)"
    | "65536 \<le> r" "r < 1114112" by linarith
  then show ?thesis
  proof cases
    case 1
    then show ?thesis by (auto simp: utf8_encode_def is_ascii_def intro!: runes_ascii)
  next
    case 2
    have "194 \<le> 192 + r div 64" "192 + r div 64 < 224" "r mod 64 < 64" using 2 by auto
    then show ?thesis using 2 by (intro runes_one) (simp add: utf8_encode_def in_range_def)
  next
    case 3
    then show ?thesis using runes_error by (auto simp: utf8_encode_def)
  next
    case 4
    define a where "a = r div 4096"
    define b where "b = r div 64 mod 64"
    define c where "c = r mod 64"
    have "r = 4096 * a + 64 * b + c" unfolding a_def b_def c_def by (rule digits3)
    moreover have bc: "b < 64" "c < 64" by (simp_all add: b_def c_def)
    ultimately have "a < 16" "a = 0 \<longrightarrow> 32 \<le> b" "a = 13 \<longrightarrow> b < 32" using 4 by linarith+
    moreover have "utf8_encode r = [char_of (224 + a), char_of (128 + b), char_of (128 + c)]"
      using 4 by (auto simp: utf8_encode_def a_def b_def c_def)
    ultimately show ?thesis using bc by (intro runes_one) (auto simp: in_range_def)
  next
    case 5
    define a where "a = r div 262144"
    define b where "b = r div 4096 mod 64"
    define c where "c = r div 64 mod 64"
    define d where "d = r mod 64"
    have "r = 262144 * a + 4096 * b + 64 * c + d" unfolding a_def b_def c_def d_def by (rule digits4)
    moreover have bc: "b < 64" "c < 64" "d < 64" by (simp_all add: b_def c_def d_def)
    ultimately have "a < 5" "a = 0 \<longrightarrow> 16 \<le> b" "a = 4 \<longrightarrow> b < 16" using 5 by linarith+
    moreover have "utf8_encode r = [char_of (240 + a), char_of (128 + b), char_of (128 + c), char_of (128 + d)]"
      using 5 by (auto simp: utf8_encode_def a_def b_def c_def d_def)
    ultimately show ?thesis using bc by (intro runes_one) (auto simp: in_range_def)
  qed
qed

lemma runes_to_valid: "runes (to_valid_utf8 s)"
proof (induction s rule: to_valid_utf8.induct)
  case (1 s)
  then show ?case
    by (subst to_valid_utf8.simps)
      (auto intro: runes.intros runes_append runes_error runes_take split: list.split option.split simp del: utf8_len.simps)
qed

lemma runes_unquote: "runes (unquote s)"
proof (induction s rule: length_induct)
  case (1 s)
  then have IH: "length t < length s \<Longrightarrow> runes (unquote t)" for t by blast
  show ?case
  proof (cases s)
    case Nil
    then show ?thesis by (simp add: no_rune)
  next
    case s: (Cons c r)
    have r: "runes (unquote r)" by (rule IH) (simp add: s)
    have d: "0 < n \<Longrightarrow> runes (unquote (drop n s))" for n by (rule IH) (simp add: s)
    show ?thesis
    proof (cases "c = bslash")
      case True
      show ?thesis
      proof (cases "getu4 s")
        case None
        have "runes (unquote r')" if "r = e # r'" for e r' using IH [of r'] that s by simp
        then have "runes (case r of [] \<Rightarrow> [] | e # r' \<Rightarrow> if esc_letter e then simple_escape e # unquote r' else [])"
          using runes_append [OF runes_simple_escape] by (auto intro: no_rune split: list.split)
        moreover have "unquote s = (case r of [] \<Rightarrow> [] | e # r' \<Rightarrow> if esc_letter e then simple_escape e # unquote r' else [])"
          using True None by (subst unquote.simps) (simp add: s del: getu4.simps)
        ultimately show ?thesis by simp
      next
        case (Some u)
        have "unquote s = (if is_surrogate u then
            (case surrogate_pair u (getu4 (drop 6 s)) of
               Some p \<Rightarrow> utf8_encode p @ unquote (drop 12 s) | None \<Rightarrow> rune_error @ unquote (drop 6 s))
          else utf8_encode u @ unquote (drop 6 s))"
          using True Some by (subst unquote.simps) (simp add: s del: getu4.simps)
        then show ?thesis
          using d [of 6] d [of 12] by (auto intro!: runes_append runes_encode runes_error split: option.split)
      qed
    next
      case nb: False
      show ?thesis
      proof (cases "is_ascii c")
        case True
        then show ?thesis using r unquote_ascii [OF nb True, of r] s by (auto intro: ascii_rune)
      next
        case na: False
        have "unquote s = (case utf8_len s of None \<Rightarrow> rune_error @ unquote r | Some n \<Rightarrow> take n s @ unquote (drop n s))"
          using nb na by (subst unquote.simps) (simp add: s del: utf8_len.simps)
        then show ?thesis
          using r d utf8_len_bounds [of s]
          by (auto intro!: runes_append runes_error runes_take split: option.split simp del: utf8_len.simps)
      qed
    qed
  qed
qed

lemma unquote_valid [simp]: "valid_utf8 (unquote s)"
  by (rule runes_valid [OF runes_unquote])

lemma to_valid_utf8_valid [simp]: "valid_utf8 (to_valid_utf8 s)"
  by (rule runes_valid [OF runes_to_valid])

lemma valid_utf8_Nil [simp]: "valid_utf8 []"
  by (simp add: valid_utf8_def)

lemma put_string_valid: "valid_utf8 old \<Longrightarrow> valid_utf8 (fst (put_string v old))"
  by (simp add: put_string_def split: json.split)

lemma put_int_range: "int64_range old \<Longrightarrow> int64_range (fst (put_int v old))"
  by (auto simp: put_int_def parse_int_def Let_def split: json.split option.splits if_splits prod.splits)

text \<open>The strings of a parsed envelope.\<close>

definition texts_ok :: "envelope \<Rightarrow> bool" where
  "texts_ok e \<longleftrightarrow> valid_utf8 (Typ e) \<and> valid_utf8 (QueueID e) \<and> valid_utf8 (MsgID e) \<and>
     int64_range (Version e) \<and> int64_range (TS e)"

lemma put_envelope_texts: "texts_ok e \<Longrightarrow> texts_ok (fst (put_envelope n v raw e))"
  using put_string_valid put_int_range
  by (auto simp: texts_ok_def put_envelope_def Let_def case_prod_beta)

lemma Parse_texts:
  assumes "Parse data = Inr e"
  shows "texts_ok e"
proof -
  have z: "texts_ok zero_envelope" by (simp add: texts_ok_def zero_envelope_def int64_range_def)
  obtain err where u: "unmarshal envelope_names put_envelope data zero_envelope = (e, err)"
    using assms by (auto simp: Parse_def split: prod.splits if_splits)
  have m: "texts_ok e" if "decode_members envelope_names put_envelope ms (zero_envelope, False) = (e, err)" for ms
    using decode_members_inv [where P = texts_ok, OF that z] put_envelope_texts by blast
  show ?thesis using u z by (auto simp: unmarshal_def intro: m split: option.splits json.splits)
qed

end
