(* ===== verification/Client_State.thy ===== *)
theory Client_State
  imports Identity_File Invite Go_Utf8 "HOL-Library.Char_ord" "HOL-Library.List_Lexorder"
begin

text \<open>
  \<open>client/state.go\<close> and the contact book of \<open>client/session.go\<close>: the client's state (its queue per server, its
  contacts), the JSON text it is kept in, and the operations on it.  A Go map is a list of pairs with distinct
  keys; a contact may be the nil pointer, which a damaged file can put into the map.
\<close>

record contact =
  CFingerprint :: string
  CInviteURL :: string
  LastSeen :: int
  Alias :: string

record client_state =
  Outbox :: "(string \<times> string) list"
  Contacts :: "(string \<times> contact option) list"

definition empty_state :: client_state where
  "empty_state = \<lparr>Outbox = [], Contacts = []\<rparr>"

subsection \<open>Paths and fingerprints\<close>

definition fpHex :: "bytes \<Rightarrow> string" where
  "fpHex boxPub = remove_all (CHR '' '') (Fingerprint boxPub)"

text \<open>\<open>dir\<close> is the user's configuration directory, \<open>None\<close> its error.\<close>

definition statePath :: "string option \<Rightarrow> identity \<Rightarrow> string option" where
  "statePath dir i =
     (case dir of None \<Rightarrow> None
      | Some d \<Rightarrow>
          let clean = remove_all (CHR '' '') (Fingerprint (BoxPub i)) in
          if length clean < 8 then None
          else Some (join_path d (''knock/state-'' @ take 8 clean @ ''.json'')))"

subsection \<open>The JSON text of the state\<close>

definition contact_fields :: "contact \<Rightarrow> (string \<times> string) list" where
  "contact_fields c =
     [(''fingerprint'', enc_string (CFingerprint c)), (''invite_url'', enc_string (CInviteURL c)),
      (''last_seen'', show_int (LastSeen c))]
     @ (if Alias c = [] then [] else [(''alias'', enc_string (Alias c))])"

definition enc_contact :: "contact option \<Rightarrow> string" where
  "enc_contact c = (case c of None \<Rightarrow> ''null'' | Some x \<Rightarrow> enc_object (contact_fields x))"

text \<open>Maps are written with their keys in byte order.\<close>

definition enc_map :: "('a \<Rightarrow> string) \<Rightarrow> (string \<times> 'a) list \<Rightarrow> string" where
  "enc_map enc m = enc_object (map (\<lambda>(k, v). (k, enc v)) (sort_key fst m))"

definition encode_state :: "client_state \<Rightarrow> string" where
  "encode_state st =
     enc_object [(''outbox'', enc_map enc_string (Outbox st)), (''contacts'', enc_map enc_contact (Contacts st))]
     @ [CHR 0x0A]"

definition put_contact :: "string \<Rightarrow> json \<Rightarrow> string \<Rightarrow> contact \<Rightarrow> contact \<times> bool" where
  "put_contact n v raw c =
     (if n = ''fingerprint'' then (let (s, b) = put_string v (CFingerprint c) in (c\<lparr>CFingerprint := s\<rparr>, b))
      else if n = ''invite_url'' then (let (s, b) = put_string v (CInviteURL c) in (c\<lparr>CInviteURL := s\<rparr>, b))
      else if n = ''last_seen'' then (let (i, b) = put_int v (LastSeen c) in (c\<lparr>LastSeen := i\<rparr>, b))
      else (let (s, b) = put_string v (Alias c) in (c\<lparr>Alias := s\<rparr>, b)))"

definition zero_contact :: contact where
  "zero_contact = \<lparr>CFingerprint = [], CInviteURL = [], LastSeen = 0, Alias = []\<rparr>"

text \<open>
  Values of the two maps.  A type error is remembered by the decoder and ignored by \<open>loadState\<close>; the entry is
  set all the same, to the zero value.
\<close>

definition outbox_value :: "json \<Rightarrow> string" where
  "outbox_value v = fst (put_string v [])"

definition contact_value :: "json \<Rightarrow> contact option" where
  "contact_value v =
     (case v of JNull \<Rightarrow> None
      | JObj ms \<Rightarrow> Some (fst (decode_members [''fingerprint'', ''invite_url'', ''last_seen'', ''alias''] put_contact ms (zero_contact, False)))
      | _ \<Rightarrow> Some zero_contact)"

definition put_map :: "(json \<Rightarrow> 'a) \<Rightarrow> json \<Rightarrow> (string \<times> 'a) list \<Rightarrow> (string \<times> 'a) list" where
  "put_map val v m =
     (case v of JNull \<Rightarrow> []
      | JObj ms \<Rightarrow> fold (\<lambda>(k, v, raw) m. AList.update (unquote k) (val v) m) ms m
      | _ \<Rightarrow> m)"

definition put_state :: "string \<Rightarrow> json \<Rightarrow> string \<Rightarrow> client_state \<Rightarrow> client_state \<times> bool" where
  "put_state n v raw st =
     (if n = ''outbox'' then (st\<lparr>Outbox := put_map outbox_value v (Outbox st)\<rparr>, False)
      else (st\<lparr>Contacts := put_map contact_value v (Contacts st)\<rparr>, False))"

definition decode_state :: "string \<Rightarrow> client_state" where
  "decode_state s =
     (case json_stream s of
        Some (JObj ms) \<Rightarrow> fst (decode_members [''outbox'', ''contacts''] put_state ms (empty_state, False))
      | _ \<Rightarrow> empty_state)"

subsection \<open>Loading and saving\<close>

text \<open>Anything that goes wrong while loading gives the state read so far, without an error.\<close>

definition loadState :: "string option \<Rightarrow> bool \<Rightarrow> identity \<Rightarrow> fs \<Rightarrow> client_state" where
  "loadState dir open_fails i fs =
     (case statePath dir i of None \<Rightarrow> empty_state
      | Some path \<Rightarrow>
          (case fs path of None \<Rightarrow> empty_state
           | Some (content, mode) \<Rightarrow> if open_fails then empty_state else decode_state content))"

text \<open>The states of the disk while \<open>saveState\<close> runs; there is no change of mode in this write.\<close>

definition saveState :: "write_fault \<Rightarrow> string \<Rightarrow> string option \<Rightarrow> identity \<Rightarrow> client_state \<Rightarrow> fs \<Rightarrow> fs list" where
  "saveState f tmp dir i st fs =
     (case statePath dir i of None \<Rightarrow> [fs]
      | Some path \<Rightarrow> write_states False f tmp path (encode_state st) fs)"

definition saved_ok :: "write_fault \<Rightarrow> string option \<Rightarrow> identity \<Rightarrow> bool" where
  "saved_ok f dir i \<longleftrightarrow> statePath dir i \<noteq> None \<and> write_ok False f"

subsection \<open>Contacts\<close>

text \<open>
  \<open>sortedContacts\<close>, for the order in which the map is walked (the order of the list): the entries with a
  link, most recent first.  A nil entry is dereferenced.  Go's sort is not stable, so
  the order among equal times is not part of what is proved.
\<close>

definition sortedContacts :: "client_state \<Rightarrow> (unit, contact list) outcome" where
  "sortedContacts st =
     (if \<exists>(k, c) \<in> set (Contacts st). c = None then Panic ()
      else Ret (sort_key (\<lambda>c. - LastSeen c)
             (filter (\<lambda>c. CInviteURL c \<noteq> []) (map (\<lambda>(k, c). the c) (Contacts st)))))"

definition new_contact :: "string \<Rightarrow> contact" where
  "new_contact fp = zero_contact\<lparr>CFingerprint := fp\<rparr>"

definition upsert :: "int \<Rightarrow> invite \<Rightarrow> string \<Rightarrow> client_state \<Rightarrow> (unit, client_state) outcome" where
  "upsert now p rawLink st =
     (let fp = fpHex (IBoxPub p) in
      case map_of (Contacts st) fp of
        Some None \<Rightarrow> Panic ()
      | Some (Some c) \<Rightarrow> Ret (st\<lparr>Contacts := AList.update fp (Some (c\<lparr>CInviteURL := rawLink, LastSeen := now\<rparr>)) (Contacts st)\<rparr>)
      | None \<Rightarrow> Ret (st\<lparr>Contacts := AList.update fp (Some ((new_contact fp)\<lparr>CInviteURL := rawLink, LastSeen := now\<rparr>)) (Contacts st)\<rparr>))"

definition upsertContact ::
  "string option \<Rightarrow> bool \<Rightarrow> write_fault \<Rightarrow> string \<Rightarrow> int \<Rightarrow> identity \<Rightarrow> invite \<Rightarrow> string \<Rightarrow> fs \<Rightarrow> (unit, bool \<times> fs list) outcome"
where
  "upsertContact dir open_fails f tmp now i p rawLink fs =
     bind_outcome (upsert now p rawLink (loadState dir open_fails i fs))
       (\<lambda>st. Ret (saved_ok f dir i, saveState f tmp dir i st fs))"

subsection \<open>Facts\<close>

lemma fpHex_eq: "fpHex b = map to_upper (hex_encode (take 8 (sha256 b)))"
  by (simp add: fpHex_def Fingerprint_hex)

lemma length_fpHex: "length (fpHex b) = 16"
  by (simp add: fpHex_eq)

lemma statePath_eq:
  "statePath (Some d) i = Some (join_path d (''knock/state-'' @ take 8 (fpHex (BoxPub i)) @ ''.json''))"
  using length_fpHex [of "BoxPub i"] by (simp add: statePath_def fpHex_def Let_def)

text \<open>What a sorted contact list is, and what an update of the book does.\<close>

lemma sortedContacts_Ret:
  assumes "sortedContacts st = Ret cs"
  shows "sorted_wrt (\<lambda>c c'. LastSeen c \<ge> LastSeen c') cs"
    and "set cs = {c. Some c \<in> snd ` set (Contacts st) \<and> CInviteURL c \<noteq> []}"
proof -
  have n: "\<And>k c. (k, c) \<in> set (Contacts st) \<Longrightarrow> c \<noteq> None"
    and cs: "cs = sort_key (\<lambda>c. - LastSeen c) (filter (\<lambda>c. CInviteURL c \<noteq> []) (map (\<lambda>(k, c). the c) (Contacts st)))"
    using assms by (auto simp: sortedContacts_def split: if_splits)
  have "sorted (map (\<lambda>c. - LastSeen c) cs)" unfolding cs by (rule sorted_sort_key)
  then show "sorted_wrt (\<lambda>c c'. LastSeen c \<ge> LastSeen c') cs" by (simp add: sorted_wrt_map)
  show "set cs = {c. Some c \<in> snd ` set (Contacts st) \<and> CInviteURL c \<noteq> []}"
    using n by (force simp: cs image_iff)
qed

lemma upsert_Ret:
  assumes "upsert now p link st = Ret st'"
  shows "\<exists>c. map_of (Contacts st') (fpHex (IBoxPub p)) = Some (Some c) \<and> CInviteURL c = link \<and> LastSeen c = now \<and>
      (map_of (Contacts st) (fpHex (IBoxPub p)) = Some (Some c0) \<longrightarrow> Alias c = Alias c0 \<and> CFingerprint c = CFingerprint c0) \<and>
      (map_of (Contacts st) (fpHex (IBoxPub p)) = None \<longrightarrow> CFingerprint c = fpHex (IBoxPub p))"
    and "k \<noteq> fpHex (IBoxPub p) \<Longrightarrow> map_of (Contacts st') k = map_of (Contacts st) k"
    and "Outbox st' = Outbox st"
  using assms by (auto simp: upsert_def Let_def update_conv' new_contact_def split: option.splits)

lemma decode_damaged: "json_stream s = None \<Longrightarrow> decode_state s = empty_state"
  by (simp add: decode_state_def)

subsection \<open>The state file reads back\<close>

definition contact_ok :: "contact \<Rightarrow> bool" where
  "contact_ok c \<longleftrightarrow> valid_utf8 (CFingerprint c) \<and> valid_utf8 (CInviteURL c) \<and> valid_utf8 (Alias c) \<and> int64_range (LastSeen c)"

definition state_ok :: "client_state \<Rightarrow> bool" where
  "state_ok st \<longleftrightarrow>
     distinct (map fst (Outbox st)) \<and> distinct (map fst (Contacts st)) \<and>
     (\<forall>(k, v) \<in> set (Outbox st). valid_utf8 k \<and> valid_utf8 v) \<and>
     (\<forall>(k, v) \<in> set (Contacts st). valid_utf8 k \<and>
        (\<forall>c. v = Some c \<longrightarrow> contact_ok c))"

lemma object_tree:
  assumes "\<forall>(k, t) \<in> set fs. json_text d t" "d < d'"
  shows "json_text d' (enc_object fs)"
    and "json_tree d' (enc_object fs) = JObj (map (\<lambda>(k, t). (esc_string k, json_tree d t, t)) fs)"
proof -
  have "json_text d' (enc_object fs) \<and>
    json_tree d' (enc_object fs) = JObj (map (\<lambda>(k, t). (esc_string k, json_tree d t, t)) fs)"
  proof (cases "fs = []")
    case True
    then have e: "enc_object fs = ''{}''" by (simp add: enc_object_def)
    obtain n where "d' = Suc n" using assms(2) by (cases d') auto
    then have "jvalue (Suc 0) d' ''{}'' = Some (JObj [], [])"
      by (simp add: jvalue_object skip_ws_Cons is_ws_def)
    then show ?thesis using True e json_textI json_tree_eq by simp
  next
    case False
    from enc_object_at [OF this assms] show ?thesis by simp
  qed
  then show "json_text d' (enc_object fs)"
    "json_tree d' (enc_object fs) = JObj (map (\<lambda>(k, t). (esc_string k, json_tree d t, t)) fs)" by simp_all
qed

lemma map_of_fold_update:
  "map_of (fold (\<lambda>(k, v) m. AList.update k v m) xs m) = map_of m ++ map_of (rev xs)"
  by (induction xs arbitrary: m) (auto simp: update_conv map_add_def fun_eq_iff split: option.splits)

lemma map_of_fold_distinct:
  assumes "distinct (map fst xs)"
  shows "map_of (fold (\<lambda>(k, v) m. AList.update k v m) xs []) = map_of xs"
proof -
  have "distinct (map fst (rev xs))" using assms by (simp add: rev_map [symmetric])
  then have "map_of (rev xs) = map_of xs" using assms by (simp add: map_of_inject_set)
  then show ?thesis by (simp add: map_of_fold_update)
qed

lemma put_map_enc:
  assumes t: "\<forall>(k, v) \<in> set m. json_text d (enc v)" and d: "d < d'"
    and val: "\<forall>(k, v) \<in> set m. valid_utf8 k \<and> val (json_tree d (enc v)) = v" and dist: "distinct (map fst m)"
  shows "json_text d' (enc_map enc m)"
    and "map_of (put_map val (json_tree d' (enc_map enc m)) []) = map_of m"
proof -
  let ?s = "sort_key fst m"
  let ?fs = "map (\<lambda>(k, v). (k, enc v)) ?s"
  have t': "\<forall>(k, t) \<in> set ?fs. json_text d t" using t by auto
  show "json_text d' (enc_map enc m)" unfolding enc_map_def by (rule object_tree(1) [OF t' d])
  have go: "\<forall>(k, v) \<in> set xs. to_valid_utf8 k = k \<and> val (json_tree d (enc v)) = v \<Longrightarrow>
    fold (\<lambda>(k, v, raw) m. AList.update (unquote k) (val v) m)
      (map (\<lambda>(k, t). (esc_string k, json_tree d t, t)) (map (\<lambda>(k, v). (k, enc v)) xs)) m0
    = fold (\<lambda>(k, v) m. AList.update k v m) xs m0" for xs m0
    by (induction xs arbitrary: m0) auto
  have "\<forall>(k, v) \<in> set ?s. to_valid_utf8 k = k \<and> val (json_tree d (enc v)) = v"
    using val by (auto simp: valid_utf8_def)
  note go [OF this]
  then have "put_map val (json_tree d' (enc_map enc m)) [] = fold (\<lambda>(k, v) m. AList.update k v m) ?s []"
    using object_tree(2) [OF t' d] by (simp add: put_map_def enc_map_def)
  moreover have "distinct (map fst ?s)" using dist by (simp add: distinct_map)
  moreover have "map_of ?s = map_of m" using dist calculation(2) by (simp add: map_of_inject_set)
  ultimately show "map_of (put_map val (json_tree d' (enc_map enc m)) []) = map_of m"
    by (simp add: map_of_fold_distinct)
qed

lemma contact_names_ascii [simp]:
  "to_valid_utf8 ''fingerprint'' = ''fingerprint''" "to_valid_utf8 ''invite_url'' = ''invite_url''"
  "to_valid_utf8 ''last_seen'' = ''last_seen''" "to_valid_utf8 ''alias'' = ''alias''"
  "to_valid_utf8 ''outbox'' = ''outbox''" "to_valid_utf8 ''contacts'' = ''contacts''"
  by (rule ascii_valid_utf8, simp add: is_ascii_def)+

lemma contact_fields_text: "\<forall>(k, t) \<in> set (contact_fields c). json_text 0 t"
  by (auto simp: contact_fields_def)

lemma enc_contact_text: "json_text 1 (enc_contact v)"
proof (cases v)
  case (Some c)
  then show ?thesis using object_tree(1) [OF contact_fields_text, of 1] by (simp add: enc_contact_def)
qed (simp add: enc_contact_def)

lemma enc_contact_value:
  assumes "\<And>c. v = Some c \<Longrightarrow> contact_ok c"
  shows "contact_value (json_tree 1 (enc_contact v)) = v"
proof (cases v)
  case None
  then show ?thesis by (simp add: enc_contact_def contact_value_def)
next
  case (Some c)
  have t: "json_tree 1 (enc_contact v) = JObj (map (\<lambda>(k, t). (esc_string k, json_tree 0 t, t)) (contact_fields c))"
    using object_tree(2) [OF contact_fields_text, of 1] Some by (simp add: enc_contact_def)
  show ?thesis
    unfolding t using assms [OF Some]
    by (auto simp: Some contact_value_def contact_fields_def field_of_exact put_contact_def zero_contact_def
        contact_ok_def valid_utf8_def)
qed

lemma decode_encode_state:
  assumes "state_ok st"
  shows "map_of (Outbox (decode_state (encode_state st))) = map_of (Outbox st)"
    and "map_of (Contacts (decode_state (encode_state st))) = map_of (Contacts st)"
proof -
  let ?fs = "[(''outbox'', enc_map enc_string (Outbox st)), (''contacts'', enc_map enc_contact (Contacts st))]"
  note ok = assms [unfolded state_ok_def]
  have so: "\<forall>(k, v) \<in> set (Outbox st). json_text 1 (enc_string v)"
    "\<forall>(k, v) \<in> set (Contacts st). json_text 1 (enc_contact v)"
    using enc_contact_text by auto
  have vo: "\<forall>(k, v) \<in> set (Outbox st). valid_utf8 k \<and> outbox_value (json_tree 1 (enc_string v)) = v"
    using ok by (fastforce simp: outbox_value_def valid_utf8_def)
  have vc: "\<forall>(k, v) \<in> set (Contacts st). valid_utf8 k \<and> contact_value (json_tree 1 (enc_contact v)) = v"
    using ok enc_contact_value by fastforce
  have l: "1 < (2 :: nat)" by simp
  note o = put_map_enc [OF so(1) l vo ok [THEN conjunct1]]
  note c = put_map_enc [OF so(2) l vc ok [THEN conjunct2, THEN conjunct1]]
  have "json_stream (encode_state st) = Some (JObj (map (\<lambda>(k, t). (esc_string k, json_tree 2 t, t)) ?fs))"
    unfolding encode_state_def
    by (rule json_stream_object) (use o(1) c(1) in \<open>simp_all add: num_char_def is_dec_digit_def max_nesting_def\<close>)
  then have "decode_state (encode_state st) = \<lparr>Outbox = put_map outbox_value (json_tree 2 (enc_map enc_string (Outbox st))) [],
      Contacts = put_map contact_value (json_tree 2 (enc_map enc_contact (Contacts st))) []\<rparr>"
    by (simp add: decode_state_def field_of_exact put_state_def empty_state_def)
  with o(2) c(2) show "map_of (Outbox (decode_state (encode_state st))) = map_of (Outbox st)"
    "map_of (Contacts (decode_state (encode_state st))) = map_of (Contacts st)" by simp_all
qed

text \<open>Whatever the file holds, what is read from it is a state that reads back.\<close>

lemma update_all:
  "\<forall>(k, v) \<in> set m. Q k v \<Longrightarrow> Q k0 v0 \<Longrightarrow> \<forall>(k, v) \<in> set (AList.update k0 v0 m). Q k v"
  by (induction m) auto

lemma put_map_invariant:
  assumes "distinct (map fst m)" "\<forall>(k, v) \<in> set m. valid_utf8 k \<and> P v" "\<And>v. P (val v)"
  shows "distinct (map fst (put_map val v m)) \<and> (\<forall>(k, v) \<in> set (put_map val v m). valid_utf8 k \<and> P v)"
proof -
  have u: "\<forall>(k', v') \<in> set (AList.update (unquote k) (val v) m). valid_utf8 k' \<and> P v'"
    if "\<forall>(k, v) \<in> set m. valid_utf8 k \<and> P v" for k v and m :: "(string \<times> 'a) list"
    by (rule update_all [OF that]) (simp add: assms(3))
  have f: "distinct (map fst (fold (\<lambda>(k, v, raw) m. AList.update (unquote k) (val v) m) ms m)) \<and>
    (\<forall>(k, v) \<in> set (fold (\<lambda>(k, v, raw) m. AList.update (unquote k) (val v) m) ms m). valid_utf8 k \<and> P v)" for ms
    using assms(1,2)
  proof (induction ms arbitrary: m)
    case (Cons x ms)
    obtain k v raw where x: "x = (k, v, raw)" by (cases x)
    show ?case using Cons.IH [OF distinct_update [OF Cons.prems(1)] u [OF Cons.prems(2)], of k v] by (simp add: x)
  qed simp
  show ?thesis using f assms(1,2) by (cases v) (simp_all add: put_map_def)
qed

lemma contact_value_ok: "contact_value v = Some c \<Longrightarrow> contact_ok c"
proof -
  have z: "contact_ok zero_contact" by (simp add: contact_ok_def zero_contact_def int64_range_def)
  have "contact_ok (fst (decode_members names put_contact ms (zero_contact, False)))" for names ms
  proof -
    obtain c e where d: "decode_members names put_contact ms (zero_contact, False) = (c, e)"
      by (cases "decode_members names put_contact ms (zero_contact, False)")
    have "contact_ok (fst (put_contact n v raw s))" if "contact_ok s" for n v raw s
      using that put_string_valid put_int_range by (auto simp: contact_ok_def put_contact_def Let_def case_prod_beta)
    with decode_members_inv [where P = contact_ok, OF d z] d show ?thesis by auto
  qed
  with z show "contact_value v = Some c \<Longrightarrow> contact_ok c" by (auto simp: contact_value_def split: json.splits)
qed

lemma state_ok_empty: "state_ok empty_state"
  by (simp add: state_ok_def empty_state_def)

lemma state_ok_decode: "state_ok (decode_state s)"
proof -
  have put: "state_ok (fst (put_state n v raw st))" if "state_ok st" for n v raw st
  proof -
    have "distinct (map fst (put_map outbox_value v (Outbox st))) \<and>
      (\<forall>(k, q) \<in> set (put_map outbox_value v (Outbox st)). valid_utf8 k \<and> valid_utf8 q)"
      by (rule put_map_invariant) (use that in \<open>auto simp: state_ok_def outbox_value_def intro: put_string_valid\<close>)
    moreover have "distinct (map fst (put_map contact_value v (Contacts st))) \<and>
      (\<forall>(k, x) \<in> set (put_map contact_value v (Contacts st)). valid_utf8 k \<and> (\<forall>c. x = Some c \<longrightarrow> contact_ok c))"
      by (rule put_map_invariant) (use that in \<open>auto simp: state_ok_def contact_value_ok\<close>)
    ultimately show ?thesis using that by (auto simp: state_ok_def put_state_def)
  qed
  have "state_ok (fst (decode_members names put_state ms (empty_state, False)))" for names ms
  proof -
    obtain st e where d: "decode_members names put_state ms (empty_state, False) = (st, e)"
      by (cases "decode_members names put_state ms (empty_state, False)")
    from decode_members_inv [where P = state_ok, OF d state_ok_empty] put d show ?thesis by auto
  qed
  then show ?thesis using state_ok_empty by (auto simp: decode_state_def split: option.split json.split)
qed

lemma state_ok_load: "state_ok (loadState dir fails i fs)"
  using state_ok_empty state_ok_decode by (auto simp: loadState_def split: option.split)

text \<open>What was saved is what is loaded, at the next start as well.\<close>

lemma load_after_save:
  assumes "saved_ok f dir i" "state_ok st" "\<And>p. statePath dir i = Some p \<Longrightarrow> tmp \<noteq> p"
  shows "map_of (Outbox (loadState dir False i (last (saveState f tmp dir i st fs)))) = map_of (Outbox st)"
    and "map_of (Contacts (loadState dir False i (last (saveState f tmp dir i st fs)))) = map_of (Contacts st)"
proof -
  obtain p where p: "statePath dir i = Some p" using assms(1) by (auto simp: saved_ok_def)
  have "last (saveState f tmp dir i st fs) p = Some (encode_state st, private_mode)"
    using write_result [of tmp p False f "encode_state st" fs] assms(1,3) p by (simp add: saveState_def saved_ok_def)
  then have "loadState dir False i (last (saveState f tmp dir i st fs)) = decode_state (encode_state st)"
    using p by (simp add: loadState_def)
  with decode_encode_state [OF assms(2)]
  show "map_of (Outbox (loadState dir False i (last (saveState f tmp dir i st fs)))) = map_of (Outbox st)"
    "map_of (Contacts (loadState dir False i (last (saveState f tmp dir i st fs)))) = map_of (Contacts st)" by simp_all
qed

lemma state_ok_outbox:
  "state_ok st \<Longrightarrow> valid_utf8 h \<Longrightarrow> valid_utf8 q \<Longrightarrow> state_ok (st\<lparr>Outbox := AList.update h q (Outbox st)\<rparr>)"
  using update_all [of "Outbox st" "\<lambda>k v. valid_utf8 k \<and> valid_utf8 v" h q] by (simp add: state_ok_def distinct_update)

lemma state_ok_upsert:
  assumes "upsert now p link st = Ret st'" "state_ok st" "valid_utf8 link" "int64_range now"
  shows "state_ok st'"
proof -
  let ?fp = "fpHex (IBoxPub p)"
  have fp: "valid_utf8 ?fp"
  proof (rule runes_valid [OF runes_ascii])
    have "is_ascii (to_upper c)" if "is_lower_hex c" for c
      using that by (auto simp: to_upper_def is_ascii_def is_lower_hex_def is_dec_digit_def)
    then show "list_all is_ascii ?fp"
      using hex_encode_lower [of "take 8 (sha256 (IBoxPub p))"] by (auto simp: fpHex_eq list_all_iff)
  qed
  obtain c where c: "contact_ok c" "Outbox st' = Outbox st" "Contacts st' = AList.update ?fp (Some c) (Contacts st)"
  proof (cases "map_of (Contacts st) ?fp")
    case None
    then have "contact_ok ((new_contact ?fp)\<lparr>CInviteURL := link, LastSeen := now\<rparr>)"
      using assms(3,4) fp by (simp add: contact_ok_def new_contact_def zero_contact_def)
    with None assms(1) that show thesis by (auto simp: upsert_def Let_def)
  next
    case (Some x)
    then obtain c0 where c0: "x = Some c0" using assms(1) by (cases x) (auto simp: upsert_def Let_def)
    have "contact_ok c0" using map_of_SomeD [OF Some] assms(2) c0 by (auto simp: state_ok_def)
    then have "contact_ok (c0\<lparr>CInviteURL := link, LastSeen := now\<rparr>)" using assms(3,4) by (simp add: contact_ok_def)
    with Some c0 assms(1) that show thesis by (auto simp: upsert_def Let_def)
  qed
  show ?thesis
    using assms(2) c fp
      update_all [of "Contacts st" "\<lambda>k v. valid_utf8 k \<and> (\<forall>c. v = Some c \<longrightarrow> contact_ok c)" ?fp "Some c"]
    by (simp add: state_ok_def distinct_update)
qed

end
