(* ===== verification/Go_Net.thy ===== *)
theory Go_Net
  imports Go_Url
begin

text \<open>
  The rest of the Go library the client leans on: \<open>strings.TrimSpace\<close>, \<open>strconv.Atoi\<close> with its value on
  an error, \<open>net.SplitHostPort\<close>, and the line reader \<open>bufio.Scanner\<close>.
\<close>

subsection \<open>Trimming\<close>

text \<open>The encodings of the runes of \<open>unicode.IsSpace\<close>.\<close>

definition space_runes :: "bytes list" where
  "space_runes =
     [[CHR 0x09], [CHR 0x0A], [CHR 0x0B], [CHR 0x0C], [CHR 0x0D], [CHR 0x20],
      [CHR 0xC2, CHR 0x85], [CHR 0xC2, CHR 0xA0], [CHR 0xE1, CHR 0x9A, CHR 0x80]]
     @ map (\<lambda>n. [CHR 0xE2, CHR 0x80, char_of n]) [128..<139]
     @ [[CHR 0xE2, CHR 0x80, CHR 0xA8], [CHR 0xE2, CHR 0x80, CHR 0xA9], [CHR 0xE2, CHR 0x80, CHR 0xAF],
        [CHR 0xE2, CHR 0x81, CHR 0x9F], [CHR 0xE3, CHR 0x80, CHR 0x80]]"

text \<open>Cutting off pieces of \<open>ws\<close> (none of them empty) at the front, as long as there is one.\<close>

function strip :: "bytes list \<Rightarrow> bytes \<Rightarrow> bytes" where
  "strip ws s =
     (case find (\<lambda>w. w \<noteq> [] \<and> has_prefix w s) ws of
        None \<Rightarrow> s
      | Some w \<Rightarrow> strip ws (drop (length w) s))"
  by pat_completeness auto
termination
  by (relation "measure (length \<circ> snd)") (auto simp: find_Some_iff has_prefix_iff)

declare strip.simps [simp del]

definition TrimSpace :: "string \<Rightarrow> string" where
  "TrimSpace s = rev (strip (map rev space_runes) (rev (strip space_runes s)))"

lemma strip_prefix: "\<exists>a. s = a @ strip ws s"
proof (induction ws s rule: strip.induct)
  case (1 ws s)
  show ?case
  proof (cases "find (\<lambda>w. w \<noteq> [] \<and> has_prefix w s) ws")
    case None
    then show ?thesis by (simp add: strip.simps)
  next
    case (Some w)
    then have "s = w @ drop (length w) s" by (auto simp: find_Some_iff has_prefix_iff)
    moreover obtain a where "drop (length w) s = a @ strip ws (drop (length w) s)" using 1 [OF Some] by blast
    moreover have "strip ws s = strip ws (drop (length w) s)" using Some by (simp add: strip.simps [of ws s])
    ultimately have "s = (w @ a) @ strip ws s" by simp
    then show ?thesis by blast
  qed
qed

lemma strip_done: "w \<in> set ws \<Longrightarrow> w \<noteq> [] \<Longrightarrow> \<not> has_prefix w (strip ws s)"
proof (induction ws s rule: strip.induct)
  case (1 ws s)
  show ?case
  proof (cases "find (\<lambda>w. w \<noteq> [] \<and> has_prefix w s) ws")
    case None
    then have "strip ws s = s" by (simp add: strip.simps)
    then show ?thesis using None 1(2,3) by (auto simp: find_None_iff)
  next
    case (Some v)
    then show ?thesis using 1(1) [OF Some 1(2,3)] by (simp add: strip.simps [of ws s])
  qed
qed

lemma strip_none: "(\<And>w. w \<in> set ws \<Longrightarrow> w \<noteq> [] \<Longrightarrow> \<not> has_prefix w s) \<Longrightarrow> strip ws s = s"
proof -
  assume "\<And>w. w \<in> set ws \<Longrightarrow> w \<noteq> [] \<Longrightarrow> \<not> has_prefix w s"
  then have "find (\<lambda>w. w \<noteq> [] \<and> has_prefix w s) ws = None" by (auto simp: find_None_iff)
  then show ?thesis by (simp add: strip.simps)
qed

lemma TrimSpace_infix: "\<exists>a b. s = a @ TrimSpace s @ b"
proof -
  obtain a where a: "s = a @ strip space_runes s" using strip_prefix by blast
  obtain b where "rev (strip space_runes s) = b @ rev (TrimSpace s)"
    using strip_prefix [of "rev (strip space_runes s)" "map rev space_runes"] by (auto simp: TrimSpace_def)
  then have "strip space_runes s = TrimSpace s @ rev b" by (metis rev_append rev_rev_ident)
  with a show ?thesis by metis
qed

lemma has_prefix_append: "has_prefix w s \<Longrightarrow> has_prefix w (s @ t)"
  by (auto simp: has_prefix_iff)

lemma TrimSpace_ends:
  assumes "w \<in> set space_runes"
  shows "\<not> has_prefix w (TrimSpace s)" "\<not> has_prefix (rev w) (rev (TrimSpace s))"
proof -
  have ne: "w \<noteq> []" using assms by (auto simp: space_runes_def)
  show "\<not> has_prefix (rev w) (rev (TrimSpace s))"
    using strip_done [of "rev w" "map rev space_runes"] assms ne by (simp add: TrimSpace_def)
  obtain b where "rev (strip space_runes s) = b @ rev (TrimSpace s)"
    using strip_prefix [of "rev (strip space_runes s)" "map rev space_runes"] by (auto simp: TrimSpace_def)
  then have "strip space_runes s = TrimSpace s @ rev b" by (metis rev_append rev_rev_ident)
  with strip_done [OF assms ne, of s] show "\<not> has_prefix w (TrimSpace s)"
    using has_prefix_append by metis
qed

lemma TrimSpace_idem [simp]: "TrimSpace (TrimSpace s) = TrimSpace s"
proof -
  have "strip space_runes (TrimSpace s) = TrimSpace s" by (rule strip_none) (rule TrimSpace_ends)
  moreover have "strip (map rev space_runes) (rev (TrimSpace s)) = rev (TrimSpace s)"
    by (rule strip_none) (use TrimSpace_ends(2) in auto)
  ultimately show ?thesis by (simp add: TrimSpace_def [of "TrimSpace s"])
qed

subsection \<open>Numbers\<close>

text \<open>The value \<open>strconv.Atoi\<close> returns: the nearest one out of range, 0 for text that is no number.\<close>

definition Atoi :: "string \<Rightarrow> int \<times> bool" where
  "Atoi s =
     (case parse_int s of
        Some i \<Rightarrow> (i, False)
      | None \<Rightarrow>
          (let neg = (s \<noteq> [] \<and> hd s = CHR ''-''); ds = (if s \<noteq> [] \<and> hd s \<in> set ''+-'' then tl s else s) in
           (if parse_digits ds = None then 0 else if neg then - (2 ^ 63) else 2 ^ 63 - 1, True)))"

lemma Atoi_ok: "Atoi s = (i, False) \<longleftrightarrow> parse_int s = Some i"
  by (simp add: Atoi_def Let_def split: option.split)

lemma Atoi_show [simp]: "int64_range i \<Longrightarrow> Atoi (show_int i) = (i, False)"
  by (simp add: Atoi_ok)

subsection \<open>Addresses\<close>

definition SplitHostPort :: "string \<Rightarrow> (string \<times> string) option" where
  "SplitHostPort s =
     (if CHR '':'' \<notin> set s then None
      else if has_prefix ''['' s then
        (if CHR '']'' \<notin> set s \<or> last_before (CHR '':'') s \<noteq> cut_before (CHR '']'') s @ '']''
            \<or> CHR ''['' \<in> set (tl s) \<or> CHR '']'' \<in> set (cut_after (CHR '']'') s) then None
         else Some (tl (cut_before (CHR '']'') s), last_after (CHR '':'') s))
      else if CHR '':'' \<in> set (last_before (CHR '':'') s) \<or> CHR ''['' \<in> set s \<or> CHR '']'' \<in> set s then None
      else Some (last_before (CHR '':'') s, last_after (CHR '':'') s))"

lemma SplitHostPort_plain:
  assumes "set h \<inter> set '':[]'' = {}" "set p \<inter> set '':[]'' = {}"
  shows "SplitHostPort (h @ '':'' @ p) = Some (h, p)"
proof -
  have "CHR '':'' \<notin> set p" using assms(2) by auto
  from last_append [OF this, of h] have l: "last_before (CHR '':'') (h @ '':'' @ p) = h"
    "last_after (CHR '':'') (h @ '':'' @ p) = p" by simp_all
  have "\<not> has_prefix ''['' (h @ '':'' @ p)" using assms(1) by (cases h) auto
  then show ?thesis using l assms by (auto simp: SplitHostPort_def)
qed

subsection \<open>Reading lines\<close>

text \<open>
  One \<open>Scan\<close> on input that comes a line at a time: the line and the rest.  A line that does not fit the
  scanner's buffer of 64 KiB ends the input, as the end does.
\<close>

definition max_token :: nat where "max_token = 64 * 1024"

definition scan :: "string list \<Rightarrow> (string \<times> string list) option" where
  "scan input = (case input of [] \<Rightarrow> None | l # ls \<Rightarrow> if length l < max_token then Some (l, ls) else None)"

end
