(* ===== verification/Client_Session.thy ===== *)
theory Client_Session
  imports Client_State Conn Go_Net
begin

text \<open>
  \<open>client/session.go\<close> and \<open>runNew\<close> of \<open>client/main.go\<close>: how the client starts.  What it touches is the record
  \<open>world\<close> (the disk, the lines typed, the frames that arrive before a read fails, the frames and links it
  puts out); what can go wrong and what is outside the repository is the record \<open>setting\<close>.
\<close>

subsection \<open>Small functions\<close>

definition buildWSURL :: "string \<Rightarrow> int \<Rightarrow> string" where
  "buildWSURL host port =
     (if port = 0 \<or> port = 443 then ''wss://'' @ host @ ''/ws''
      else ''ws://'' @ host @ '':'' @ show_int port @ ''/ws'')"

definition parseAddr :: "string \<Rightarrow> string \<times> int" where
  "parseAddr addr =
     (case SplitHostPort addr of
        None \<Rightarrow> (addr, 0)
      | Some (host, portStr) \<Rightarrow>
          (let (port, err) = Atoi portStr
           in if err \<or> port < 1 \<or> 65535 < port then (host, 0) else (host, port)))"

definition validQID :: "string \<Rightarrow> bool" where
  "validQID q \<longleftrightarrow> length q = 32 \<and> list_all is_lower_hex q"

definition isIndex :: "string \<Rightarrow> nat \<Rightarrow> bool" where
  "isIndex input n =
     (if n = 0 \<or> input = [] then False
      else if \<not> list_all is_dec_digit input then False
      else let (v, err) = Atoi input in \<not> err \<and> 1 \<le> v \<and> v \<le> int n)"

definition toIndex :: "string \<Rightarrow> int" where
  "toIndex input = fst (Atoi input) - 1"

subsection \<open>The world and its faults\<close>

record world =
  files :: fs
  typed :: "string list"
  arriving :: "string list"
  sent :: "string list"
  links :: "string list"

text \<open>
  The state file is opened and written at three places of the start (0: the queue, 1: the contact list, 2:
  the contact of this session).
\<close>

record setting =
  curves :: prims
  ip_literal :: "string \<Rightarrow> string option"
  knock_identity :: string
  config_dir :: "string option"
  stat_fails :: bool
  open_fails :: bool
  id_fault :: write_fault
  id_tmp :: string
  rnd_box :: "bytes option"
  rnd_sign :: "bytes option"
  state_unreadable :: "nat \<Rightarrow> bool"
  state_fault :: "nat \<Rightarrow> write_fault"
  state_tmp :: "nat \<Rightarrow> string"
  dials :: "string \<Rightarrow> bool"
  write_breaks :: "nat \<Rightarrow> bool"
  wall :: "nat \<Rightarrow> int"

datatype request_error = EncodeError | SendingFailed | NoAnswer | Rejected int string

datatype chat_error =
    NoIdentityPath
  | IdentityProblem identity_error
  | BadPeerLink invite_error
  | DialFailed
  | BadQueueArg
  | SaveStateFailed
  | RequestFailed request_error
  | BadNewOk
  | EmptyQID
  | NothingTyped
  | SaveContactFailed

record session =
  my_queue :: string
  peer_queue :: string
  advHost :: string
  advPort :: int
  nick :: string
  seen :: "string list"
  sendq :: client
  me :: identity

subsection \<open>One request\<close>

text \<open>The reading loop of \<open>request\<close>: the frames that arrive until the wanted answer, an error, or no more.\<close>

fun await :: "string \<Rightarrow> string list \<Rightarrow> (request_error + envelope) \<times> string list" where
  "await want [] = (Inl NoAnswer, [])"
| "await want (f # fs) =
     (case Parse f of
        Inl _ \<Rightarrow> await want fs
      | Inr resp \<Rightarrow>
          if Typ resp = TypeError then (let (code, msg) = fst (decode_error resp) in (Inl (Rejected code msg), fs))
          else if Typ resp = want then (Inr resp, fs)
          else await want fs)"

definition request :: "bool \<Rightarrow> envelope \<Rightarrow> string \<Rightarrow> world \<Rightarrow> (request_error + envelope) \<times> world" where
  "request breaks env want w =
     (case marshal_envelope env of
        None \<Rightarrow> (Inl EncodeError, w)
      | Some data \<Rightarrow>
          if breaks then (Inl SendingFailed, w)
          else let (r, rest) = await want (arriving w) in (r, w\<lparr>sent := sent w @ [data], arriving := rest\<rparr>))"

text \<open>The envelope of a request; without a payload \<open>NewEnvelope\<close> cannot fail.\<close>

definition bare_envelope :: "int \<Rightarrow> string \<Rightarrow> string \<Rightarrow> envelope" where
  "bare_envelope now t qid = the (NewEnvelope now t qid [] NoPayload)"

subsection \<open>Identity and server\<close>

definition loadMyIdentity :: "setting \<Rightarrow> world \<Rightarrow> (chat_error + identity) \<times> world" where
  "loadMyIdentity c w =
     (case DefaultPath (knock_identity c) (config_dir c) of
        None \<Rightarrow> (Inl NoIdentityPath, w)
      | Some path \<Rightarrow>
          (case LoadOrCreate (curves c) (stat_fails c) (open_fails c) (id_fault c) (rnd_box c) (rnd_sign c) (id_tmp c) path (files w) of
             (Inl e, d) \<Rightarrow> (Inl (IdentityProblem e), w\<lparr>files := d\<rparr>)
           | (Inr (i, created), d) \<Rightarrow> (Inr i, w\<lparr>files := d\<rparr>)))"

definition choose_server :: "invite option \<Rightarrow> string \<Rightarrow> string \<times> int" where
  "choose_server peer serverAddr =
     (case peer of Some p \<Rightarrow> (IHost p, IPort p)
      | None \<Rightarrow> if serverAddr = [] then (''localhost'', 8080) else parseAddr serverAddr)"

definition new_session :: "string \<Rightarrow> int \<Rightarrow> identity \<Rightarrow> session" where
  "new_session host port i =
     \<lparr>my_queue = [], peer_queue = [], advHost = host, advPort = port, nick = host, seen = [], sendq = new_client, me = i\<rparr>"

definition myInvite :: "session \<Rightarrow> string" where
  "myInvite s = Invite_String \<lparr>IHost = advHost s, IPort = advPort s, IQueueID = my_queue s, IBoxPub = BoxPub (me s)\<rparr>"

subsection \<open>My queue\<close>

definition keep_queue :: "setting \<Rightarrow> identity \<Rightarrow> string \<Rightarrow> string \<Rightarrow> client_state \<Rightarrow> world \<Rightarrow> (chat_error + string) \<times> world" where
  "keep_queue c i host q st w =
     (let st' = st\<lparr>Outbox := AList.update host q (Outbox st)\<rparr>;
          w' = w\<lparr>files := last (saveState (state_fault c 0) (state_tmp c 0) (config_dir c) i st' (files w))\<rparr>
      in (if saved_ok (state_fault c 0) (config_dir c) i then Inr q else Inl SaveStateFailed, w'))"

definition ask_queue :: "setting \<Rightarrow> identity \<Rightarrow> string \<Rightarrow> client_state \<Rightarrow> world \<Rightarrow> (chat_error + string) \<times> world" where
  "ask_queue c i host st w =
     (case request (write_breaks c 0) (bare_envelope (wall c 0) TypeNew []) TypeNewOk w of
        (Inl e, w1) \<Rightarrow> (Inl (RequestFailed e), w1)
      | (Inr resp, w1) \<Rightarrow>
          (let (q, err) = decode_new_ok resp in
           if err then (Inl BadNewOk, w1)
           else if q = [] then (Inl EmptyQID, w1)
           else keep_queue c i host q st w1))"

definition pick_outbox :: "setting \<Rightarrow> identity \<Rightarrow> string \<Rightarrow> string \<Rightarrow> world \<Rightarrow> (chat_error + string) \<times> world" where
  "pick_outbox c i host myQueue w =
     (let st = loadState (config_dir c) (state_unreadable c 0) i (files w) in
      if myQueue \<noteq> [] then
        (if \<not> validQID myQueue then (Inl BadQueueArg, w)
         else if map_of (Outbox st) host \<noteq> Some myQueue then keep_queue c i host myQueue st w
         else (Inr myQueue, w))
      else case map_of (Outbox st) host of
             Some q \<Rightarrow> if validQID q then (Inr q, w) else ask_queue c i host st w
           | None \<Rightarrow> ask_queue c i host st w)"

subsection \<open>The other's queue\<close>

text \<open>The list of contacts is printed before each line is read; it slices the first 8 bytes of each fingerprint.\<close>

definition listing_panics :: "contact list \<Rightarrow> bool" where
  "listing_panics cs \<longleftrightarrow> (\<exists>c \<in> set cs. length (CFingerprint c) < 8)"

definition chosen_link :: "contact list \<Rightarrow> string \<Rightarrow> string" where
  "chosen_link cs input =
     (if input = [] \<and> cs \<noteq> [] then CInviteURL (hd cs)
      else if isIndex input (length cs) then CInviteURL (cs ! nat (toIndex input))
      else input)"

fun pick_peer ::
  "(string \<Rightarrow> string option) \<Rightarrow> contact list \<Rightarrow> string list \<Rightarrow> (unit, (chat_error + invite \<times> string) \<times> string list) outcome"
where
  "pick_peer ipl cs [] = (if listing_panics cs then Panic () else Ret (Inl NothingTyped, []))"
| "pick_peer ipl cs (l # ls) =
     (if listing_panics cs then Panic ()
      else case scan (l # ls) of
        None \<Rightarrow> Ret (Inl NothingTyped, l # ls)
      | Some (text, rest) \<Rightarrow>
          (let link = chosen_link cs (TrimSpace text) in
           case ParseInvite ipl link of
             Inl e \<Rightarrow> pick_peer ipl cs ls
           | Inr p \<Rightarrow> Ret (Inr (p, link), ls)))"

subsection \<open>Starting a chat\<close>

definition subscribe :: "setting \<Rightarrow> session \<Rightarrow> invite \<Rightarrow> string \<Rightarrow> world \<Rightarrow> (unit, (chat_error + session) \<times> world) outcome" where
  "subscribe c s peer rawLink w =
     (case request (write_breaks c 1) (bare_envelope (wall c 1) TypeSub (IQueueID peer)) TypeSubOk w of
        (Inl e, w1) \<Rightarrow> Ret (Inl (RequestFailed e), w1)
      | (Inr _, w1) \<Rightarrow>
          bind_outcome
            (upsertContact (config_dir c) (state_unreadable c 2) (state_fault c 2) (state_tmp c 2) (wall c 2) (me s) peer rawLink (files w1))
            (\<lambda>(ok, ds). let w2 = w1\<lparr>files := last ds\<rparr> in
               Ret (if ok then Inr (s\<lparr>peer_queue := IQueueID peer\<rparr>) else Inl SaveContactFailed, w2)))"

text \<open>Picking the other when the command line gave no link; the address moves to the server of the link.\<close>

definition meet :: "setting \<Rightarrow> session \<Rightarrow> (invite \<times> string) option \<Rightarrow> world \<Rightarrow> (unit, (chat_error + session) \<times> world) outcome" where
  "meet c s peer w =
     (case peer of
        Some (p, raw) \<Rightarrow> subscribe c s p raw w
      | None \<Rightarrow>
          bind_outcome (sortedContacts (loadState (config_dir c) (state_unreadable c 1) (me s) (files w))) (\<lambda>cs.
          bind_outcome (pick_peer (ip_literal c) cs (typed w)) (\<lambda>(r, rest).
          let w1 = w\<lparr>typed := rest\<rparr> in
          case r of
            Inl e \<Rightarrow> Ret (Inl e, w1)
          | Inr (p, raw) \<Rightarrow> subscribe c (s\<lparr>advHost := IHost p, advPort := IPort p, nick := IHost p\<rparr>) p raw w1)))"

definition peer_arg :: "setting \<Rightarrow> string \<Rightarrow> chat_error + (invite \<times> string) option" where
  "peer_arg c peerLink =
     (if peerLink = [] then Inr None
      else case ParseInvite (ip_literal c) peerLink of
             Inl e \<Rightarrow> Inl (BadPeerLink e)
           | Inr p \<Rightarrow> Inr (Some (p, peerLink)))"

text \<open>\<open>runChat\<close> up to the start of the pumps: the session they run on, or the error that ends the program.\<close>

definition runChat :: "setting \<Rightarrow> string \<Rightarrow> string \<Rightarrow> string \<Rightarrow> world \<Rightarrow> (unit, (chat_error + session) \<times> world) outcome" where
  "runChat c peerLink serverAddr myQueue w =
     (case loadMyIdentity c w of
        (Inl e, w1) \<Rightarrow> Ret (Inl e, w1)
      | (Inr i, w1) \<Rightarrow>
          (case peer_arg c peerLink of
             Inl e \<Rightarrow> Ret (Inl e, w1)
           | Inr peer \<Rightarrow>
               (let (host, port) = choose_server (map_option fst peer) serverAddr in
                if \<not> dials c (buildWSURL host port) then Ret (Inl DialFailed, w1)
                else case pick_outbox c i host myQueue w1 of
                       (Inl e, w2) \<Rightarrow> Ret (Inl e, w2)
                     | (Inr q, w2) \<Rightarrow>
                         (let s = (new_session host port i)\<lparr>my_queue := q\<rparr>
                          in meet c s peer (w2\<lparr>links := links w2 @ [myInvite s]\<rparr>)))))"

text \<open>\<open>runNew\<close>: the answer's payload is not checked.\<close>

definition runNew :: "setting \<Rightarrow> string \<Rightarrow> world \<Rightarrow> (chat_error + string) \<times> world" where
  "runNew c addr w =
     (case loadMyIdentity c w of
        (Inl e, w1) \<Rightarrow> (Inl e, w1)
      | (Inr i, w1) \<Rightarrow>
          (let (host, port) = parseAddr (if addr = [] then ''localhost:8080'' else addr) in
           if \<not> dials c (buildWSURL host port) then (Inl DialFailed, w1)
           else case request (write_breaks c 0) (bare_envelope (wall c 0) TypeNew []) TypeNewOk w1 of
                  (Inl e, w2) \<Rightarrow> (Inl (RequestFailed e), w2)
                | (Inr resp, w2) \<Rightarrow>
                    (Inr (Invite_String \<lparr>IHost = host, IPort = port, IQueueID = fst (decode_new_ok resp), IBoxPub = BoxPub i\<rparr>), w2)))"

end
