(* ===== verification/Client_Pumps.thy ===== *)
theory Client_Pumps
  imports Client_Session
begin

text \<open>
  \<open>client/pumps.go\<close>: the chat itself, three goroutines on one session.  A step is one turn of one of them:
  \<open>readPump\<close> takes a frame (and then may wait, \<open>Acking\<close>, for room in the send queue), \<open>writePump\<close> writes or
  pings, \<open>stdinLoop\<close> takes a line.  The program ends with \<open>stdinLoop\<close>.
\<close>

subsection \<open>State\<close>

datatype receiver = Receiving | Acking string | Stopped

record chat =
  sess :: session
  rp :: receiver
  wp_on :: bool
  conn_open :: bool
  typing :: bool
  screen :: "string list"
  wire_out :: "wire list"

definition prompt :: string where "prompt = ''> ''"
definition clearLine :: string where "clearLine = CHR 0x0D # CHR 0x1B # ''[K''"

text \<open>The three notices, in UTF-8.\<close>

definition error_notice :: string where
  "error_notice = [CHR 0x5B, CHR 0xE9, CHR 0x94, CHR 0x99, CHR 0xE8, CHR 0xAF, CHR 0xAF, CHR 0x20]"

definition closed_notice :: string where
  "closed_notice = [CHR 0x5B, CHR 0xE9, CHR 0x93, CHR 0xBE, CHR 0xE6, CHR 0x8E, CHR 0xA5, CHR 0xE5, CHR 0x85, CHR 0xB3,
     CHR 0xE9, CHR 0x97, CHR 0xAD, CHR 0xEF, CHR 0xBC, CHR 0x8C, CHR 0xE5, CHR 0x9B, CHR 0x9E, CHR 0xE8, CHR 0xBD, CHR 0xA6,
     CHR 0xE9, CHR 0x80, CHR 0x80, CHR 0xE5, CHR 0x87, CHR 0xBA, CHR 0x5D]"

definition full_notice :: string where
  "full_notice = [CHR 0x5B, CHR 0xE5, CHR 0x8F, CHR 0x91, CHR 0xE9, CHR 0x80, CHR 0x81, CHR 0xE9, CHR 0x98, CHR 0x9F,
     CHR 0xE5, CHR 0x88, CHR 0x97, CHR 0xE5, CHR 0xB7, CHR 0xB2, CHR 0xE6, CHR 0xBB, CHR 0xA1, CHR 0xEF, CHR 0xBC, CHR 0x8C,
     CHR 0xE6, CHR 0xB6, CHR 0x88, CHR 0xE6, CHR 0x81, CHR 0xAF, CHR 0xE8, CHR 0xA2, CHR 0xAB, CHR 0xE4, CHR 0xB8, CHR 0xA2,
     CHR 0xE5, CHR 0xBC, CHR 0x83, CHR 0x5D]"

definition newline :: string where "newline = [CHR 0x0A]"

definition show_on :: "string \<Rightarrow> chat \<Rightarrow> chat" where
  "show_on t s = s\<lparr>screen := screen s @ [t]\<rparr>"

text \<open>The chat as \<open>runChat\<close> starts it.\<close>

definition start_chat :: "session \<Rightarrow> chat" where
  "start_chat se = \<lparr>sess = se, rp = Receiving, wp_on = True, conn_open = True, typing = True,
     screen = [clearLine @ prompt], wire_out = []\<rparr>"

lemma start_chat_simps [simp]:
  "sess (start_chat se) = se" "rp (start_chat se) = Receiving" "typing (start_chat se)" "conn_open (start_chat se)"
  "wp_on (start_chat se)"
  by (simp_all add: start_chat_def)

subsection \<open>The read pump\<close>

text \<open>What one frame makes the reader do, and the identifiers it has seen afterwards.\<close>

datatype action = Ignored | ShowChat string string string | ShowError int string

definition receive :: "string list \<Rightarrow> string \<Rightarrow> action \<times> string list" where
  "receive sn data =
     (case Parse data of
        Inl _ \<Rightarrow> (Ignored, sn)
      | Inr env \<Rightarrow>
          if Typ env = TypeDeliver then
            (if MsgID env \<in> set sn then (Ignored, sn)
             else let (text, err) = decode_chat env in
                  (if err then Ignored else ShowChat (QueueID env) (MsgID env) text, MsgID env # sn))
          else if Typ env = TypeError then
            (let ((code, msg), err) = decode_error env in (if err then Ignored else ShowError code msg, sn))
          else (Ignored, sn))"

definition ack_for :: "int \<Rightarrow> string \<Rightarrow> string \<Rightarrow> string option" where
  "ack_for now qid mid = frame_of now TypeAck qid mid (AckMessage mid)"

definition receive_turn :: "int \<Rightarrow> string \<Rightarrow> chat \<Rightarrow> chat" where
  "receive_turn now data s =
     (let (a, sn) = receive (seen (sess s)) data; s1 = s\<lparr>sess := (sess s)\<lparr>seen := sn\<rparr>\<rparr> in
      case a of
        Ignored \<Rightarrow> s1
      | ShowError code msg \<Rightarrow> show_on (clearLine @ error_notice @ show_int code @ ''] '' @ msg @ newline @ prompt) s1
      | ShowChat qid mid text \<Rightarrow>
          (show_on (clearLine @ ''['' @ nick (sess s) @ ''] '' @ text @ newline @ prompt) s1)
            \<lparr>rp := (case ack_for now qid mid of None \<Rightarrow> Receiving | Some d \<Rightarrow> Acking d)\<rparr>)"

subsection \<open>The send queue and the keyboard\<close>

definition enqueue :: "string \<Rightarrow> chat \<Rightarrow> chat" where
  "enqueue d s = s\<lparr>sess := (sess s)\<lparr>sendq := (sendq (sess s))\<lparr>buf := buf (sendq (sess s)) @ [d]\<rparr>\<rparr>\<rparr>"

definition has_room :: "chat \<Rightarrow> bool" where
  "has_room s \<longleftrightarrow> length (buf (sendq (sess s))) < sendCap"

definition new_mid :: "bytes option \<Rightarrow> string" where
  "new_mid r = (case NewID r of None \<Rightarrow> [] | Some m \<Rightarrow> m)"

definition typed_frame :: "int \<Rightarrow> bytes option \<Rightarrow> string \<Rightarrow> session \<Rightarrow> string option" where
  "typed_frame now r text se = frame_of now TypeSend (my_queue se) (new_mid r) (ChatMessage text)"

definition line_turn :: "int \<Rightarrow> bytes option \<Rightarrow> string \<Rightarrow> chat \<Rightarrow> chat" where
  "line_turn now r line s =
     (let text = TrimSpace line in
      if text = [] then show_on (clearLine @ prompt) s
      else if text = ''/quit'' then s\<lparr>conn_open := False, typing := False\<rparr>
      else show_on (clearLine @ prompt)
             (case typed_frame now r text (sess s) of
                None \<Rightarrow> s
              | Some d \<Rightarrow> if has_room s then enqueue d s else show_on (full_notice @ newline) s))"

subsection \<open>Steps\<close>

datatype client_event =
    FrameIn int string
  | ReadEnds
  | AckQueued
  | WriteOut bool bool
  | Line int "bytes option" string
  | InputEnds

text \<open>A frame that is already buffered may still be read after another goroutine has closed the connection.\<close>

inductive client_step :: "chat \<Rightarrow> client_event \<Rightarrow> chat \<Rightarrow> bool" where
  frame_in: "typing s \<Longrightarrow> rp s = Receiving \<Longrightarrow> length data \<le> maxMsgSize \<Longrightarrow>
     client_step s (FrameIn now data) (receive_turn now data s)"
| read_ends: "typing s \<Longrightarrow> rp s = Receiving \<Longrightarrow>
     client_step s ReadEnds
       (show_on (clearLine @ closed_notice @ newline) (s\<lparr>rp := Stopped, conn_open := False\<rparr>))"
| ack_queued: "typing s \<Longrightarrow> rp s = Acking d \<Longrightarrow> has_room s \<Longrightarrow>
     client_step s AckQueued ((enqueue d s)\<lparr>rp := Receiving\<rparr>)"
| write_frame: "typing s \<Longrightarrow> wp_on s \<Longrightarrow> write_turn tick ok (sendq (sess s)) = Some (q, ws, go) \<Longrightarrow> (ok \<Longrightarrow> conn_open s) \<Longrightarrow>
     client_step s (WriteOut tick ok)
       (s\<lparr>sess := (sess s)\<lparr>sendq := q\<rparr>, wire_out := wire_out s @ ws, wp_on := go, conn_open := (conn_open s \<and> go)\<rparr>)"
| line_in: "typing s \<Longrightarrow> length line < max_token \<Longrightarrow> client_step s (Line now r line) (line_turn now r line s)"
| input_ends: "typing s \<Longrightarrow> client_step s InputEnds (s\<lparr>typing := False\<rparr>)"

inductive_cases client_stepE [consumes 1, case_names frame_in read_ends ack_queued write_frame line_in input_ends]:
  "client_step s e s'"

inductive_simps line_step_iff: "client_step s (Line now r line) s'"
inductive_simps input_ends_iff: "client_step s InputEnds s'"

text \<open>What the machine guarantees: clock readings fit, the random source gives 16 bytes or an error.\<close>

definition client_event_ok :: "chat \<Rightarrow> client_event \<Rightarrow> bool" where
  "client_event_ok s e \<longleftrightarrow>
     (case e of
        FrameIn now data \<Rightarrow> int64_range now
      | Line now r line \<Rightarrow> int64_range now \<and> (\<forall>b. r = Some b \<longrightarrow> length b = 16)
      | _ \<Rightarrow> True)"

subsection \<open>The invariant\<close>

text \<open>The frames the chat has produced, oldest first: on the wire, queued, waiting for room.\<close>

definition text_of :: "wire \<Rightarrow> string list" where
  "text_of w = (case w of TextMsg f \<Rightarrow> [f] | _ \<Rightarrow> [])"

definition produced :: "chat \<Rightarrow> string list" where
  "produced s = concat (map text_of (wire_out s)) @ buf (sendq (sess s)) @ (case rp s of Acking d \<Rightarrow> [d] | _ \<Rightarrow> [])"

definition ack_mid :: "string \<Rightarrow> string list" where
  "ack_mid f = (case Parse f of Inr e \<Rightarrow> if Typ e = TypeAck then [MsgID e] else [] | Inl _ \<Rightarrow> [])"

text \<open>A frame the chat may produce: a SEND to its own queue or the ACK of a message it has seen.\<close>

definition own_frame :: "session \<Rightarrow> string \<Rightarrow> bool" where
  "own_frame se f \<longleftrightarrow>
     (\<exists>e. Parse f = Inr e \<and>
        (Typ e = TypeSend \<and> QueueID e = to_valid_utf8 (my_queue se) \<or> Typ e = TypeAck \<and> MsgID e \<in> set (seen se)))"

definition client_inv :: "chat \<Rightarrow> bool" where
  "client_inv s \<longleftrightarrow>
     length (buf (sendq (sess s))) \<le> sendCap \<and> \<not> closed (sendq (sess s)) \<and>
     (\<forall>f \<in> set (produced s). own_frame (sess s) f) \<and>
     distinct (concat (map ack_mid (produced s)))"

lemma client_inv_start: "sendq se = new_client \<Longrightarrow> client_inv (start_chat se)"
  by (simp add: client_inv_def start_chat_def produced_def)

lemma own_frame_mono:
  "own_frame se f \<Longrightarrow> my_queue se' = my_queue se \<Longrightarrow> set (seen se) \<subseteq> set (seen se') \<Longrightarrow> own_frame se' f"
  by (auto simp: own_frame_def)

lemma type_names_utf8 [simp]:
  "to_valid_utf8 TypeAck = TypeAck" "to_valid_utf8 TypeSend = TypeSend" "to_valid_utf8 TypeDeliver = TypeDeliver"
  "to_valid_utf8 TypeNew = TypeNew" "to_valid_utf8 TypeSub = TypeSub" "to_valid_utf8 TypeSubOk = TypeSubOk"
  "to_valid_utf8 TypeNewOk = TypeNewOk"
  by (rule ascii_valid_utf8, simp add: proto_simps is_ascii_def)+

lemma type_names_ne [simp]:
  "TypeAck \<noteq> []" "TypeSend \<noteq> []" "TypeDeliver \<noteq> []" "TypeNew \<noteq> []" "TypeSub \<noteq> []" "TypeSubOk \<noteq> []" "TypeNewOk \<noteq> []"
  by (simp_all add: proto_simps)

lemma sendable_plain [simp]: "sendable NoPayload" "sendable (ChatMessage t)" "sendable (AckMessage m)"
  by (simp_all add: sendable_def)

lemma ack_for_parses:
  assumes "int64_range now" "valid_utf8 qid" "valid_utf8 mid"
  shows "\<exists>d. ack_for now qid mid = Some d \<and>
    Parse d = Inr \<lparr>Version = 1, Typ = TypeAck, QueueID = qid, MsgID = mid, TS = now, Payload = Some (payload_text (AckMessage mid))\<rparr>"
  using frame_of_sendable [of "AckMessage mid"] frame_of_Parse [of "AckMessage mid" now TypeAck qid mid] assms
  by (auto simp: ack_for_def valid_utf8_def)

lemma typed_frame_parses:
  assumes "int64_range now"
  shows "\<exists>d. typed_frame now r text se = Some d \<and>
    Parse d = Inr \<lparr>Version = 1, Typ = TypeSend, QueueID = to_valid_utf8 (my_queue se), MsgID = to_valid_utf8 (new_mid r),
      TS = now, Payload = Some (payload_text (ChatMessage text))\<rparr>"
  using frame_of_sendable [of "ChatMessage text"] frame_of_Parse [of "ChatMessage text" now TypeSend "my_queue se" "new_mid r"] assms
  by (auto simp: typed_frame_def)

text \<open>What \<open>receive\<close> says of a message it shows: the identifier is new, and is seen afterwards.\<close>

lemma receive_ShowChat:
  assumes "receive sn data = (ShowChat qid mid text, sn')"
  shows "mid \<notin> set sn \<and> sn' = mid # sn \<and> valid_utf8 qid \<and> valid_utf8 mid \<and>
    (\<exists>e. Parse data = Inr e \<and> Typ e = TypeDeliver \<and> QueueID e = qid \<and> MsgID e = mid \<and> decode_chat e = (text, False))"
proof -
  obtain e where e: "Parse data = Inr e" using assms by (cases "Parse data") (auto simp: receive_def)
  have "texts_ok e" by (rule Parse_texts [OF e])
  with assms e show ?thesis
    by (auto simp: receive_def texts_ok_def split: if_splits prod.splits)
qed

lemma receive_seen: "receive sn data = (a, sn') \<Longrightarrow> sn' = sn \<or> (\<exists>mid. mid \<notin> set sn \<and> sn' = mid # sn)"
  by (auto simp: receive_def split: sum.splits if_splits prod.splits)

subsection \<open>The invariant is kept\<close>

lemma client_inv_same:
  assumes "client_inv s" "sendq (sess s') = sendq (sess s)" "wire_out s' = wire_out s"
    and "rp s' = rp s \<or> (rp s = Receiving \<and> rp s' = Stopped)"
    and "my_queue (sess s') = my_queue (sess s)" "set (seen (sess s)) \<subseteq> set (seen (sess s'))"
  shows "client_inv s'"
proof -
  have "produced s' = produced s" using assms(2-4) by (auto simp: produced_def)
  with assms own_frame_mono [of "sess s" _ "sess s'"] show ?thesis by (auto simp: client_inv_def)
qed

lemma show_on_simps [simp]:
  "sess (show_on t s) = sess s" "rp (show_on t s) = rp s" "wp_on (show_on t s) = wp_on s"
  "conn_open (show_on t s) = conn_open s" "typing (show_on t s) = typing s" "wire_out (show_on t s) = wire_out s"
  "screen (show_on t s) = screen s @ [t]"
  by (simp_all add: show_on_def)

lemma client_inv_show [simp]: "client_inv (show_on t s) \<longleftrightarrow> client_inv s"
  by (simp add: client_inv_def produced_def)

lemma ack_mids_seen:
  "client_inv s \<Longrightarrow> set (concat (map ack_mid (produced s))) \<subseteq> set (seen (sess s))"
  by (fastforce simp: client_inv_def own_frame_def ack_mid_def proto_simps split: if_splits sum.splits)

lemma client_inv_receive:
  assumes "client_inv s" "rp s = Receiving" "int64_range now"
  shows "client_inv (receive_turn now data s)"
proof -
  obtain a sn where r: "receive (seen (sess s)) data = (a, sn)" by (cases "receive (seen (sess s)) data")
  let ?s1 = "s\<lparr>sess := (sess s)\<lparr>seen := sn\<rparr>\<rparr>"
  have sub: "set (seen (sess s)) \<subseteq> set sn" using receive_seen [OF r] by auto
  have i1: "client_inv ?s1" by (rule client_inv_same [OF assms(1)]) (use sub in simp_all)
  show ?thesis
  proof (cases a)
    case (ShowChat qid mid t)
    note c = receive_ShowChat [OF r [unfolded ShowChat]]
    obtain d where d: "ack_for now qid mid = Some d"
      "Parse d = Inr \<lparr>Version = 1, Typ = TypeAck, QueueID = qid, MsgID = mid, TS = now, Payload = Some (payload_text (AckMessage mid))\<rparr>"
      using ack_for_parses [OF assms(3), of qid mid] c by auto
    let ?s2 = "(show_on (clearLine @ ''['' @ nick (sess s) @ ''] '' @ t @ newline @ prompt) ?s1)\<lparr>rp := Acking d\<rparr>"
    have e: "receive_turn now data s = ?s2" by (simp add: receive_turn_def r ShowChat d(1))
    have p: "produced ?s2 = produced s @ [d]" using assms(2) by (simp add: produced_def)
    have "mid \<notin> set (concat (map ack_mid (produced s)))" using ack_mids_seen [OF assms(1)] c by blast
    moreover have "ack_mid d = [mid]" by (simp add: ack_mid_def d(2))
    moreover have "own_frame (sess ?s2) d" using c by (simp add: own_frame_def d(2))
    moreover have "\<forall>f \<in> set (produced s). own_frame (sess ?s2) f"
      using assms(1) sub own_frame_mono [of "sess s" _ "sess ?s2"] by (auto simp: client_inv_def)
    ultimately show ?thesis using assms(1) unfolding e client_inv_def p by auto
  qed (use i1 in \<open>simp_all add: receive_turn_def r\<close>)
qed

lemma client_inv_enqueue:
  assumes "client_inv s" "has_room s" "own_frame (sess s) d" "ack_mid d = []"
  shows "client_inv (enqueue d s)"
proof -
  have "own_frame (sess (enqueue d s)) f = own_frame (sess s) f" for f by (simp add: own_frame_def enqueue_def)
  moreover have "set (produced (enqueue d s)) = insert d (set (produced s))"
    "concat (map ack_mid (produced (enqueue d s))) = concat (map ack_mid (produced s))"
    using assms(4) by (auto simp: produced_def enqueue_def)
  moreover have "length (buf (sendq (sess (enqueue d s)))) \<le> sendCap" "closed (sendq (sess (enqueue d s))) = closed (sendq (sess s))"
    using assms(2) by (simp_all add: has_room_def enqueue_def)
  ultimately show ?thesis using assms(1,3) by (simp add: client_inv_def)
qed

lemma client_inv_ack:
  assumes "client_inv s" "rp s = Acking d" "has_room s"
  shows "client_inv ((enqueue d s)\<lparr>rp := Receiving\<rparr>)"
proof -
  let ?s = "(enqueue d s)\<lparr>rp := Receiving\<rparr>"
  have "produced ?s = produced s" using assms(2) by (simp add: produced_def enqueue_def)
  moreover have "own_frame (sess ?s) f = own_frame (sess s) f" for f by (simp add: own_frame_def enqueue_def)
  moreover have "length (buf (sendq (sess ?s))) \<le> sendCap" "closed (sendq (sess ?s)) = closed (sendq (sess s))"
    using assms(3) by (simp_all add: has_room_def enqueue_def)
  ultimately show ?thesis using assms(1) by (simp add: client_inv_def)
qed

lemma client_inv_line:
  assumes "client_inv s" "int64_range now"
  shows "client_inv (line_turn now r line s)"
proof -
  obtain d where d: "typed_frame now r (TrimSpace line) (sess s) = Some d"
    "Parse d = Inr \<lparr>Version = 1, Typ = TypeSend, QueueID = to_valid_utf8 (my_queue (sess s)), MsgID = to_valid_utf8 (new_mid r),
      TS = now, Payload = Some (payload_text (ChatMessage (TrimSpace line)))\<rparr>"
    using typed_frame_parses [OF assms(2)] by blast
  have "own_frame (sess s) d" "ack_mid d = []" by (simp_all add: own_frame_def ack_mid_def d(2)) (simp add: proto_simps)
  note en = client_inv_enqueue [OF assms(1) _ this]
  have quit: "client_inv (s\<lparr>conn_open := False, typing := False\<rparr>)" by (rule client_inv_same [OF assms(1)]) simp_all
  show ?thesis
  proof (cases "TrimSpace line = [] \<or> TrimSpace line = ''/quit''")
    case True
    then have "line_turn now r line s = (if TrimSpace line = [] then show_on (clearLine @ prompt) s
        else s\<lparr>conn_open := False, typing := False\<rparr>)" by (elim disjE) (simp_all add: line_turn_def)
    with quit assms(1) show ?thesis by simp
  next
    case False
    then have "line_turn now r line s = show_on (clearLine @ prompt) (if has_room s then enqueue d s else show_on (full_notice @ newline) s)"
      by (simp add: line_turn_def d(1))
    with en assms(1) show ?thesis by simp
  qed
qed

lemma distinct_concat_drop: "distinct (concat (map f (xs @ ys @ zs))) \<Longrightarrow> distinct (concat (map f (xs @ zs)))"
  by auto

lemma client_inv_write:
  assumes "client_inv s" "write_turn tick ok (sendq (sess s)) = Some (q, ws, go)"
  shows "client_inv (s\<lparr>sess := (sess s)\<lparr>sendq := q\<rparr>, wire_out := wire_out s @ ws, wp_on := go, conn_open := c\<rparr>)" (is "client_inv ?s")
proof -
  have own: "own_frame (sess ?s) f = own_frame (sess s) f" for f by (simp add: own_frame_def)
  consider "q = sendq (sess s)" "concat (map text_of ws) = []"
    | m ms where "buf (sendq (sess s)) = m # ms" "q = (sendq (sess s))\<lparr>buf := ms\<rparr>" "concat (map text_of ws) = (if ok then [m] else [])"
  proof (cases "tick \<or> buf (sendq (sess s)) = []")
    case True
    then have "q = sendq (sess s)" "ws = [] \<or> ws = [PingMsg] \<or> ws = [CloseMsg]"
      using assms(2) by (auto simp: write_turn_def split: if_splits)
    then show thesis using that(1) by (auto simp: text_of_def)
  next
    case False
    then obtain m ms where m: "buf (sendq (sess s)) = m # ms" "\<not> tick" by (cases "buf (sendq (sess s))") auto
    then show thesis using that(2) [OF m(1)] assms(2) by (cases ok) (auto simp: write_turn_def text_of_def)
  qed
  then show ?thesis
  proof cases
    case 1
    then have "produced ?s = produced s" by (simp add: produced_def)
    with assms(1) own 1 show ?thesis by (simp add: client_inv_def)
  next
    case 2
    let ?P = "case rp s of Acking d \<Rightarrow> [d] | _ \<Rightarrow> []" and ?W = "concat (map text_of (wire_out s))"
    have p: "produced s = ?W @ [m] @ ms @ ?P" "produced ?s = ?W @ (if ok then [m] else []) @ ms @ ?P"
      using 2 by (simp_all add: produced_def)
    have "distinct (concat (map ack_mid (?W @ [m] @ ms @ ?P)))" using assms(1) p(1) by (simp only: client_inv_def)
    from this distinct_concat_drop [OF this] have "distinct (concat (map ack_mid (produced ?s)))"
      unfolding p(2) by (cases ok) (simp_all only: if_True if_False append_Nil)
    moreover have "set (produced ?s) \<subseteq> set (produced s)" unfolding p by auto
    moreover have "length (buf (sendq (sess ?s))) \<le> sendCap" "\<not> closed (sendq (sess ?s))"
      using assms(1) 2 by (auto simp: client_inv_def)
    ultimately show ?thesis using assms(1) own unfolding client_inv_def by blast
  qed
qed

lemma client_inv_step:
  assumes "client_step s e s'" "client_inv s" "client_event_ok s e"
  shows "client_inv s'"
  using assms
proof (cases rule: client_stepE)
  case (frame_in data now)
  then show ?thesis using assms(2,3) client_inv_receive by (simp add: client_event_ok_def)
next
  case read_ends
  have "client_inv (s\<lparr>rp := Stopped, conn_open := False\<rparr>)"
    by (rule client_inv_same [OF assms(2)]) (use read_ends in simp_all)
  then show ?thesis using read_ends by simp
next
  case (ack_queued d)
  then show ?thesis using assms(2) client_inv_ack by simp
next
  case (write_frame tick ok q ws go)
  then show ?thesis using assms(2) client_inv_write by simp
next
  case (line_in line now r)
  then show ?thesis using assms(2,3) client_inv_line by (simp add: client_event_ok_def)
next
  case input_ends
  have "client_inv (s\<lparr>typing := False\<rparr>)" by (rule client_inv_same [OF assms(2)]) simp_all
  then show ?thesis using input_ends by simp
qed

interpretation chat: machine client_event_ok client_step client_inv
  by unfold_locales (rule client_inv_step)

subsection \<open>The reader over a sequence of frames\<close>

fun receive_all :: "string list \<Rightarrow> string list \<Rightarrow> action list" where
  "receive_all sn [] = []"
| "receive_all sn (f # fs) = (let (a, sn') = receive sn f in a # receive_all sn' fs)"

text \<open>The reference: a frame by itself, and the identifier it delivers.\<close>

definition action_of :: "string \<Rightarrow> action" where
  "action_of f =
     (case Parse f of
        Inl _ \<Rightarrow> Ignored
      | Inr env \<Rightarrow>
          if Typ env = TypeDeliver then
            (case decode_chat env of (text, err) \<Rightarrow> if err then Ignored else ShowChat (QueueID env) (MsgID env) text)
          else if Typ env = TypeError then
            (case decode_error env of ((code, msg), err) \<Rightarrow> if err then Ignored else ShowError code msg)
          else Ignored)"

definition delivers :: "string \<Rightarrow> string option" where
  "delivers f = (case Parse f of Inl _ \<Rightarrow> None | Inr env \<Rightarrow> if Typ env = TypeDeliver then Some (MsgID env) else None)"

definition repeats :: "string list \<Rightarrow> string list \<Rightarrow> nat \<Rightarrow> bool" where
  "repeats sn fs i \<longleftrightarrow>
     (case delivers (fs ! i) of None \<Rightarrow> False | Some m \<Rightarrow> m \<in> set sn \<or> Some m \<in> delivers ` set (take i fs))"

lemma receive_action:
  "receive sn f =
     (case delivers f of
        None \<Rightarrow> (action_of f, sn)
      | Some m \<Rightarrow> if m \<in> set sn then (Ignored, sn) else (action_of f, m # sn))"
  by (auto simp: receive_def delivers_def action_of_def proto_simps split: sum.split prod.split)

lemma receive_all_spec:
  "receive_all sn fs = map (\<lambda>i. if repeats sn fs i then Ignored else action_of (fs ! i)) [0..<length fs]"
proof (induction fs arbitrary: sn)
  case (Cons f fs)
  let ?sn = "snd (receive sn f)"
  have r: "repeats sn (f # fs) (Suc i) = repeats ?sn fs i" for i
    by (auto simp: repeats_def receive_action split: option.split)
  have "fst (receive sn f) = (if repeats sn (f # fs) 0 then Ignored else action_of f)"
    by (simp add: repeats_def receive_action split: option.split)
  moreover have "receive_all sn (f # fs) = fst (receive sn f) # receive_all ?sn fs" by (simp add: case_prod_beta)
  ultimately show ?case
    using Cons.IH [of ?sn] by (simp add: r map_upt_Suc del: upt_Suc receive_all.simps)
qed simp

subsection \<open>The writer gets everything out\<close>

definition flushing :: "chat \<Rightarrow> client_event \<Rightarrow> bool" where
  "flushing s e \<longleftrightarrow> e = WriteOut False True \<or> e = AckQueued"

lemma write_one:
  assumes "typing s" "wp_on s" "conn_open s" "buf (sendq (sess s)) = m # ms"
  shows "client_step s (WriteOut False True)
    (s\<lparr>sess := (sess s)\<lparr>sendq := (sendq (sess s))\<lparr>buf := ms\<rparr>\<rparr>, wire_out := wire_out s @ [TextMsg m], wp_on := True, conn_open := True\<rparr>)"
  using write_frame [of s False True "(sendq (sess s))\<lparr>buf := ms\<rparr>" "[TextMsg m]" True] assms
  by (simp add: write_turn_def)

lemma reaches_step:
  "legal s e \<Longrightarrow> step s e s' \<Longrightarrow> reaches legal step s' s'' \<Longrightarrow> reaches legal step s s''"
  using reaches_trans [of legal step s' s'' s] onward [OF here, of legal s e step s'] by blast

lemma queue_flushes:
  assumes "typing s" "wp_on s" "conn_open s"
  shows "\<exists>s'. reaches flushing client_step s s' \<and> buf (sendq (sess s')) = [] \<and> rp s' = rp s \<and>
    wire_out s' = wire_out s @ map TextMsg (buf (sendq (sess s))) \<and> typing s' \<and> wp_on s' \<and> conn_open s'"
  using assms
proof (induction "buf (sendq (sess s))" arbitrary: s)
  case Nil
  then show ?case using here [of flushing client_step s] by auto
next
  case (Cons m ms)
  let ?s1 = "s\<lparr>sess := (sess s)\<lparr>sendq := (sendq (sess s))\<lparr>buf := ms\<rparr>\<rparr>, wire_out := wire_out s @ [TextMsg m], wp_on := True, conn_open := True\<rparr>"
  have st: "client_step s (WriteOut False True) ?s1" using Cons.prems Cons.hyps(2) [symmetric] by (rule write_one)
  obtain s' where s': "reaches flushing client_step ?s1 s'" "buf (sendq (sess s')) = []" "rp s' = rp s"
    "wire_out s' = (wire_out s @ [TextMsg m]) @ map TextMsg ms" "typing s'" "wp_on s'" "conn_open s'"
    using Cons.hyps(1) [of ?s1] Cons.prems by auto
  have "reaches flushing client_step s s'" by (rule reaches_step [OF _ st s'(1)]) (simp add: flushing_def)
  then show ?case using s' Cons.hyps(2) [symmetric] by auto
qed

lemma all_flushes:
  assumes "typing s" "wp_on s" "conn_open s"
  shows "\<exists>s'. reaches flushing client_step s s' \<and> concat (map text_of (wire_out s')) = produced s \<and>
    buf (sendq (sess s')) = [] \<and> (\<forall>d. rp s' \<noteq> Acking d)"
proof -
  obtain s1 where s1: "reaches flushing client_step s s1" "buf (sendq (sess s1)) = []" "rp s1 = rp s"
    "wire_out s1 = wire_out s @ map TextMsg (buf (sendq (sess s)))" "typing s1" "wp_on s1" "conn_open s1"
    using queue_flushes [OF assms] by blast
  have t: "concat (map text_of (map TextMsg xs)) = xs" for xs by (induction xs) (simp_all add: text_of_def)
  show ?thesis
  proof (cases "rp s")
    case (Acking d)
    let ?s2 = "(enqueue d s1)\<lparr>rp := Receiving\<rparr>"
    have "client_step s1 AckQueued ?s2" using s1 Acking by (intro ack_queued) (simp_all add: has_room_def)
    then have "reaches flushing client_step s ?s2" using s1(1) by (rule onward [rotated 2]) (simp add: flushing_def)
    moreover obtain s3 where s3: "reaches flushing client_step ?s2 s3" "buf (sendq (sess s3)) = []" "rp s3 = Receiving"
      "wire_out s3 = wire_out ?s2 @ map TextMsg (buf (sendq (sess ?s2)))"
      using queue_flushes [of ?s2] s1 by (auto simp: enqueue_def)
    moreover have "concat (map text_of (wire_out s3)) = produced s"
      using s3(4) s1 Acking t by (simp add: enqueue_def produced_def text_of_def)
    ultimately show ?thesis using reaches_trans [OF s3(1)] by fastforce
  qed (use s1 t in \<open>auto simp: produced_def\<close>)
qed

subsection \<open>Nothing that was shown goes unacknowledged\<close>

text \<open>
  A run with its log: the identifiers of the messages it has shown, and the frames of the typed lines that found room, in order.
\<close>

definition shown_by :: "client_event \<Rightarrow> chat \<Rightarrow> string list" where
  "shown_by e s =
     (case e of FrameIn now data \<Rightarrow> (case fst (receive (seen (sess s)) data) of ShowChat q m t \<Rightarrow> [m] | _ \<Rightarrow> []) | _ \<Rightarrow> [])"

definition sends_by :: "client_event \<Rightarrow> chat \<Rightarrow> string list" where
  "sends_by e s =
     (case e of
        Line now r line \<Rightarrow>
          (let t = TrimSpace line in
           if t = [] \<or> t = ''/quit'' \<or> \<not> has_room s then [] else [the (typed_frame now r t (sess s))])
      | _ \<Rightarrow> [])"

definition logged_step :: "chat \<times> string list \<times> string list \<Rightarrow> client_event \<Rightarrow> chat \<times> string list \<times> string list \<Rightarrow> bool" where
  "logged_step x e y \<longleftrightarrow>
     (case x of (s, ms, fs) \<Rightarrow> case y of (s', ms', fs') \<Rightarrow> client_step s e s' \<and> ms' = ms @ shown_by e s \<and> fs' = fs @ sends_by e s)"

definition logged_ok :: "chat \<times> string list \<times> string list \<Rightarrow> client_event \<Rightarrow> bool" where
  "logged_ok x e \<longleftrightarrow> client_event_ok (fst x) e"

text \<open>A frame, if it is a SEND.\<close>

definition send_of :: "string \<Rightarrow> string list" where
  "send_of f = (case Parse f of Inr e \<Rightarrow> if Typ e = TypeSend then [f] else [] | Inl _ \<Rightarrow> [])"

text \<open>
  As long as no write has failed, the acknowledgements among what the chat has produced are those of the messages shown, and
  the SENDs are those of the lines typed, each in order.
\<close>

definition log_inv :: "chat \<times> string list \<times> string list \<Rightarrow> bool" where
  "log_inv x \<longleftrightarrow>
     (case x of (s, ms, fs) \<Rightarrow>
        (\<forall>d. rp s = Acking d \<longrightarrow> send_of d = []) \<and>
        (wp_on s \<longrightarrow> concat (map ack_mid (produced s)) = ms \<and> concat (map send_of (produced s)) = fs))"

lemma log_inv_start: "sendq se = new_client \<Longrightarrow> log_inv (start_chat se, [], [])"
  by (simp add: log_inv_def produced_def) (simp add: start_chat_def)

lemma log_inv_same:
  "log_inv (s, ms, fs) \<Longrightarrow> produced s' = produced s \<Longrightarrow> (wp_on s' \<Longrightarrow> wp_on s) \<Longrightarrow> (\<And>d. rp s' = Acking d \<Longrightarrow> rp s = Acking d) \<Longrightarrow>
     log_inv (s', ms, fs)"
  by (auto simp: log_inv_def)

lemma log_inv_receive:
  assumes "log_inv (s, ms, fs)" "rp s = Receiving" "int64_range now"
  shows "log_inv (receive_turn now data s, ms @ shown_by (FrameIn now data) s, fs)"
proof -
  obtain a sn where r: "receive (seen (sess s)) data = (a, sn)" by (cases "receive (seen (sess s)) data")
  show ?thesis
  proof (cases a)
    case (ShowChat q m t)
    note c = receive_ShowChat [OF r [unfolded ShowChat]]
    obtain d where d: "ack_for now q m = Some d"
      "Parse d = Inr \<lparr>Version = 1, Typ = TypeAck, QueueID = q, MsgID = m, TS = now, Payload = Some (payload_text (AckMessage m))\<rparr>"
      using ack_for_parses [OF assms(3), of q m] c by auto
    have "ack_mid d = [m]" "send_of d = []" by (simp_all add: ack_mid_def send_of_def d(2)) (simp add: proto_simps)
    moreover have "produced (receive_turn now data s) = produced s @ [d]" "rp (receive_turn now data s) = Acking d"
      "wp_on (receive_turn now data s) = wp_on s"
      using assms(2) by (simp_all add: receive_turn_def r ShowChat d(1) produced_def show_on_def)
    ultimately show ?thesis using assms(1) by (simp add: log_inv_def shown_by_def r ShowChat)
  qed (use assms(1) in \<open>simp_all add: shown_by_def r receive_turn_def log_inv_def produced_def\<close>)
qed

lemma log_inv_line:
  assumes "log_inv (s, ms, fs)" "int64_range now"
  shows "log_inv (line_turn now r line s, ms, fs @ sends_by (Line now r line) s)"
proof -
  let ?t = "TrimSpace line"
  obtain d where d: "typed_frame now r ?t (sess s) = Some d"
    "Parse d = Inr \<lparr>Version = 1, Typ = TypeSend, QueueID = to_valid_utf8 (my_queue (sess s)), MsgID = to_valid_utf8 (new_mid r),
      TS = now, Payload = Some (payload_text (ChatMessage ?t))\<rparr>"
    using typed_frame_parses [OF assms(2)] by blast
  show ?thesis
  proof (cases "?t = [] \<or> ?t = ''/quit'' \<or> \<not> has_room s")
    case True
    then have "sends_by (Line now r line) s = []" by (simp add: sends_by_def)
    moreover have "log_inv (line_turn now r line s, ms, fs)"
      by (rule log_inv_same [OF assms(1)]) (use True in \<open>auto simp: line_turn_def d(1) produced_def Let_def show_on_def split: if_splits\<close>)
    ultimately show ?thesis by simp
  next
    case False
    have "ack_mid d = []" "send_of d = [d]" by (simp_all add: ack_mid_def send_of_def d(2)) (simp add: proto_simps)
    moreover have "line_turn now r line s = show_on (clearLine @ prompt) (enqueue d s)" "sends_by (Line now r line) s = [d]"
      using False by (simp_all add: line_turn_def sends_by_def d(1))
    ultimately show ?thesis
      using assms(1) by (auto simp: log_inv_def produced_def enqueue_def split: receiver.split)
  qed
qed

lemma write_produced:
  assumes "write_turn tick ok (sendq (sess s)) = Some (q, ws, True)"
  shows "produced (s\<lparr>sess := (sess s)\<lparr>sendq := q\<rparr>, wire_out := wire_out s @ ws, wp_on := w, conn_open := c\<rparr>) = produced s"
  using assms by (auto simp: write_turn_def produced_def text_of_def split: if_splits list.splits)

lemma log_inv_step:
  assumes "logged_step x e y" "log_inv x" "logged_ok x e"
  shows "log_inv y"
proof -
  obtain s ms fs s' where x: "x = (s, ms, fs)" and y: "y = (s', ms @ shown_by e s, fs @ sends_by e s)" and st: "client_step s e s'"
    using assms(1) by (cases x, cases y) (auto simp: logged_step_def)
  note i = assms(2) [unfolded x]
  have ok: "client_event_ok s e" using assms(3) by (simp add: logged_ok_def x)
  show ?thesis
    using st
  proof (cases rule: client_stepE)
    case (frame_in data now)
    then show ?thesis using log_inv_receive [OF i, of now data] ok by (simp add: y sends_by_def client_event_ok_def)
  next
    case (line_in line now r)
    then show ?thesis using log_inv_line [OF i, of now r line] ok by (simp add: y shown_by_def client_event_ok_def)
  next
    case (write_frame tick ok q ws go)
    have "log_inv (s', ms, fs)"
    proof (cases go)
      case True
      then show ?thesis using write_frame write_produced [of tick ok s q ws "conn_open s" True] by (intro log_inv_same [OF i]) simp_all
    qed (use i write_frame in \<open>simp add: log_inv_def\<close>)
    then show ?thesis using write_frame by (simp add: y shown_by_def sends_by_def)
  next
    case (ack_queued d)
    have "log_inv (s', ms, fs)" by (rule log_inv_same [OF i]) (use ack_queued in \<open>simp_all add: produced_def enqueue_def\<close>)
    then show ?thesis using ack_queued by (simp add: y shown_by_def sends_by_def)
  next
    case read_ends
    have "log_inv (s', ms, fs)" by (rule log_inv_same [OF i]) (use read_ends in \<open>simp_all add: produced_def\<close>)
    then show ?thesis using read_ends by (simp add: y shown_by_def sends_by_def)
  next
    case input_ends
    have "log_inv (s', ms, fs)" by (rule log_inv_same [OF i]) (use input_ends in \<open>simp_all add: produced_def\<close>)
    then show ?thesis using input_ends by (simp add: y shown_by_def sends_by_def)
  qed
qed

interpretation logged: machine logged_ok logged_step log_inv
  by unfold_locales (rule log_inv_step)

end
