(* ===== verification/End_To_End.thy ===== *)
theory End_To_End
  imports Relay Client_Pumps
begin

text \<open>
  The two programs together: what the relay makes of the frames of a client and a client of the frames of the
  relay, and how long these frames are.
\<close>

subsection \<open>A typed line at the relay\<close>

definition typed_envelope :: "int \<Rightarrow> bytes \<Rightarrow> string \<Rightarrow> string \<Rightarrow> envelope" where
  "typed_envelope now b q t =
     \<lparr>Version = 1, Typ = TypeSend, QueueID = q, MsgID = hex_encode b, TS = now, Payload = Some (payload_text (ChatMessage t))\<rparr>"

lemma hex_encode_utf8 [simp]: "to_valid_utf8 (hex_encode b) = hex_encode b"
  using hex_encode_lower lower_hex_all hex_ascii ascii_valid_utf8 by blast

lemma new_mid_Some [simp]: "new_mid (Some b) = hex_encode b"
  by (simp add: new_mid_def NewID_def)

lemma typed_frame_envelope:
  assumes "int64_range now" "ValidQueueID (my_queue se)"
  shows "\<exists>f. typed_frame now (Some b) t se = Some f \<and> Parse f = Inr (typed_envelope now b (my_queue se) t)"
  using typed_frame_parses [OF assms(1), of "Some b" t se] ValidQueueID_utf8 [OF assms(2)]
  by (simp add: typed_envelope_def)

lemma typed_envelope_ok [simp]: "env_ok (typed_envelope now b q t)"
  using payload_text_ok(2) [of "ChatMessage t"] by (simp add: env_ok_def typed_envelope_def)

lemma hex_not_Nil: "length b = 16 \<Longrightarrow> hex_encode b \<noteq> []"
  by (metis length_hex_encode list.size(3) mult_eq_0_iff zero_neq_numeral)

text \<open>The relay's reader hands a typed line to the hub.\<close>

lemma relay_reads_typed:
  "Parse f = Inr (typed_envelope now b q t) \<Longrightarrow> read_frame jerr t' f x = Ret (x, Some (typed_envelope now b q t))"
  by (simp add: read_frame_def typed_envelope_def) (simp add: proto_simps)

subsection \<open>A delivery at the client\<close>

lemma decode_chat_of:
  assumes "Payload e = Some (payload_text (ChatMessage t))"
  shows "decode_chat e = (to_valid_utf8 t, False)"
proof -
  let ?raw = "enc_object [(''text'', enc_string t)]"
  have "\<forall>(k, t) \<in> set [(''text'', enc_string t)]. json_text 0 t" by simp
  from json_parse_text [OF enc_object_at(1) [OF _ this, of max_nesting]]
    enc_object_at(2) [OF _ this, of max_nesting]
  have "json_parse ?raw = Some (JObj [(esc_string ''text'', JStr (esc_string t), enc_string t)])" by simp
  then show ?thesis
    using assms by (simp add: decode_chat_def payload_bytes_def payload_text_def unmarshal_def field_of_exact is_ascii_def)
qed

lemma chat_compact [simp]: "compact_out (payload_text (ChatMessage t)) = payload_text (ChatMessage t)"
  by (rule payload_text_ok(3)) simp

lemma client_shows:
  assumes "Parse g = Inr \<lparr>Version = 1, Typ = TypeDeliver, QueueID = q, MsgID = mid, TS = ts, Payload = Some (payload_text (ChatMessage t))\<rparr>"
    and "mid \<notin> set (seen (sess s))" "int64_range now"
  shows "screen (receive_turn now g s) = screen s @ [clearLine @ ''['' @ nick (sess s) @ ''] '' @ to_valid_utf8 t @ newline @ prompt]"
    and "seen (sess (receive_turn now g s)) = mid # seen (sess s)"
    and "\<exists>k. rp (receive_turn now g s) = Acking k \<and>
      Parse k = Inr \<lparr>Version = 1, Typ = TypeAck, QueueID = q, MsgID = mid, TS = now, Payload = Some (payload_text (AckMessage mid))\<rparr>"
proof -
  have r: "receive (seen (sess s)) g = (ShowChat q mid (to_valid_utf8 t), mid # seen (sess s))"
    using assms(1,2) by (simp add: receive_def decode_chat_of)
  have v: "valid_utf8 q" "valid_utf8 mid" using Parse_texts [OF assms(1)] by (simp_all add: texts_ok_def)
  from ack_for_parses [OF assms(3) v] obtain k where k: "ack_for now q mid = Some k"
    "Parse k = Inr \<lparr>Version = 1, Typ = TypeAck, QueueID = q, MsgID = mid, TS = now, Payload = Some (payload_text (AckMessage mid))\<rparr>"
    by blast
  show "screen (receive_turn now g s) = screen s @ [clearLine @ ''['' @ nick (sess s) @ ''] '' @ to_valid_utf8 t @ newline @ prompt]"
    "seen (sess (receive_turn now g s)) = mid # seen (sess s)"
    "\<exists>k. rp (receive_turn now g s) = Acking k \<and>
      Parse k = Inr \<lparr>Version = 1, Typ = TypeAck, QueueID = q, MsgID = mid, TS = now, Payload = Some (payload_text (AckMessage mid))\<rparr>"
    using k by (simp_all add: receive_turn_def r show_on_def)
qed

subsection \<open>The acknowledgement at the relay\<close>

lemma ack_removes:
  assumes "Typ env = TypeAck" "8 \<le> length (QueueID env)" "8 \<le> length (MsgID env)" "\<not> f_delete io"
  shows "\<exists>h'. handle io c env h = Ret h' \<and> MsgID env \<notin> row_mid ` set (messages_tab (db h')) \<and>
    messages_tab (db h') = filter (\<lambda>r. row_mid r \<noteq> MsgID env) (messages_tab (db h))"
  using assms by (simp add: handle_def handle_ack_def DeleteMessage_def slice8_def proto_simps) auto

text \<open>The relay sends a typed line on to the subscriber of its queue.\<close>

lemma typed_line_delivered:
  assumes g: "good C h" and ok: "io_ok io" and c: "c \<in> C" and b: "length b = 16"
    and q: "map_of (queues h) q = Some qs" "sub qs = Some d"
    and st: "send_stores io (typed_envelope now b q t) h"
  shows "\<exists>h' g. handle io c (typed_envelope now b q t) h = Ret h' \<and>
    deliver_frame io (typed_envelope now b q t) = Some g \<and>
    Parse g = Inr \<lparr>Version = 1, Typ = TypeDeliver, QueueID = q, MsgID = hex_encode b, TS = clock io 2,
       Payload = Some (payload_text (ChatMessage t))\<rparr> \<and>
    (d \<noteq> c \<longrightarrow> buf (conns h' d) = take sendCap (buf (conns h d) @ [g])) \<and>
    sent_message io (typed_envelope now b q t) \<in> set (pending (db h') q)"
proof -
  let ?e = "typed_envelope now b q t"
  have e: "QueueID ?e = q" "MsgID ?e = hex_encode b" "Payload ?e = Some (payload_text (ChatMessage t))" "Typ ?e = TypeSend"
    by (simp_all add: typed_envelope_def)
  have v: "ValidQueueID q" using map_of_valid [OF _ q(1)] g by (simp add: good_def hub_inv_def)
  then have fq: "find_queue io (QueueID ?e) h = Inr (qs, h)" using q(1) by (simp add: find_queue_def e)
  obtain s where sv: "SaveMessage (f_save io) (fk_on io) (sent_message io ?e) (db h) = Some s"
    using st fq by (auto simp: send_stores_def)
  have m: "send_mid io ?e = hex_encode b" using hex_not_Nil [OF b] by (simp add: send_mid_def e)
  then have l: "8 \<le> length (send_mid io ?e)" using b by simp
  have d: "d \<in> C" using good_entry [OF g q(1), of d] q(2) by (simp add: uses_def)
  let ?h2 = "touch io (clock io 1) q (h\<lparr>db := s\<rparr>)"
  have h: "handle io c ?e h = Ret (post c (ack_frame io ?e) (post d (deliver_frame io ?e) ?h2))"
    using handle_send_ok [OF g ok typed_envelope_ok c fq sv l] q(2) e by (simp add: handle_def proto_simps)
  have "json_text (max_nesting - 1) (payload_text (ChatMessage t))" by (rule payload_text_ok) simp
  from deliver_frame_parses [OF ok e(3) this] v obtain f where
    f: "deliver_frame io ?e = Some f" "Parse f = Inr \<lparr>Version = 1, Typ = TypeDeliver, QueueID = q, MsgID = hex_encode b,
       TS = clock io 2, Payload = Some (payload_text (ChatMessage t))\<rparr>"
    by (auto simp: e m)
  have "set (pending s q) = insert (sent_message io ?e) (set (pending (db h) q))"
    using pending_save(1) [OF sv] by (simp add: sent_message_def e)
  then show ?thesis
    using h f good_open [OF g d] by (auto simp: opt_list_def)
qed

subsection \<open>Lengths\<close>

lemma length_enc_fields:
  "fs \<noteq> [] \<Longrightarrow> Suc (length (enc_fields fs)) = sum_list (map (\<lambda>(k, t). length (enc_string k) + length t + 2) fs)"
  by (induction fs rule: enc_fields.induct) simp_all

lemma length_enc_object:
  "fs \<noteq> [] \<Longrightarrow> length (enc_object fs) = Suc (sum_list (map (\<lambda>(k, t). length (enc_string k) + length t + 2) fs))"
  using length_enc_fields [of fs] by (simp add: enc_object_def)

lemma length_enc_safe: "list_all html_safe s \<Longrightarrow> length (enc_string s) = length s + 2"
  by (simp add: enc_string_def esc_string_safe)

lemma length_enc_names [simp]:
  "length (enc_string ''v'') = 3" "length (enc_string ''type'') = 6" "length (enc_string ''qid'') = 5"
  "length (enc_string ''mid'') = 5" "length (enc_string ''ts'') = 4" "length (enc_string ''payload'') = 9"
  "length (enc_string ''text'') = 6" "length (enc_string TypeSend) = 6" "length (enc_string TypeDeliver) = 9"
  by (subst length_enc_safe, simp_all add: html_safe_def proto_simps)+

lemma length_show_one: "length (show_int 1) = 1"
  by (simp add: show_int_def show_nat.simps)

text \<open>Every frame with both identifiers: a fixed part and the five variable ones.\<close>

lemma length_frame:
  assumes "sendable pl" "q \<noteq> []" "m \<noteq> []" "frame_of now t q m pl = Some f"
  shows "length f = 46 + length (enc_string t) + length (enc_string q) + length (enc_string m) + length (show_int now)
     + length (payload_text pl)"
  using assms frame_of_sendable [OF assms(1), of now t q m]
  by (auto simp: length_enc_object envelope_fields_def length_show_one)

lemma length_esc_ascii: "length (esc_ascii c) \<le> 6"
  by (simp add: esc_ascii_def u00_def hex_byte_def)

lemma length_esc_string: "length (esc_string s) \<le> 6 * length s"
proof (induction s rule: esc_string.induct)
  case (1 s)
  show ?case
  proof (cases s)
    case Nil
    then show ?thesis by (simp add: esc_string.simps)
  next
    case s: (Cons c r)
    show ?thesis
    proof (cases "is_ascii c")
      case True
      with 1(1) [OF s True] s length_esc_ascii [of c] show ?thesis by (subst esc_string.simps) simp
    next
      case na: False
      show ?thesis
      proof (cases "utf8_len s")
        case None
        with 1(2) [OF s na None] s na show ?thesis by (subst esc_string.simps) (simp del: utf8_len.simps)
      next
        case (Some n)
        have "length (case line_sep s of Some x \<Rightarrow> u202 x | None \<Rightarrow> take n s) \<le> 6 * n"
          using utf8_len_bounds [OF Some] by (simp add: u202_def split: option.split)
        moreover have "length (esc_string (drop n s)) + 6 * n \<le> 6 * length s"
          using 1(3) [OF s na Some] utf8_len_bounds [OF Some] unfolding length_drop by linarith
        moreover have "esc_string s = (case line_sep s of Some x \<Rightarrow> u202 x | None \<Rightarrow> take n s) @ esc_string (drop n s)"
          using s na Some by (subst esc_string.simps) (simp del: utf8_len.simps)
        ultimately show ?thesis by simp
      qed
    qed
  qed
qed

lemma length_show_nat: "n < 10 ^ k \<Longrightarrow> 0 < k \<Longrightarrow> length (show_nat n) \<le> k"
proof (induction n arbitrary: k rule: show_nat.induct)
  case (1 n)
  show ?case
  proof (cases "n < 10")
    case True
    with 1(3) show ?thesis by (simp add: show_nat.simps)
  next
    case False
    then obtain j where k: "k = Suc j" "0 < j" using 1(2,3) by (cases k; cases "k - 1") auto
    then have "length (show_nat (n div 10)) \<le> j" using 1(1) [OF False, of j] 1(2) by simp
    with False k show ?thesis by (simp add: show_nat.simps [of n])
  qed
qed

lemma length_show_int: "int64_range i \<Longrightarrow> length (show_int i) \<le> 20"
proof -
  assume "int64_range i"
  then have "nat (- i) < 10 ^ 19" "nat i < 10 ^ 19" by (auto simp: int64_range_def nat_less_iff)
  then have "length (show_nat (nat (- i))) \<le> 19" "length (show_nat (nat i)) \<le> 19"
    by (intro length_show_nat; simp)+
  then show ?thesis by (simp add: show_int_def)
qed

lemma hex_safe: "list_all (\<lambda>c. hex_val c \<noteq> None) s \<Longrightarrow> list_all html_safe s"
  by (induction s) (auto simp: hex_val_def html_safe_def split: if_splits)

text \<open>A typed line as a SEND, and the DELIVER the relay makes of it: three bytes longer.\<close>

lemma length_typed_frame:
  assumes "ValidQueueID (my_queue se)" "length b = 16" "typed_frame now (Some b) t se = Some f"
  shows "length f = 131 + length (show_int now) + length (esc_string t)"
proof -
  have q: "length (enc_string (my_queue se)) = 34" "my_queue se \<noteq> []"
    using assms(1) length_enc_safe [OF hex_safe, of "my_queue se"] by (auto simp: ValidQueueID_iff)
  have m: "length (enc_string (hex_encode b)) = 34"
    using length_enc_safe [OF hex_safe [OF lower_hex_all [OF hex_encode_lower]], of b] assms(2) by simp
  have p: "length (payload_text (ChatMessage t)) = 11 + length (esc_string t)"
    by (simp add: payload_text_def length_enc_object) (simp add: enc_string_def)
  show ?thesis
    using length_frame [OF sendable_plain(2) q(2) hex_not_Nil [OF assms(2)], of now TypeSend t f] assms(3) q(1) m p
    by (simp add: typed_frame_def)
qed

lemma length_delivered_frame:
  assumes "ValidQueueID q" "length b = 16" "deliver_frame io (typed_envelope now b q t) = Some g"
  shows "length g = 134 + length (show_int (clock io 2)) + length (esc_string t)"
proof -
  have q: "length (enc_string q) = 34" "q \<noteq> []"
    using assms(1) length_enc_safe [OF hex_safe, of q] by (auto simp: ValidQueueID_iff)
  have m: "length (enc_string (hex_encode b)) = 34"
    using length_enc_safe [OF hex_safe [OF lower_hex_all [OF hex_encode_lower]], of b] assms(2) by simp
  let ?p = "payload_text (ChatMessage t)"
  have j: "json_text (max_nesting - 1) ?p" by (rule payload_text_ok) simp
  have p: "length ?p = 11 + length (esc_string t)" by (simp add: payload_text_def length_enc_object) (simp add: enc_string_def)
  have s: "sendable (RawMessage (Some ?p))" using j by (simp add: sendable_def)
  have r: "payload_text (RawMessage (Some ?p)) = ?p"
    using json_compact_text [OF json_text_mono [OF j, of max_nesting]] by (simp add: payload_text_def [of "RawMessage _"])
  have "send_mid io (typed_envelope now b q t) = hex_encode b"
    using hex_not_Nil [OF assms(2)] by (simp add: send_mid_def typed_envelope_def)
  then have "frame_of (clock io 2) TypeDeliver q (hex_encode b) (RawMessage (Some ?p)) = Some g"
    using assms(3) by (simp add: deliver_frame_def typed_envelope_def)
  from length_frame [OF s q(2) hex_not_Nil [OF assms(2)] this] show ?thesis using q(1) m p r by simp
qed

end
