(* ===== verification/Client_Session_Facts.thy ===== *)
theory Client_Session_Facts
  imports Client_Session
begin

text \<open>
  What the start of the client guarantees: the small parsers, the request loop against its one-line
  specification, the choice of the other party, and what is on disk when a chat begins.
\<close>

subsection \<open>Addresses, queue names, numbers\<close>

lemma parseAddr_port: "0 \<le> snd (parseAddr a) \<and> snd (parseAddr a) \<le> 65535"
  by (auto simp: parseAddr_def Let_def split: option.split prod.split)

lemma dec_digits_plain: "list_all is_dec_digit s \<Longrightarrow> set s \<inter> set '':[]'' = {}"
  by (auto simp: list_all_iff is_dec_digit_def)

lemma parseAddr_plain:
  assumes "set h \<inter> set '':[]'' = {}" "1 \<le> p" "p \<le> 65535"
  shows "parseAddr (h @ '':'' @ show_int p) = (h, p)"
proof -
  have "list_all is_dec_digit (show_int p)" using assms(2) port_digits [of p] by simp
  from SplitHostPort_plain [OF assms(1) dec_digits_plain [OF this]] assms(2,3)
  show ?thesis by (simp add: parseAddr_def int64_range_def)
qed

lemma validQID_valid: "validQID q \<Longrightarrow> ValidQueueID q"
  using lower_hex_all [of q] by (simp add: validQID_def ValidQueueID_iff)

lemma validQID_utf8: "validQID q \<Longrightarrow> valid_utf8 q"
  using ValidQueueID_utf8 [OF validQID_valid] by (simp add: valid_utf8_def)

lemma isIndex_bounds: "isIndex input n \<Longrightarrow> 0 \<le> toIndex input \<and> toIndex input < int n"
  by (auto simp: isIndex_def toIndex_def split: if_splits prod.splits)

lemma isIndex_show:
  assumes "1 \<le> i" "i \<le> int n" "int64_range i"
  shows "isIndex (show_int i) n \<and> toIndex (show_int i) = i - 1"
  using assms port_digits [of i] by (simp add: isIndex_def toIndex_def)

subsection \<open>The request loop\<close>

definition skipped :: "string \<Rightarrow> string \<Rightarrow> bool" where
  "skipped want f \<longleftrightarrow> (\<forall>resp. Parse f = Inr resp \<longrightarrow> Typ resp \<noteq> TypeError \<and> Typ resp \<noteq> want)"

definition answer :: "envelope \<Rightarrow> request_error + envelope" where
  "answer resp =
     (if Typ resp = TypeError then Inl (Rejected (fst (fst (decode_error resp))) (snd (fst (decode_error resp)))) else Inr resp)"

text \<open>The loop is: the first frame that is not skipped decides, all after it stay unread.\<close>

lemma await_spec:
  "await want fs =
     (case dropWhile (skipped want) fs of [] \<Rightarrow> (Inl NoAnswer, []) | f # rest \<Rightarrow> (answer (projr (Parse f)), rest))"
proof (induction fs)
  case (Cons f fs)
  show ?case
  proof (cases "Parse f")
    case (Inl e)
    then show ?thesis using Cons by (simp add: skipped_def)
  next
    case (Inr resp)
    then show ?thesis using Cons by (auto simp: skipped_def answer_def split: prod.split)
  qed
qed simp

lemma await_Inr: "await want fs = (Inr resp, rest) \<Longrightarrow> want \<noteq> TypeError \<Longrightarrow> Typ resp = want \<and> (\<exists>f \<in> set fs. Parse f = Inr resp)"
  by (induction fs) (auto split: sum.splits if_splits prod.splits)

lemma request_Inr:
  assumes "request breaks env want w = (Inr resp, w')" "want \<noteq> TypeError"
  shows "Typ resp = want" "\<exists>data. marshal_envelope env = Some data \<and> sent w' = sent w @ [data]"
    "files w' = files w" "typed w' = typed w" "links w' = links w"
  using assms await_Inr [of want "arriving w" resp]
  by (auto simp: request_def split: option.splits if_splits prod.splits)

lemma request_files [simp]: "files (snd (request breaks env want w)) = files w"
  by (simp add: request_def split: option.split prod.split)

subsection \<open>Choosing the other\<close>

lemma pick_peer_chosen:
  assumes "pick_peer ipl cs ls = Ret (Inr (p, link), rest)"
  shows "ParseInvite ipl link = Inr p \<and> (link \<in> CInviteURL ` set cs \<or> (\<exists>l \<in> set ls. link = TrimSpace l))"
  using assms
proof (induction ls)
  case (Cons l ls)
  let ?link = "chosen_link cs (TrimSpace l)"
  have l: "?link \<in> CInviteURL ` set cs \<or> ?link = TrimSpace l"
    using isIndex_bounds [of "TrimSpace l" "length cs"] by (auto simp: chosen_link_def intro!: imageI nth_mem)
  show ?case
  proof (cases "ParseInvite ipl ?link")
    case (Inl e)
    with Cons show ?thesis by (auto simp: scan_def split: if_splits)
  next
    case (Inr p')
    with Cons.prems l show ?thesis by (auto simp: scan_def split: if_splits)
  qed
qed (simp split: if_splits)

lemma pick_peer_panics: "is_panic (pick_peer ipl cs ls) \<longleftrightarrow> listing_panics cs"
  by (induction ls) (auto simp: scan_def Let_def split: sum.split)

subsection \<open>What is on disk when a chat begins\<close>

lemma keep_queue_saved:
  assumes "keep_queue c i host q st w = (Inr q', w')" "state_ok st" "valid_utf8 host" "valid_utf8 q"
    and "\<And>path. statePath (config_dir c) i = Some path \<Longrightarrow> state_tmp c 0 \<noteq> path"
  shows "q' = q \<and> map_of (Outbox (loadState (config_dir c) False i (files w'))) host = Some q"
proof -
  have ok: "saved_ok (state_fault c 0) (config_dir c) i" "q' = q"
    and f: "files w' = last (saveState (state_fault c 0) (state_tmp c 0) (config_dir c) i
        (st\<lparr>Outbox := AList.update host q (Outbox st)\<rparr>) (files w))"
    using assms(1) by (auto simp: keep_queue_def Let_def split: if_splits)
  show ?thesis
    using load_after_save(1) [OF ok(1) state_ok_outbox [OF assms(2-4)] assms(5)] ok(2) f by (simp add: update_conv')
qed

lemma pick_outbox_saved:
  assumes "pick_outbox c i host mq w = (Inr q, w')" "validQID q" "valid_utf8 host"
    and "\<And>path. statePath (config_dir c) i = Some path \<Longrightarrow> state_tmp c 0 \<noteq> path"
  shows "map_of (Outbox (loadState (config_dir c) False i (files w'))) host = Some q"
proof -
  let ?st = "loadState (config_dir c) (state_unreadable c 0) i (files w)"
  have q: "valid_utf8 q" by (rule validQID_utf8 [OF assms(2)])
  note saved = keep_queue_saved [OF _ state_ok_load [of "config_dir c" "state_unreadable c 0" i "files w"] assms(3) _ assms(4)]
  consider (found) "map_of (Outbox ?st) host = Some q" "w' = w"
    | (kept) w1 where "keep_queue c i host q ?st w1 = (Inr q, w')"
    using assms(1)
    by (auto simp: pick_outbox_def Let_def keep_queue_def ask_queue_def split: if_splits option.splits prod.splits sum.splits)
  then show ?thesis
  proof cases
    case found
    have "\<not> state_unreadable c 0"
    proof
      assume "state_unreadable c 0"
      then have "?st = empty_state" by (auto simp: loadState_def split: option.split)
      with found show False by (simp add: empty_state_def)
    qed
    with found show ?thesis by simp
  next
    case kept
    from saved [OF kept q] show ?thesis by blast
  qed
qed

lemma pick_outbox_again:
  assumes "map_of (Outbox (loadState (config_dir c) (state_unreadable c 0) i (files w))) host = Some q" "validQID q"
  shows "pick_outbox c i host [] w = (Inr q, w)"
  using assms by (simp add: pick_outbox_def)

lemma subscribe_Inr:
  assumes "subscribe c s p raw w = Ret (Inr s', w')"
  shows "s' = s\<lparr>peer_queue := IQueueID p\<rparr>"
    and "\<exists>data. marshal_envelope (bare_envelope (wall c 1) TypeSub (IQueueID p)) = Some data \<and> sent w' = sent w @ [data]"
    and "\<exists>st. upsert (wall c 2) p raw (loadState (config_dir c) (state_unreadable c 2) (me s) (files w)) = Ret st \<and>
       saved_ok (state_fault c 2) (config_dir c) (me s) \<and>
       files w' = last (saveState (state_fault c 2) (state_tmp c 2) (config_dir c) (me s) st (files w))"
proof -
  obtain resp w1 where r: "request (write_breaks c 1) (bare_envelope (wall c 1) TypeSub (IQueueID p)) TypeSubOk w = (Inr resp, w1)"
    using assms by (auto simp: subscribe_def split: prod.splits sum.splits)
  have "TypeSubOk \<noteq> TypeError" by (simp add: proto_simps)
  note w1 = request_Inr [OF r this]
  obtain st where "upsert (wall c 2) p raw (loadState (config_dir c) (state_unreadable c 2) (me s) (files w)) = Ret st"
    using assms r w1 by (auto simp: subscribe_def upsertContact_def go_simps)
  then show "s' = s\<lparr>peer_queue := IQueueID p\<rparr>"
    "\<exists>data. marshal_envelope (bare_envelope (wall c 1) TypeSub (IQueueID p)) = Some data \<and> sent w' = sent w @ [data]"
    "\<exists>st. upsert (wall c 2) p raw (loadState (config_dir c) (state_unreadable c 2) (me s) (files w)) = Ret st \<and>
       saved_ok (state_fault c 2) (config_dir c) (me s) \<and>
       files w' = last (saveState (state_fault c 2) (state_tmp c 2) (config_dir c) (me s) st (files w))"
    using assms r w1 by (auto simp: subscribe_def upsertContact_def Let_def split: if_splits)
qed

lemma loaded_links_valid:
  assumes "sortedContacts (loadState dir fails i fs) = Ret cs"
  shows "\<forall>c \<in> set cs. valid_utf8 (CInviteURL c)"
proof
  fix c assume "c \<in> set cs"
  then obtain k where "(k, Some c) \<in> set (Contacts (loadState dir fails i fs))"
    using sortedContacts_Ret(2) [OF assms] by force
  then have "contact_ok c" using state_ok_load [of dir fails i fs] by (auto simp: state_ok_def)
  then show "valid_utf8 (CInviteURL c)" by (simp add: contact_ok_def)
qed

lemma loadMyIdentity_typed [simp]: "typed (snd (loadMyIdentity c w)) = typed w" "sent (snd (loadMyIdentity c w)) = sent w"
  by (simp_all add: loadMyIdentity_def split: option.split prod.split sum.split)

lemma request_typed [simp]: "typed (snd (request breaks env want w)) = typed w"
  by (simp add: request_def split: option.split prod.split)

lemma pick_outbox_typed [simp]: "typed (snd (pick_outbox c i host mq w)) = typed w"
proof -
  have k: "typed (snd (keep_queue c i host q st w)) = typed w" for q st w by (simp add: keep_queue_def Let_def)
  have "typed (snd (ask_queue c i host st w)) = typed w" for st
  proof -
    obtain r w1 where r: "request (write_breaks c 0) (bare_envelope (wall c 0) TypeNew []) TypeNewOk w = (r, w1)"
      by (cases "request (write_breaks c 0) (bare_envelope (wall c 0) TypeNew []) TypeNewOk w")
    then have "typed w1 = typed w" by (metis request_typed snd_conv)
    with k r show ?thesis by (simp add: ask_queue_def Let_def split: prod.split sum.split)
  qed
  with k show ?thesis by (auto simp: pick_outbox_def Let_def split: option.split)
qed

lemma meet_Inr:
  assumes "meet c s peer w = Ret (Inr s', w')"
    and "\<forall>l \<in> set (typed w). valid_utf8 (TrimSpace l)" "\<forall>p raw. peer = Some (p, raw) \<longrightarrow> valid_utf8 raw"
  obtains p raw s0 w1 where "subscribe c s0 p raw w1 = Ret (Inr s', w')" "files w1 = files w" "sent w1 = sent w"
    "my_queue s0 = my_queue s" "me s0 = me s" "seen s0 = seen s" "sendq s0 = sendq s" "valid_utf8 raw"
    "peer = Some (p, raw) \<or> peer = None \<and> ParseInvite (ip_literal c) raw = Inr p \<and> advHost s0 = IHost p \<and> advPort s0 = IPort p"
proof (cases peer)
  case None
  then obtain cs r rest where so: "sortedContacts (loadState (config_dir c) (state_unreadable c 1) (me s) (files w)) = Ret cs"
    and cs: "pick_peer (ip_literal c) cs (typed w) = Ret (r, rest)"
    and k: "(case r of Inl e \<Rightarrow> Ret (Inl e, w\<lparr>typed := rest\<rparr>)
      | Inr (p, raw) \<Rightarrow> subscribe c (s\<lparr>advHost := IHost p, advPort := IPort p, nick := IHost p\<rparr>) p raw (w\<lparr>typed := rest\<rparr>)) = Ret (Inr s', w')"
    using assms(1) by (auto simp: meet_def go_simps Let_def)
  then obtain p raw where r: "r = Inr (p, raw)" by (cases r) auto
  have v: "valid_utf8 raw"
    using pick_peer_chosen [OF cs [unfolded r]] loaded_links_valid [OF so] assms(2) by auto
  show thesis
    by (rule that [of "s\<lparr>advHost := IHost p, advPort := IPort p, nick := IHost p\<rparr>" p raw "w\<lparr>typed := rest\<rparr>"])
      (use v k r None pick_peer_chosen [OF cs [unfolded r]] in \<open>simp_all\<close>)
next
  case (Some x)
  obtain p raw where "x = (p, raw)" by (cases x)
  with Some assms that [of s p raw w] show thesis by (simp add: meet_def)
qed

text \<open>A chat that starts: its identity, server, queue and peer, and the last request it made.\<close>

lemma runChat_Inr:
  assumes "runChat c link srv mq w = Ret (Inr s, w')"
    and utf8: "valid_utf8 link" "\<forall>l \<in> set (typed w). valid_utf8 (TrimSpace l)"
  obtains i w1 peer host port w2 p raw s0 w3 where
    "loadMyIdentity c w = (Inr i, w1)" "peer_arg c link = Inr peer"
    "choose_server (map_option fst peer) srv = (host, port)" "dials c (buildWSURL host port)"
    "pick_outbox c i host mq w1 = (Inr (my_queue s), w2)" "ParseInvite (ip_literal c) raw = Inr p"
    "subscribe c s0 p raw w3 = Ret (Inr s, w')" "files w3 = files w2" "me s0 = i" "me s = i" "peer_queue s = IQueueID p"
    "seen s = []" "sendq s = new_client" "valid_utf8 raw"
proof -
  obtain i w1 where i: "loadMyIdentity c w = (Inr i, w1)" using assms(1) by (auto simp: runChat_def split: prod.splits sum.splits)
  obtain peer where peer: "peer_arg c link = Inr peer" using assms(1) i by (auto simp: runChat_def split: sum.splits)
  obtain host port where srv: "choose_server (map_option fst peer) srv = (host, port)" by (cases "choose_server (map_option fst peer) srv")
  have d: "dials c (buildWSURL host port)" using assms(1) i peer srv by (auto simp: runChat_def split: if_splits)
  obtain q w2 where q: "pick_outbox c i host mq w1 = (Inr q, w2)"
    using assms(1) i peer srv d by (auto simp: runChat_def split: prod.splits sum.splits)
  let ?s = "(new_session host port i)\<lparr>my_queue := q\<rparr>"
  have "meet c ?s peer (w2\<lparr>links := links w2 @ [myInvite ?s]\<rparr>) = Ret (Inr s, w')"
    using assms(1) i peer srv d q by (simp add: runChat_def Let_def)
  moreover have "\<forall>l \<in> set (typed (w2\<lparr>links := links w2 @ [myInvite ?s]\<rparr>)). valid_utf8 (TrimSpace l)"
    using utf8(2) loadMyIdentity_typed(1) [of c w] pick_outbox_typed [of c i host mq w1] i q by simp
  moreover have "\<forall>p raw. peer = Some (p, raw) \<longrightarrow> valid_utf8 raw"
    using peer utf8(1) by (auto simp: peer_arg_def split: if_splits sum.splits)
  ultimately obtain p raw s0 w3 where m: "subscribe c s0 p raw w3 = Ret (Inr s, w')" "files w3 = files w2"
    "my_queue s0 = q" "me s0 = i" "seen s0 = []" "sendq s0 = new_client" "valid_utf8 raw"
    "peer = Some (p, raw) \<or> ParseInvite (ip_literal c) raw = Inr p"
    by (rule meet_Inr) (auto simp: new_session_def)
  have "ParseInvite (ip_literal c) raw = Inr p"
    using m(8) peer by (auto simp: peer_arg_def split: if_splits sum.splits)
  then show thesis
    using that [OF i peer srv d _ _ m(1,2,4)] q m subscribe_Inr(1) [OF m(1)] by simp
qed

lemma bare_envelope_frame: "marshal_envelope (bare_envelope now t q) = frame_of now t q [] NoPayload"
  by (simp add: bare_envelope_def frame_of_def NewEnvelope_def)

text \<open>The contact and the queue a started chat leaves in the state file.\<close>

lemma subscribe_saved:
  assumes "subscribe c s p raw w = Ret (Inr s', w')" "\<not> state_unreadable c 2" "valid_utf8 raw" "int64_range (wall c 2)"
    and "\<And>path. statePath (config_dir c) (me s) = Some path \<Longrightarrow> state_tmp c 2 \<noteq> path"
  shows "\<exists>x. map_of (Contacts (loadState (config_dir c) False (me s) (files w'))) (fpHex (IBoxPub p)) = Some (Some x) \<and>
      CInviteURL x = raw \<and> LastSeen x = wall c 2"
    and "map_of (Outbox (loadState (config_dir c) False (me s) (files w'))) = map_of (Outbox (loadState (config_dir c) False (me s) (files w)))"
proof -
  obtain st where st: "upsert (wall c 2) p raw (loadState (config_dir c) False (me s) (files w)) = Ret st"
    "saved_ok (state_fault c 2) (config_dir c) (me s)"
    "files w' = last (saveState (state_fault c 2) (state_tmp c 2) (config_dir c) (me s) st (files w))"
    using subscribe_Inr(3) [OF assms(1)] assms(2) by auto
  have "state_ok st" by (rule state_ok_upsert [OF st(1) state_ok_load assms(3,4)])
  note l = load_after_save [OF st(2) this assms(5), where fs = "files w", folded st(3)]
  show "\<exists>x. map_of (Contacts (loadState (config_dir c) False (me s) (files w'))) (fpHex (IBoxPub p)) = Some (Some x) \<and>
      CInviteURL x = raw \<and> LastSeen x = wall c 2"
    using upsert_Ret(1) [OF st(1)] l(2) by auto
  show "map_of (Outbox (loadState (config_dir c) False (me s) (files w'))) = map_of (Outbox (loadState (config_dir c) False (me s) (files w)))"
    using upsert_Ret(3) [OF st(1)] l(1) by simp
qed

end
