(* ===== verification/Gen_Vectors.thy ===== *)
theory Gen_Vectors
  imports Knock_Crypto
begin

text \<open>
  \<open>crypto/genvectors/main.go\<close>: the generator of the test vectors other implementations are checked against.  It
  repeats the key derivation and the fingerprint on the bare primitives; that the repetitions agree
  with \<open>crypto/crypto.go\<close> is what its comments ask for.  The document is modelled up to its JSON layout.
\<close>

definition deriveKey :: "prims \<Rightarrow> bytes \<Rightarrow> bytes \<Rightarrow> string \<Rightarrow> bytes option" where
  "deriveKey p myPriv peerPub info =
     (case X25519 p myPriv peerPub of None \<Rightarrow> None | Some shared \<Rightarrow> Some (Hkdf32 p shared info))"

text \<open>The loop over \<open>i = 0, 2, 4 ...\<close> below the length.\<close>

definition fingerprint :: "bytes \<Rightarrow> string" where
  "fingerprint boxPub =
     (let hex = hex_encode (take 8 (sha256 boxPub)) in
      concat (map (\<lambda>j. let i = 2 * j in (if 0 < i then '' '' else []) @ map to_upper (take 2 (drop i hex)))
        [0..<(length hex + 1) div 2]))"

subsection \<open>The fixed inputs\<close>

definition privSeedA :: bytes where "privSeedA = map char_of [1..<33 :: nat]"
definition privSeedB :: bytes where "privSeedB = map char_of (rev [224..<256 :: nat])"
definition vec_nonce :: bytes where "vec_nonce = map char_of [16..<40 :: nat]"
definition vec_plaintext :: string where "vec_plaintext = ''knock test payload''"
definition vec_aad :: string where "vec_aad = ''test-queue-idtest-msg-id''"
definition signSeedA :: bytes where "signSeedA = map char_of [161..<193 :: nat]"
definition delMsg :: string where "delMsg = ''DEL qid=abcdef1234567890 ts=1728880000''"

subsection \<open>The document\<close>

record test_vector =
  vec_name :: string
  vec_op :: string
  vec_input :: "(string \<times> string) list"
  vec_output :: "(string \<times> string) list"

datatype gen_error = Must string | LengthPanic

definition vectors_of ::
  "bytes \<Rightarrow> bytes \<Rightarrow> bytes \<Rightarrow> bytes \<Rightarrow> bytes \<Rightarrow> bytes \<Rightarrow> bytes \<Rightarrow> test_vector list"
where
  "vectors_of pubA pubB keyA2B keyB2A ct signPriv sig =
     [\<lparr>vec_name = ''derive_key_a2b'', vec_op = ''derive'',
        vec_input = [(''my_box_priv'', b64_std privSeedA), (''peer_box_pub'', b64_std pubB), (''direction'', ''a2b'')],
        vec_output = [(''key'', b64_std keyA2B)]\<rparr>,
      \<lparr>vec_name = ''derive_key_b2a'', vec_op = ''derive'',
        vec_input = [(''my_box_priv'', b64_std privSeedB), (''peer_box_pub'', b64_std pubA), (''direction'', ''b2a'')],
        vec_output = [(''key'', b64_std keyB2A)]\<rparr>,
      \<lparr>vec_name = ''encrypt_roundtrip'', vec_op = ''encrypt'',
        vec_input = [(''key'', b64_std keyA2B), (''nonce'', b64_std vec_nonce), (''plaintext'', b64_std vec_plaintext), (''aad'', b64_std vec_aad)],
        vec_output = [(''ciphertext'', b64_std ct)]\<rparr>,
      \<lparr>vec_name = ''sign_del'', vec_op = ''sign'',
        vec_input = [(''sign_priv'', b64_std signPriv), (''message'', b64_std delMsg)],
        vec_output = [(''signature'', b64_std sig)]\<rparr>,
      \<lparr>vec_name = ''fingerprint'', vec_op = ''fingerprint'',
        vec_input = [(''box_pub'', b64_std pubB)], vec_output = [(''fp'', fingerprint pubB)]\<rparr>]"

definition test_vectors :: "prims \<Rightarrow> gen_error + test_vector list" where
  "test_vectors p =
     (case X25519 p privSeedA (Basepoint p) of None \<Rightarrow> Inl (Must ''pubA'')
      | Some pubA \<Rightarrow>
     (case X25519 p privSeedB (Basepoint p) of None \<Rightarrow> Inl (Must ''pubB'')
      | Some pubB \<Rightarrow>
     (case deriveKey p privSeedA pubB ''knock-m3-v1:a2b'' of None \<Rightarrow> Inl (Must ''derive a2b'')
      | Some keyA2B \<Rightarrow>
     (case deriveKey p privSeedB pubA ''knock-m3-v1:b2a'' of None \<Rightarrow> Inl (Must ''derive b2a'')
      | Some keyB2A \<Rightarrow>
          if length keyA2B \<noteq> 32 \<or> length keyB2A \<noteq> 32 then Inl LengthPanic
          else let ct = XSeal p keyA2B vec_nonce vec_plaintext vec_aad;
                   signPriv = EdKey p signSeedA
               in Inr (vectors_of pubA pubB keyA2B keyB2A ct signPriv (EdSign p signPriv delMsg))))))"

subsection \<open>Agreement with the library\<close>

lemma deriveKey_eq: "deriveKey p a B (key_info dir) = DeriveKey p a B dir"
  by (simp add: deriveKey_def DeriveKey_def split: option.split)

text \<open>The grouping loop of the fingerprint against the recursive one.\<close>

definition group_at :: "string \<Rightarrow> nat \<Rightarrow> string" where
  "group_at hex j = (if 0 < j then '' '' else []) @ map to_upper (take 2 (drop (2 * j) hex))"

lemma group_loop_tail:
  "concat (map (group_at (a # b # r)) [1..<Suc n]) = concat (map (\<lambda>j. CHR '' '' # map to_upper (take 2 (drop (2 * j) r))) [0..<n])"
proof -
  have "map (group_at (a # b # r)) [1..<Suc n] = map (\<lambda>j. group_at (a # b # r) (Suc j)) [0..<n]"
    by (simp add: map_Suc_upt [symmetric] del: upt_Suc)
  then show ?thesis by (simp add: group_at_def)
qed

lemma spaced_loop:
  "even (length r) \<Longrightarrow> r \<noteq> [] \<Longrightarrow>
     concat (map (\<lambda>j. CHR '' '' # map to_upper (take 2 (drop (2 * j) r))) [0..<length r div 2]) = CHR '' '' # pair_up r"
proof (induction r rule: pair_up.induct)
  case (4 a b c r)
  let ?r = "c # r"
  have IH: "concat (map (\<lambda>j. CHR '' '' # map to_upper (take 2 (drop (2 * j) ?r))) [0..<length ?r div 2]) = CHR '' '' # pair_up ?r"
    using 4 by simp
  have l: "length (a # b # ?r) div 2 = Suc (length ?r div 2)" by simp
  have "map (\<lambda>j. CHR '' '' # map to_upper (take 2 (drop (2 * j) (a # b # ?r)))) [0..<Suc (length ?r div 2)]
    = (CHR '' '' # map to_upper [a, b]) # map (\<lambda>j. CHR '' '' # map to_upper (take 2 (drop (2 * j) ?r))) [0..<length ?r div 2]"
    by (subst map_upt_Suc) (simp del: upt_Suc add: numeral_2_eq_2)
  then show ?case unfolding l using IH by (simp del: upt_Suc)
qed simp_all

lemma group_loop:
  assumes "even (length s)"
  shows "concat (map (group_at s) [0..<(length s + 1) div 2]) = pair_up s"
proof (cases s rule: pair_up.cases)
  case (4 a b c r)
  let ?r = "c # r"
  have e: "even (length ?r)" "(length s + 1) div 2 = Suc (length ?r div 2)" using assms 4 by auto
  have "[0..<Suc (length ?r div 2)] = 0 # [1..<Suc (length ?r div 2)]" by (simp add: upt_conv_Cons)
  then have "concat (map (group_at s) [0..<(length s + 1) div 2])
    = group_at s 0 @ concat (map (group_at (a # b # ?r)) [1..<Suc (length ?r div 2)])"
    unfolding e(2) by (simp add: 4 del: upt_Suc)
  also have "\<dots> = [to_upper a, to_upper b] @ CHR '' '' # pair_up ?r"
    unfolding group_loop_tail spaced_loop [OF e(1) list.distinct(2)] by (simp add: group_at_def 4)
  finally show ?thesis by (simp add: 4)
qed (use assms in \<open>simp_all add: group_at_def\<close>)

lemma fingerprint_eq: "fingerprint b = Fingerprint b"
  using group_loop [of "hex_encode (take 8 (sha256 b))"]
  by (simp add: fingerprint_def Fingerprint_def group_at_def [abs_def] Let_def)

end
