(* ===== verification/Client_Props.thy ===== *)
theory Client_Props
  imports Relay_Props End_To_End Client_Session_Facts Gen_Vectors
begin

text \<open>
  The properties of the client: what a running chat guarantees, what a started chat leaves on disk, links, identities and
  keys.  Each is followed by an instance.
\<close>

subsection \<open>A small client\<close>

definition demo_identity :: identity where
  "demo_identity = \<lparr>SignPriv = Some (zeros 64), SignPub = Some (zeros 32), BoxPriv = zeros 32, BoxPub = zeros 32\<rparr>"

definition demo_session :: session where
  "demo_session = (new_session ''h'' 8080 demo_identity)\<lparr>my_queue := demo_qid\<rparr>"

definition demo_bytes :: bytes where
  "demo_bytes = replicate 16 (CHR ''x'')"

lemma demo_session_simps [simp]:
  "my_queue demo_session = demo_qid" "sendq demo_session = new_client" "seen demo_session = []" "nick demo_session = ''h''"
  by (simp_all add: demo_session_def new_session_def)

lemma demo_inv: "client_inv (start_chat demo_session)"
  by (rule client_inv_start) simp

lemma trim_hi: "TrimSpace ''hi'' = ''hi''"
proof -
  have "strip ws s = s" if "find (\<lambda>w. w \<noteq> [] \<and> has_prefix w s) ws = None" for ws s
    using that by (simp add: strip.simps)
  then show ?thesis by (simp add: TrimSpace_def space_runes_def upt_rec)
qed

subsection \<open>A running chat\<close>

text \<open>
  C28.  In every state a chat can reach, whatever frames arrive, lines are typed and writes fail: the send queue
  holds at most 16 frames and is never closed, every frame on the wire, queued or waiting is a SEND to the
  client's own queue or the ACK of a message it has seen, and no message is acknowledged twice.
\<close>

theorem chat_reachable_invariant:
  assumes "sendq se = new_client" "reaches client_event_ok client_step (start_chat se) s"
  shows "length (buf (sendq (sess s))) \<le> 16 \<and> \<not> closed (sendq (sess s)) \<and>
    (\<forall>f \<in> set (produced s). own_frame (sess s) f) \<and> distinct (concat (map ack_mid (produced s)))"
  using chat.inv_reaches [OF assms(2) client_inv_start [OF assms(1)]] by (simp add: client_inv_def sendCap_def)

theorem chat_reachable_invariant_witness:
  "length (buf (sendq (sess ((start_chat demo_session)\<lparr>typing := False\<rparr>)))) \<le> 16"
proof -
  have "client_step (start_chat demo_session) InputEnds ((start_chat demo_session)\<lparr>typing := False\<rparr>)"
    by (rule input_ends) simp
  then have "reaches client_event_ok client_step (start_chat demo_session) ((start_chat demo_session)\<lparr>typing := False\<rparr>)"
    by (intro onward [OF here, where e = InputEnds]) (simp_all add: client_event_ok_def)
  from chat_reachable_invariant [OF _ this] show ?thesis by simp
qed

text \<open>
  C29.  Deduplication: over any sequence of frames the reader does what each frame says by itself, except that
  a DELIVER whose identifier was seen, at the start or in an earlier DELIVER of the sequence, is ignored.  So
  every message is shown at most once, and a redelivery is not acknowledged again.
\<close>

theorem reader_shows_first_deliveries_only:
  "receive_all sn fs = map (\<lambda>i. if repeats sn fs i then Ignored else action_of (fs ! i)) [0..<length fs]"
  by (rule receive_all_spec)

text \<open>
  C30.  No acknowledgement is lost.  At any moment of any run in which no write has failed, the acknowledgements among the frames
  on the wire, in the queue and in the reader's hands are those of the messages it has shown, each one and in that order, and
  the SENDs among them are those of the typed lines that found room; a full queue holds the reader back, it never drops an
  acknowledgement.  While the connection is open the chat can go on until all of them are on the wire.
\<close>

theorem no_acknowledgement_is_lost:
  assumes "sendq se = new_client" "reaches logged_ok logged_step (start_chat se, [], []) (s, ms, fs)" "wp_on s"
  shows "concat (map ack_mid (produced s)) = ms \<and> concat (map send_of (produced s)) = fs \<and>
    (typing s \<and> conn_open s \<longrightarrow> (\<exists>s'. reaches flushing client_step s s' \<and>
       concat (map ack_mid (concat (map text_of (wire_out s')))) = ms \<and> concat (map send_of (concat (map text_of (wire_out s')))) = fs))"
proof -
  have i: "concat (map ack_mid (produced s)) = ms \<and> concat (map send_of (produced s)) = fs"
    using logged.inv_reaches [OF assms(2) log_inv_start [OF assms(1)]] assms(3) by (simp add: log_inv_def)
  then show ?thesis using all_flushes [of s] assms(3) by metis
qed

lemma demo_delivery:
  obtains g where "length g \<le> maxMsgSize" "receive [] g = (ShowChat demo_qid (hex_encode demo_bytes) ''hi'', [hex_encode demo_bytes])"
proof -
  let ?e = "typed_envelope 3 demo_bytes demo_qid ''hi''"
  have b: "length demo_bytes = 16" by (simp add: demo_bytes_def)
  have e: "Payload ?e = Some (payload_text (ChatMessage ''hi''))" "ValidQueueID (QueueID ?e)" "QueueID ?e = demo_qid"
    "send_mid demo_io ?e = hex_encode demo_bytes"
    using hex_not_Nil [OF b] by (simp_all add: typed_envelope_def send_mid_def)
  obtain g where g: "deliver_frame demo_io ?e = Some g" "Parse g = Inr \<lparr>Version = 1, Typ = TypeDeliver, QueueID = demo_qid,
      MsgID = hex_encode demo_bytes, TS = clock demo_io 2, Payload = Some (payload_text (ChatMessage ''hi''))\<rparr>"
    using deliver_frame_parses [OF demo_io_ok e(1) _ e(2)] payload_text_ok [of "ChatMessage ''hi''"] e(3,4) by auto
  have "length g \<le> maxMsgSize"
    using length_delivered_frame [OF _ b g(1)] length_show_int [OF io_ok_clock [OF demo_io_ok], of 2] length_esc_string [of "''hi''"]
    by (simp add: maxMsgSize_def)
  moreover have "to_valid_utf8 ''hi'' = ''hi''" by (rule ascii_valid_utf8) (simp add: is_ascii_def)
  then have "receive [] g = (ShowChat demo_qid (hex_encode demo_bytes) ''hi'', [hex_encode demo_bytes])"
    using g(2) by (simp add: receive_def decode_chat_of)
  ultimately show thesis using that by blast
qed

theorem no_acknowledgement_is_lost_witness:
  "\<exists>s fs. reaches logged_ok logged_step (start_chat demo_session, [], []) (s, [hex_encode demo_bytes], fs) \<and> buf (sendq (sess s)) \<noteq> [] \<and>
     concat (map ack_mid (produced s)) = [hex_encode demo_bytes]"
proof -
  obtain g where g: "length g \<le> maxMsgSize" "receive [] g = (ShowChat demo_qid (hex_encode demo_bytes) ''hi'', [hex_encode demo_bytes])" by (rule demo_delivery)
  let ?s0 = "start_chat demo_session" and ?s1 = "receive_turn 5 g (start_chat demo_session)"
  have r: "int64_range 5" "valid_utf8 demo_qid" "valid_utf8 (hex_encode demo_bytes)"
    using ValidQueueID_utf8 [OF demo_qid_facts(1)] by (simp_all add: int64_range_def valid_utf8_def ascii_valid_utf8 is_ascii_def)
  obtain d where d: "ack_for 5 demo_qid (hex_encode demo_bytes) = Some d" using ack_for_parses [OF r] by blast
  have s1: "typing ?s1" "rp ?s1 = Acking d" "wp_on ?s1" "buf (sendq (sess ?s1)) = []"
    using g(2) d by (simp_all add: receive_turn_def)
  let ?s2 = "(enqueue d ?s1)\<lparr>rp := Receiving\<rparr>"
  have "client_step ?s0 (FrameIn 5 g) ?s1" by (rule frame_in) (simp_all add: g(1))
  then have "logged_step (?s0, [], []) (FrameIn 5 g) (?s1, [hex_encode demo_bytes], [])"
    using g(2) by (simp add: logged_step_def shown_by_def sends_by_def)
  then have r1: "reaches logged_ok logged_step (?s0, [], []) (?s1, [hex_encode demo_bytes], [])"
    by (rule onward [OF here, rotated]) (simp add: logged_ok_def client_event_ok_def r)
  have "client_step ?s1 AckQueued ?s2" using s1 by (intro ack_queued) (simp_all add: has_room_def)
  then have "logged_step (?s1, [hex_encode demo_bytes], []) AckQueued (?s2, [hex_encode demo_bytes], [])"
    by (simp add: logged_step_def shown_by_def sends_by_def)
  then have r2: "reaches logged_ok logged_step (?s0, [], []) (?s2, [hex_encode demo_bytes], [])"
    by (rule onward [OF r1, rotated]) (simp add: logged_ok_def client_event_ok_def)
  have "wp_on ?s2" "buf (sendq (sess ?s2)) \<noteq> []" using s1(3) by (simp_all add: enqueue_def)
  with no_acknowledgement_is_lost [OF _ r2] r2 show ?thesis by auto
qed

text \<open>
  C31.  The largest messages are lost for good.  A typed line whose SEND has exactly the 64 KiB of the limit is read by the relay,
  stored and put into the subscriber's channel; but the DELIVER is longer than the SEND (by three bytes, for clock readings
  of equal length), over the same limit in the client, whose reader cannot take it in any state.
\<close>

theorem largest_message_cannot_be_received:
  assumes "good C (core r)" "io_ok io" "c \<in> C" "map_of (queues (core r)) (my_queue se) = Some qs" "sub qs = Some d" "d \<noteq> c"
      "length (buf (conns (core r) d)) < sendCap" "send_stores io (typed_envelope now b (my_queue se) t) (core r)" "readers r c = Reading"
    and "typed_frame now (Some b) t se = Some f" "length b = 16" "int64_range now" "length f = maxMsgSize"
    and "length (show_int now) \<le> length (show_int (clock io 2))"
  shows "\<exists>r1 r2 g. relay_step jerr (Up r) (Frame c at f) (Up r1) \<and> relay_step jerr (Up r1) (HubRoute c io) (Up r2) \<and>
    sent_message io (typed_envelope now b (my_queue se) t) \<in> set (pending (db (core r2)) (my_queue se)) \<and>
    buf (conns (core r2) d) = buf (conns (core r) d) @ [g] \<and> maxMsgSize < length g \<and> (\<forall>s at' s'. \<not> client_step s (FrameIn at' g) s')"
proof -
  let ?q = "my_queue se" and ?e = "typed_envelope now b (my_queue se) t"
  have v: "ValidQueueID ?q" using map_of_valid [OF _ assms(4)] assms(1) by (simp add: good_def hub_inv_def)
  have pf: "Parse f = Inr ?e" using typed_frame_envelope [OF assms(12) v, of b t] assms(10) by simp
  obtain h g where h: "handle io c ?e (core r) = Ret h" "deliver_frame io ?e = Some g"
    "buf (conns h d) = take sendCap (buf (conns (core r) d) @ [g])" "sent_message io ?e \<in> set (pending (db h) ?q)"
    using typed_line_delivered [OF assms(1-3,11,4,5,8)] assms(6) by blast
  let ?r1 = "set_reader c (Handing ?e) r"
  have "read_turn jerr at c f r = Up ?r1" using relay_reads_typed [OF pf] by (simp add: read_turn_def set_reader_def)
  then have s1: "relay_step jerr (Up r) (Frame c at f) (Up ?r1)" using frame [OF assms(9), of f jerr at] assms(13) by simp
  have "readers ?r1 c = Handing ?e" by (simp add: set_reader_def)
  from route [OF this, of jerr io] have s2: "relay_step jerr (Up ?r1) (HubRoute c io) (Up (r\<lparr>core := h\<rparr>))"
    using assms(9) h(1) by (simp add: hub_turn_def after_turn_def set_reader_def fun_upd_idem)
  have l: "maxMsgSize < length g"
    using length_typed_frame [OF v assms(11,10)] length_delivered_frame [OF v assms(11) h(2)] assms(13,14) by simp
  then have "\<not> client_step s (FrameIn at' g) s'" for s at' s' by (auto elim: client_stepE)
  then show ?thesis using s1 s2 h(3,4) l assms(7) by (intro exI [of _ ?r1] exI [of _ "r\<lparr>core := h\<rparr>"] exI [of _ g]) simp
qed

lemma esc_replicate: "length (esc_string (replicate n (CHR ''a''))) = n"
  by (simp add: esc_string_safe list_all_iff html_safe_def)

theorem largest_message_cannot_be_received_witness:
  "\<exists>f r r1 r2 g. typed_frame 100 (Some demo_bytes) (replicate 65402 (CHR ''a'')) demo_session = Some f \<and> length f = maxMsgSize \<and>
     relay_step (\<lambda>_. []) (Up r) (Frame 0 5 f) (Up r1) \<and> relay_step (\<lambda>_. []) (Up r1) (HubRoute 0 demo_io) (Up r2) \<and>
     buf (conns (core r2) 1) = [g] \<and> maxMsgSize < length g"
proof -
  let ?t = "replicate 65402 (CHR ''a'')" and ?r = "\<lparr>core = demo_hub, readers = (\<lambda>_. Reading), writing = (\<lambda>_. True), socket = (\<lambda>_. [])\<rparr>"
  have b: "length demo_bytes = 16" "int64_range 100" by (simp_all add: demo_bytes_def int64_range_def)
  obtain f where f: "typed_frame 100 (Some demo_bytes) ?t demo_session = Some f"
    using typed_frame_envelope [OF b(2), of demo_session demo_bytes ?t] by auto
  have l: "length (show_int 100) = 3" by (simp add: show_int_def show_nat.simps)
  have lf: "length f = maxMsgSize"
    using length_typed_frame [OF _ b(1) f] l esc_replicate [of 65402] by (simp add: maxMsgSize_def del: replicate.simps)
  have q: "map_of (queues (core ?r)) (my_queue demo_session) = Some \<lparr>owner = Some 0, sub = Some 1\<rparr>"
    "length (buf (conns (core ?r) 1)) < sendCap" by (simp_all add: demo_hub_def)
  have st: "send_stores demo_io (typed_envelope 100 demo_bytes (my_queue demo_session) ?t) (core ?r)"
    by (simp add: send_stores_def typed_envelope_def) (simp add: demo_hub_def demo_io_def sent_message_def)
  have c: "good {0, 1} (core ?r)" "(0 :: nat) \<in> {0, 1}" "sub \<lparr>owner = Some 0, sub = Some 1\<rparr> = Some 1" "(1 :: nat) \<noteq> 0" "readers ?r 0 = Reading"
    "length (show_int 100) \<le> length (show_int (clock demo_io 2))" using demo_good by (simp_all add: demo_io_def)
  obtain r1 r2 g where g: "relay_step (\<lambda>_. []) (Up ?r) (Frame 0 5 f) (Up r1)" "relay_step (\<lambda>_. []) (Up r1) (HubRoute 0 demo_io) (Up r2)"
    "buf (conns (core r2) 1) = buf (conns (core ?r) 1) @ [g]" "maxMsgSize < length g"
    using largest_message_cannot_be_received [OF c(1) demo_io_ok c(2) q(1) c(3,4) q(2) st c(5) f b lf c(6), of "\<lambda>_. []" 5] by blast
  have "buf (conns (core ?r) 1) = []" by (simp add: demo_hub_def)
  with f lf g show ?thesis by (intro exI conjI) auto
qed

subsection \<open>Links\<close>

definition demo_invite :: invite where
  "demo_invite = \<lparr>IHost = ''h'', IPort = 8080, IQueueID = demo_qid, IBoxPub = zeros 32\<rparr>"

lemma demo_invite_printable: "printable_invite demo_invite" "IPort demo_invite = 8080" "length (IBoxPub demo_invite) = 32"
  by (simp_all add: demo_invite_def printable_invite_def host_plain_def is_alnum_def is_letter_def zeros_def)

lemma demo_invite_parses: "ParseInvite ipl (Invite_String demo_invite) = Inr demo_invite"
  using ParseInvite_link [of demo_invite ipl] demo_invite_printable by simp

text \<open>
  C32.  The link a session prints gives the other side exactly its server, queue and public key back; in tunnel mode (port 0)
  it prints a link that every client refuses.
\<close>

theorem printed_link_parses:
  assumes "list_all host_plain (advHost s)" "0 \<le> advPort s" "advPort s \<le> 65535" "ValidQueueID (my_queue s)"
    and "length (BoxPub (me s)) = 32"
  shows "ParseInvite ipl (myInvite s) =
    (if advPort s = 0 then Inl BadPort
     else Inr \<lparr>IHost = advHost s, IPort = advPort s, IQueueID = my_queue s, IBoxPub = BoxPub (me s)\<rparr>)"
proof -
  let ?i = "\<lparr>IHost = advHost s, IPort = advPort s, IQueueID = my_queue s, IBoxPub = BoxPub (me s)\<rparr>"
  have "printable_invite ?i" using assms by (simp add: printable_invite_def)
  from ParseInvite_link [OF this, of ipl] assms show ?thesis by (simp add: myInvite_def)
qed

theorem printed_link_parses_witness:
  "ParseInvite (\<lambda>_. None) (myInvite demo_session) = Inr demo_invite \<and>
   ParseInvite (\<lambda>_. None) (myInvite (demo_session\<lparr>advPort := 0\<rparr>)) = Inl BadPort"
proof -
  have "list_all host_plain (advHost demo_session)" "length (BoxPub (me demo_session)) = 32" "advPort demo_session = 8080"
    by (simp_all add: demo_session_def new_session_def demo_identity_def host_plain_def is_alnum_def is_letter_def zeros_def)
  with printed_link_parses [of demo_session "\<lambda>_. None"] printed_link_parses [of "demo_session\<lparr>advPort := 0\<rparr>" "\<lambda>_. None"]
  show ?thesis by (simp add: demo_invite_def) (simp add: demo_session_def new_session_def demo_identity_def)
qed

text \<open>A link without a query has no key.\<close>

lemma get_scheme_rest: "get_scheme s = Some (w, r) \<Longrightarrow> set r \<subseteq> set s"
proof -
  assume g: "get_scheme s = Some (w, r)"
  have "set r \<subseteq> set (dropWhile scheme_char s) \<or> r = s"
    using g by (auto simp: get_scheme_def Let_def split: if_splits list.splits)
  then show ?thesis by (auto dest: set_dropWhileD)
qed

lemma url_parse_no_query:
  assumes "url_parse ipl raw = Some u" "CHR ''?'' \<notin> set raw"
  shows "RawQuery u = []"
proof -
  let ?f = "cut_before (CHR ''#'') raw"
  have f: "CHR ''?'' \<notin> set ?f" using assms(2) set_takeWhileD by (force simp: cut_before_def)
  show ?thesis
  proof (cases "get_scheme ?f")
    case None
    with assms(1) show ?thesis by (auto simp: url_parse_def Let_def split: if_splits)
  next
    case (Some x)
    obtain w r where x: "x = (w, r)" by (cases x)
    have "CHR ''?'' \<notin> set r" using get_scheme_rest [OF Some [unfolded x]] f by blast
    from cut_none [OF this] have "cut_after (CHR ''?'') r = []" by blast
    then show ?thesis
      using assms(1) by (auto simp: url_parse_def parse_rest_def Let_def Some x split: if_splits option.splits)
  qed
qed

text \<open>
  C33.  No text is accepted as a link unless it can be used and is intact: its queue name passes the relay's check, its port is
  written out and can be dialled, its key has 32 bytes, and its checksum is the one of its host, port, queue and key; one without
  a query is refused, also the link without port, key and checksum that \<open>TestInviteDefaultPort\<close> expects to be accepted.  An
  accepted link with a plain host name can be printed and is accepted again, with the same data.
\<close>

theorem accepted_links_are_sound:
  assumes "ParseInvite ipl link = Inr i"
  shows "ValidQueueID (IQueueID i) \<and> 1 \<le> IPort i \<and> IPort i \<le> 65535 \<and> length (IBoxPub i) = 32 \<and>
    (\<exists>u. url_parse ipl link = Some u \<and> Scheme u = ''knock'' \<and> IHost i = Hostname u \<and> parse_int (Port u) = Some (IPort i) \<and>
       query_get (RawQuery u) ''c'' = inviteChecksum (IHost i) (IPort i) (IQueueID i) (query_get (RawQuery u) ''k'')) \<and>
    CHR ''?'' \<in> set link \<and> link \<noteq> ''knock://example.com/b7f3e2a1c9d84f02a6b3c8d7e5f10293'' \<and>
    (list_all host_plain (IHost i) \<longrightarrow> ParseInvite ipl (Invite_String i) = Inr i)"
proof -
  note d = ParseInvite_InrD [OF assms]
  obtain u where u: "url_parse ipl link = Some u" "Scheme u = ''knock''" "IHost i = Hostname u" "parse_int (Port u) = Some (IPort i)"
    "query_get (RawQuery u) ''c'' = inviteChecksum (IHost i) (IPort i) (IQueueID i) (query_get (RawQuery u) ''k'')"
    "b64_raw_decode True (query_get (RawQuery u) ''k'') = Some (IBoxPub i)"
    using assms by (auto simp: ParseInvite_def Let_def split: option.splits if_splits)
  have q: "CHR ''?'' \<in> set link"
  proof (rule ccontr)
    assume "CHR ''?'' \<notin> set link"
    from url_parse_no_query [OF u(1) this] have "query_get (RawQuery u) ''k'' = []"
      by (simp add: query_get_def query_piece_def map_filter_simps)
    then show False using u(6) d by (simp add: b64_raw_decode_def)
  qed
  have "ParseInvite ipl (Invite_String i) = Inr i" if "list_all host_plain (IHost i)"
    using ParseInvite_link [of i ipl] d that by (auto simp: printable_invite_def)
  moreover from q have "link \<noteq> ''knock://example.com/b7f3e2a1c9d84f02a6b3c8d7e5f10293''" by auto
  ultimately show ?thesis using d q u(1-5) by blast
qed

theorem accepted_links_are_sound_witness:
  "ValidQueueID (IQueueID demo_invite) \<and> CHR ''?'' \<in> set (Invite_String demo_invite)"
  using accepted_links_are_sound [OF demo_invite_parses [of "\<lambda>_. None"]] by blast

subsection \<open>Keys\<close>

text \<open>
  What the library may rely on in its primitives, beyond the types: Diffie-Hellman commutes; HKDF gives different keys for
  different labels (of one length, as the two labels are); the cipher is authenticated, it opens what was sealed with the same key, nonce and associated data and
  nothing that was sealed with another (in the real cipher, up to a negligible probability).
\<close>

definition dh_commutes :: "prims \<Rightarrow> bool" where
  "dh_commutes p \<longleftrightarrow> (\<forall>a b A B. X25519 p a (Basepoint p) = Some A \<and> X25519 p b (Basepoint p) = Some B \<longrightarrow> X25519 p a B = X25519 p b A) \<and>
     (\<forall>a u c. X25519 p a u = Some c \<longrightarrow> length c = 32)"

definition labels_separate :: "prims \<Rightarrow> bool" where
  "labels_separate p \<longleftrightarrow> (\<forall>s x y. length x = length y \<and> length x \<le> 32 \<and> x \<noteq> y \<longrightarrow> Hkdf32 p s x \<noteq> Hkdf32 p s y)"

definition aead_opens :: "prims \<Rightarrow> bool" where
  "aead_opens p \<longleftrightarrow> (\<forall>k n m d. XOpen p k n (XSeal p k n m d) d = Some m)"

definition aead_binds :: "prims \<Rightarrow> bool" where
  "aead_binds p \<longleftrightarrow>
     (\<forall>k n m d k' n' d'. XOpen p k' n' (XSeal p k n m d) d' \<noteq> None \<longrightarrow> k' = k \<and> n' = n \<and> d' = d)"

text \<open>
  C34.  Over such primitives two identities derive the same key for a direction, each from its own private and the other's public
  key, and what one encrypts the other decrypts; the key of the opposite direction is another one, and a message sent
  back (reflected) is refused under it; so is a message under other associated data or another nonce.
\<close>

theorem both_sides_share_session_keys:
  assumes "dh_commutes p" "labels_separate p" "aead_opens p" "aead_binds p"
    and "identity_ok p i" "identity_ok p j" "DeriveKey p (BoxPriv i) (BoxPub j) dir = Some k" "Encrypt p r k m d = Some (c, n)"
  shows "DeriveKey p (BoxPriv j) (BoxPub i) dir = Some k \<and> Decrypt p k c d n = Some m \<and>
    (\<forall>k'. DeriveKey p (BoxPriv i) (BoxPub j) (\<not> dir) = Some k' \<longrightarrow> k' \<noteq> k \<and> Decrypt p k' c d n = None) \<and>
    (\<forall>d' n'. d' \<noteq> d \<or> n' \<noteq> n \<longrightarrow> Decrypt p k c d' n' = None)"
proof -
  have len: "X25519 p a u = Some c \<Longrightarrow> length c = 32" for a u c using assms(1) unfolding dh_commutes_def by blast
  obtain A B where a: "X25519 p (BoxPriv i) (Basepoint p) = Some A" "BoxPub i = A"
    and b: "X25519 p (BoxPriv j) (Basepoint p) = Some B" "BoxPub j = B"
    using assms(5,6) len by (auto simp: identity_ok_def)
  have "X25519 p (BoxPriv i) B = X25519 p (BoxPriv j) A" using assms(1) a(1) b(1) unfolding dh_commutes_def by blast
  with assms(7) have "DeriveKey p (BoxPriv j) (BoxPub i) dir = Some k" by (simp add: DeriveKey_def a(2) b(2))
  moreover have c: "length k = 32" "c = XSeal p k n m d" using assms(8) by (auto simp: Encrypt_def split: if_splits option.splits)
  then have "Decrypt p k c d n = Some m" using assms(3) by (simp add: Decrypt_def aead_opens_def)
  moreover have "k' \<noteq> k \<and> Decrypt p k' c d n = None" if k': "DeriveKey p (BoxPriv i) (BoxPub j) (\<not> dir) = Some k'" for k'
  proof -
    obtain s where s: "k = Hkdf32 p s (key_info dir)" "k' = Hkdf32 p s (key_info (\<not> dir))"
      using assms(7) k' by (auto simp: DeriveKey_def)
    have "length (key_info dir) = length (key_info (\<not> dir))" "length (key_info dir) \<le> 32" "key_info dir \<noteq> key_info (\<not> dir)"
      by (simp_all add: key_info_def)
    then have "k' \<noteq> k" using assms(2) s unfolding labels_separate_def by metis
    moreover then have "XOpen p k' n c d = None" using assms(4) unfolding c(2) aead_binds_def by blast
    ultimately show ?thesis by (simp add: Decrypt_def)
  qed
  moreover have "Decrypt p k c d' n' = None" if "d' \<noteq> d \<or> n' \<noteq> n" for d' n'
  proof -
    have "XOpen p k n' c d' = None" using that assms(4) unfolding c(2) aead_binds_def by blast
    then show ?thesis by (simp add: Decrypt_def)
  qed
  ultimately show ?thesis by blast
qed

text \<open>
  A concrete instance of the laws: addition of 32-byte vectors, and a cipher that writes key, nonce and associated data in front
  of the message, so that they can be compared.
\<close>

definition add32 :: "bytes \<Rightarrow> bytes \<Rightarrow> bytes" where
  "add32 a b = map2 (\<lambda>x y. char_of (byte x + byte y)) (copy32 a) (copy32 b)"

fun framed :: "bytes \<Rightarrow> bytes" where
  "framed [] = [CHR ''0'']"
| "framed (c # s) = CHR ''1'' # c # framed s"

definition seal_tag :: "bytes \<Rightarrow> bytes \<Rightarrow> bytes \<Rightarrow> bytes" where
  "seal_tag k n d = framed k @ framed n @ framed d"

definition demo_prims :: prims where
  "demo_prims = \<lparr>X25519 = (\<lambda>a u. Some (add32 a u)), Basepoint = zeros 32, Hkdf32 = (\<lambda>s info. take 32 (info @ copy32 s)),
     XSeal = (\<lambda>k n m d. seal_tag k n d @ m),
     XOpen = (\<lambda>k n c d. if take (length (seal_tag k n d)) c = seal_tag k n d then Some (drop (length (seal_tag k n d)) c) else None),
     EdKey = (\<lambda>s. copy32 s @ copy32 s), EdPublic = copy32, EdSign = (\<lambda>k m. m), EdVerify = (\<lambda>k m s. m = s)\<rparr>"

lemma demo_prims_simps:
  "X25519 demo_prims = (\<lambda>a u. Some (add32 a u))" "Basepoint demo_prims = zeros 32"
  "Hkdf32 demo_prims = (\<lambda>s info. take 32 (info @ copy32 s))"
  by (simp_all add: demo_prims_def)

lemma framed_append: "framed x @ r = framed y @ s \<longleftrightarrow> x = y \<and> r = s"
proof (induction x arbitrary: y)
  case Nil
  show ?case by (cases y) auto
next
  case (Cons c x)
  then show ?case by (cases y) auto
qed

lemma add32_comm: "add32 a b = add32 b a"
  by (rule nth_equalityI) (simp_all add: add32_def add.commute)

lemma length_add32 [simp]: "length (add32 a b) = 32"
  by (simp add: add32_def)

lemma length_zeros [simp]: "length (zeros n) = n"
  by (simp add: zeros_def)

lemma add32_zero: "add32 a (zeros 32) = copy32 a"
  by (rule nth_equalityI) (simp_all add: add32_def zeros_def)

lemma add32_copy: "add32 a (copy32 b) = add32 a b"
  by (simp add: add32_def)

lemma demo_laws: "dh_commutes demo_prims" "labels_separate demo_prims" "aead_opens demo_prims" "aead_binds demo_prims"
proof -
  have "add32 a (copy32 b) = add32 b (copy32 a)" for a b using add32_comm [of a b] by (simp add: add32_copy)
  then show "dh_commutes demo_prims" by (simp add: dh_commutes_def demo_prims_def add32_zero)
  have "x = y" if "length x = length y" "length x \<le> 32" "take 32 (x @ z) = take 32 (y @ z)" for x y z :: bytes
    using that append_eq_append_conv [of x y] by simp
  then show "labels_separate demo_prims" unfolding labels_separate_def demo_prims_def prims.select_convs by blast
  show "aead_opens demo_prims" by (simp add: aead_opens_def demo_prims_def)
  have "k' = k \<and> n' = n \<and> d' = d" if "take (length (seal_tag k' n' d')) (seal_tag k n d @ m) = seal_tag k' n' d'" for k n m d k' n' d'
  proof -
    let ?t = "seal_tag k' n' d'" and ?c = "seal_tag k n d @ m"
    have "?t @ drop (length ?t) ?c = ?c" using append_take_drop_id [of "length ?t" ?c] unfolding that .
    then show ?thesis by (simp add: seal_tag_def framed_append)
  qed
  then show "aead_binds demo_prims" unfolding aead_binds_def demo_prims_def prims.select_convs by (metis (lifting))
qed

theorem both_sides_share_session_keys_witness:
  "\<exists>k c n. DeriveKey demo_prims (zeros 32) (add32 (zeros 32) (zeros 32)) True = Some k \<and>
     Encrypt demo_prims (Some ''nonce'') k ''hello'' ''ad'' = Some (c, n) \<and> Decrypt demo_prims k c ''ad'' n = Some ''hello'' \<and>
     Decrypt demo_prims k c ''da'' n = None"
proof -
  let ?i = "\<lparr>SignPriv = Some (zeros 64), SignPub = Some (EdPublic demo_prims (zeros 64)), BoxPriv = zeros 32, BoxPub = add32 (zeros 32) (zeros 32)\<rparr>"
  have ok: "identity_ok demo_prims ?i" by (simp add: identity_ok_def demo_prims_def)
  obtain k where k: "DeriveKey demo_prims (BoxPriv ?i) (BoxPub ?i) True = Some k" by (simp add: DeriveKey_def demo_prims_def)
  then have "length k = 32" by (auto simp: DeriveKey_def demo_prims_def)
  then obtain c n where e: "Encrypt demo_prims (Some ''nonce'') k ''hello'' ''ad'' = Some (c, n)" by (simp add: Encrypt_def)
  from both_sides_share_session_keys [OF demo_laws ok ok k e]
  have "Decrypt demo_prims k c ''ad'' n = Some ''hello''" "Decrypt demo_prims k c ''da'' n = None" by simp_all
  then show ?thesis using k e unfolding identity.select_convs by blast
qed

text \<open>
  C35.  The vector generator agrees with the library: its key derivation and its fingerprint loop are the library's, and every
  vector it writes is what the library computes for its input.
\<close>

theorem vectors_match_the_library:
  "deriveKey p a B (key_info dir) = DeriveKey p a B dir \<and> fingerprint b = Fingerprint b \<and>
   (test_vectors p = Inr vs \<longrightarrow>
      (\<exists>pubA pubB kA kB c. X25519 p privSeedA (Basepoint p) = Some pubA \<and> X25519 p privSeedB (Basepoint p) = Some pubB \<and>
         DeriveKey p privSeedA pubB True = Some kA \<and> DeriveKey p privSeedB pubA False = Some kB \<and>
         Encrypt p (Some vec_nonce) kA vec_plaintext vec_aad = Some (c, vec_nonce) \<and>
         vs = vectors_of pubA pubB kA kB c (EdKey p signSeedA) (Sign p (EdKey p signSeedA) delMsg)))"
proof (intro conjI impI deriveKey_eq fingerprint_eq)
  assume "test_vectors p = Inr vs"
  then show "\<exists>pubA pubB kA kB c. X25519 p privSeedA (Basepoint p) = Some pubA \<and> X25519 p privSeedB (Basepoint p) = Some pubB \<and>
         DeriveKey p privSeedA pubB True = Some kA \<and> DeriveKey p privSeedB pubA False = Some kB \<and>
         Encrypt p (Some vec_nonce) kA vec_plaintext vec_aad = Some (c, vec_nonce) \<and>
         vs = vectors_of pubA pubB kA kB c (EdKey p signSeedA) (Sign p (EdKey p signSeedA) delMsg)"
    using deriveKey_eq [of p _ _ True] deriveKey_eq [of p _ _ False]
    by (auto simp: test_vectors_def Let_def key_info_def Encrypt_def Sign_def split: option.splits if_splits)
qed

theorem vectors_match_the_library_witness:
  "\<exists>vs k. test_vectors demo_prims = Inr vs \<and> length vs = 5 \<and>
     DeriveKey demo_prims privSeedA (add32 privSeedB (zeros 32)) True = Some k"
proof -
  obtain vs where vs: "test_vectors demo_prims = Inr vs"
    by (simp add: test_vectors_def deriveKey_def demo_prims_simps Let_def)
  then have "length vs = 5" by (auto simp: test_vectors_def vectors_of_def Let_def split: option.splits if_splits)
  moreover obtain k where "DeriveKey demo_prims privSeedA (add32 privSeedB (zeros 32)) True = Some k"
    using vectors_match_the_library [THEN conjunct2, THEN conjunct2, rule_format, OF vs] by (auto simp: demo_prims_simps)
  ultimately show ?thesis using vs by blast
qed

subsection \<open>What is on disk\<close>

text \<open>
  C38.  The identity is made once: the next start reads the same identity back and writes nothing, a file that exists is
  never written whatever it holds and whatever fails, and a crash while the new file is written leaves either
  no file or the complete one.
\<close>

theorem identity_is_kept:
  assumes "LoadOrCreate p False unreadable f (Some r1) r2 tmp path fs = (Inr (i, created), fs')" "tmp \<noteq> path"
    and "length r1 = 32" "\<And>s. length (EdKey p s) = 64"
  shows "LoadOrCreate p False False f' r1' r2' tmp' path fs' = (Inr (i, False), fs') \<and>
    (\<forall>sf o' g x y. fs path \<noteq> None \<longrightarrow> snd (LoadOrCreate p sf o' g x y tmp path fs) = fs) \<and>
    (\<forall>g s. created \<and> s \<in> set (SaveToFile g tmp path i fs) \<longrightarrow>
       s path = None \<or> LoadIdentity p (fst (the (s path))) = Some i)"
proof -
  have again: "LoadOrCreate p False False f' r1' r2' tmp' path fs' = (Inr (i, False), fs')"
  proof (cases created)
    case True
    with LoadOrCreate_again [of p unreadable f r1 r2 tmp path fs i fs'] assms show ?thesis by simp
  next
    case False
    with assms(1) show ?thesis by (auto simp: LoadOrCreate_def stat_def split: stat_result.splits option.splits if_splits)
  qed
  have crash: "s path = None \<or> LoadIdentity p (fst (the (s path))) = Some i"
    if "created" "s \<in> set (SaveToFile g tmp path i fs)" for g s
  proof -
    have "GenerateIdentity p (Some r1) r2 = Some i" "fs path = None"
      using assms(1) that(1) by (auto simp: LoadOrCreate_def stat_def split: stat_result.splits option.splits if_splits)
    with identity_file_round_trip [OF GenerateIdentity_ok [OF _ assms(3,4)]]
      write_atomic [OF assms(2) that(2) [unfolded SaveToFile_def]] show ?thesis by auto
  qed
  show ?thesis using again crash LoadOrCreate_keeps by blast
qed

theorem identity_is_kept_witness:
  "\<exists>i d. LoadOrCreate demo_prims False False AllFine (Some (zeros 32)) (Some []) ''t'' ''f'' (\<lambda>_. None) = (Inr (i, True), d) \<and>
     LoadOrCreate demo_prims False False AllFine None None ''t'' ''f'' d = (Inr (i, False), d)"
proof -
  obtain i d where e: "LoadOrCreate demo_prims False False AllFine (Some (zeros 32)) (Some []) ''t'' ''f'' (\<lambda>_. None) = (Inr (i, True), d)"
    by (simp add: LoadOrCreate_def stat_def GenerateIdentity_def) (simp add: demo_prims_def write_ok_def)
  have k: "length (EdKey demo_prims s) = 64" for s by (simp add: demo_prims_def)
  have "''t'' \<noteq> ''f''" by simp
  from identity_is_kept [OF e this length_zeros k] e show ?thesis by blast
qed

text \<open>
  C39.  Saving the client's state is atomic: wherever the program dies in it, the next start reads either the state of before or
  exactly the new one (for texts that are UTF-8), and no other file changes.
\<close>

theorem state_file_survives_crashes:
  assumes "statePath dir i = Some path" "tmp \<noteq> path" "state_ok st" "s \<in> set (saveState f tmp dir i st fs)"
  shows "(loadState dir False i s = loadState dir False i fs \<or>
      map_of (Outbox (loadState dir False i s)) = map_of (Outbox st) \<and>
      map_of (Contacts (loadState dir False i s)) = map_of (Contacts st)) \<and>
    (\<forall>x. x \<noteq> tmp \<and> x \<noteq> path \<longrightarrow> s x = fs x)"
proof -
  have s: "s \<in> set (write_states False f tmp path (encode_state st) fs)" using assms(1,4) by (simp add: saveState_def)
  from write_atomic [OF assms(2) s] show ?thesis
    using decode_encode_state [OF assms(3)] write_other [OF _ _ s] assms(1) by (auto simp: loadState_def)
qed

theorem state_file_survives_crashes_witness:
  "\<exists>q. last (saveState AllFine ''t'' (Some ''d'') demo_identity (empty_state\<lparr>Outbox := [(''h'', ''q'')]\<rparr>) (\<lambda>_. None)) = q \<and>
     map_of (Outbox (loadState (Some ''d'') False demo_identity q)) ''h'' \<in> {None, Some ''q''} \<and> q ''other'' = None"
proof -
  obtain path where p: "statePath (Some ''d'') demo_identity = Some path" and t: "''t'' \<noteq> path" "''other'' \<noteq> path"
    using statePath_eq [of "''d''" demo_identity] by (simp add: join_path_def)
  let ?st = "empty_state\<lparr>Outbox := [(''h'', ''q'')]\<rparr>"
  let ?l = "saveState AllFine ''t'' (Some ''d'') demo_identity ?st (\<lambda>_. None)"
  have "valid_utf8 ''h''" "valid_utf8 ''q''" by (rule runes_valid [OF runes_ascii], simp add: is_ascii_def)+
  from state_ok_outbox [OF state_ok_empty this] have ok: "state_ok ?st" by (simp add: empty_state_def)
  have "?l \<noteq> []" using p by (simp add: saveState_def write_states_def Let_def)
  then have "last ?l \<in> set ?l" by simp
  from state_file_survives_crashes [OF p t(1) ok this]
  show ?thesis using p t by (auto simp: loadState_def empty_state_def)
qed

text \<open>
  C40.  When a chat begins, the relay has confirmed the subscription to a valid queue of an accepted link, the contact
  is in the book on disk with that link and this moment, and the client's own queue is remembered: at the next
  start on the same server it is used again, without a request, so the link stays the same.
\<close>

theorem started_chat_is_on_record:
  assumes "runChat c link srv mq w = Ret (Inr s, w')" "peer_arg c link = Inr peer"
    and "choose_server (map_option fst peer) srv = (host, port)" "valid_utf8 host" "validQID (my_queue s)"
    and "valid_utf8 link" "\<forall>l \<in> set (typed w). valid_utf8 (TrimSpace l)" "\<not> state_unreadable c 2" "\<And>n. int64_range (wall c n)"
    and "\<And>path n. statePath (config_dir c) (me s) = Some path \<Longrightarrow> state_tmp c n \<noteq> path"
  shows "ValidQueueID (peer_queue s) \<and> sendq s = new_client \<and> seen s = [] \<and>
    (\<exists>e. Parse (last (sent w')) = Inr e \<and> Typ e = TypeSub \<and> QueueID e = peer_queue s) \<and>
    (\<exists>raw p x. ParseInvite (ip_literal c) raw = Inr p \<and> IQueueID p = peer_queue s \<and>
       map_of (Contacts (loadState (config_dir c) False (me s) (files w'))) (fpHex (IBoxPub p)) = Some (Some x) \<and>
       CInviteURL x = raw \<and> LastSeen x = wall c 2) \<and>
    (\<forall>c' v. config_dir c' = config_dir c \<and> \<not> state_unreadable c' 0 \<and> files v = files w' \<longrightarrow>
       pick_outbox c' (me s) host [] v = (Inr (my_queue s), v))"
proof -
  obtain i w1 peer' host' port' w2 p raw s0 w3 where "loadMyIdentity c w = (Inr i, w1)" and srv: "peer_arg c link = Inr peer'"
    "choose_server (map_option fst peer') srv = (host', port')" and "dials c (buildWSURL host' port')"
    and q': "pick_outbox c i host' mq w1 = (Inr (my_queue s), w2)" and p: "ParseInvite (ip_literal c) raw = Inr p"
    and sb: "subscribe c s0 p raw w3 = Ret (Inr s, w')" "files w3 = files w2" "me s0 = i" "me s = i" "peer_queue s = IQueueID p"
    and rest: "seen s = []" "sendq s = new_client" "valid_utf8 raw"
    by (rule runChat_Inr [OF assms(1,6,7)])
  have q: "pick_outbox c i host mq w1 = (Inr (my_queue s), w2)" using q' srv assms(2,3) by simp
  have v: "ValidQueueID (peer_queue s)" using ParseInvite_InrD [OF p] sb(5) by simp
  obtain data where d: "frame_of (wall c 1) TypeSub (IQueueID p) [] NoPayload = Some data" "sent w' = sent w3 @ [data]"
    using subscribe_Inr(2) [OF sb(1)] by (auto simp: bare_envelope_frame)
  have A: "\<exists>e. Parse (last (sent w')) = Inr e \<and> Typ e = TypeSub \<and> QueueID e = peer_queue s"
    using frame_of_Parse [OF _ assms(9) _ d(1)] d(2) ValidQueueID_utf8 [OF v] sb(5) by simp
  note saved = subscribe_saved [OF sb(1) assms(8) rest(3) assms(9), unfolded sb(2,3)]
  have o: "map_of (Outbox (loadState (config_dir c) False i (files w'))) host = Some (my_queue s)"
    using saved(2) pick_outbox_saved [OF q assms(5,4)] assms(10) sb(4) by simp
  have B: "\<forall>c' v. config_dir c' = config_dir c \<and> \<not> state_unreadable c' 0 \<and> files v = files w' \<longrightarrow>
       pick_outbox c' (me s) host [] v = (Inr (my_queue s), v)"
    using pick_outbox_again [OF _ assms(5)] o sb(4) by simp
  have "\<exists>x. map_of (Contacts (loadState (config_dir c) False (me s) (files w'))) (fpHex (IBoxPub p)) = Some (Some x) \<and>
      CInviteURL x = raw \<and> LastSeen x = wall c 2"
    using saved(1) assms(10) sb(4) by simp
  then have C: "\<exists>raw p x. ParseInvite (ip_literal c) raw = Inr p \<and> IQueueID p = peer_queue s \<and>
       map_of (Contacts (loadState (config_dir c) False (me s) (files w'))) (fpHex (IBoxPub p)) = Some (Some x) \<and>
       CInviteURL x = raw \<and> LastSeen x = wall c 2"
    using p sb(5) [symmetric] by blast
  show ?thesis by (intro conjI v rest A B C)
qed

definition demo_setting :: setting where
  "demo_setting = \<lparr>curves = demo_prims, ip_literal = (\<lambda>_. None), knock_identity = ''id'', config_dir = Some ''d'',
     stat_fails = False, open_fails = False, id_fault = AllFine, id_tmp = ''it'', rnd_box = Some (zeros 32), rnd_sign = Some [],
     state_unreadable = (\<lambda>_. False), state_fault = (\<lambda>_. AllFine), state_tmp = (\<lambda>_. ''t''),
     dials = (\<lambda>_. True), write_breaks = (\<lambda>_. False), wall = (\<lambda>_. 100)\<rparr>"

definition demo_world :: world where
  "demo_world = \<lparr>files = (\<lambda>_. None), typed = [], arriving = [the (frame_of 100 TypeSubOk demo_qid [] NoPayload)], sent = [], links = []\<rparr>"

lemma demo_setting_simps [simp]:
  "ip_literal demo_setting = (\<lambda>_. None)" "config_dir demo_setting = Some ''d''" "state_unreadable demo_setting n = False"
  "state_fault demo_setting n = AllFine" "state_tmp demo_setting n = ''t''" "dials demo_setting u" "write_breaks demo_setting n = False"
  "wall demo_setting n = 100" "typed demo_world = []"
  by (simp_all add: demo_setting_def demo_world_def)

lemma demo_qid2_valid: "validQID demo_qid2" "demo_qid2 \<noteq> []"
  by (simp_all add: validQID_def demo_qid2_def list_all_iff is_lower_hex_def)

lemma demo_statePath:
  obtains path where "statePath (Some ''d'') i = Some path" "path \<noteq> ''t''" "path \<noteq> ''it''" "path \<noteq> ''id''"
  using statePath_eq [of "''d''" i] that by (simp add: join_path_def)

lemma demo_identity_start:
  obtains i d where "loadMyIdentity demo_setting demo_world = (Inr i, demo_world\<lparr>files := d\<rparr>)" "\<forall>x. x \<noteq> ''it'' \<and> x \<noteq> ''id'' \<longrightarrow> d x = None"
    "length (BoxPub i) = 32"
proof -
  obtain i where i: "GenerateIdentity demo_prims (Some (zeros 32)) (Some []) = Some i" "length (BoxPub i) = 32"
    by (simp add: GenerateIdentity_def demo_prims_def)
  let ?l = "SaveToFile AllFine ''it'' ''id'' i (\<lambda>_. None)"
  have "?l \<noteq> []" by (simp add: SaveToFile_def write_states_def Let_def)
  then have l: "last ?l \<in> set ?l" by simp
  show thesis
  proof (rule that)
    show "loadMyIdentity demo_setting demo_world = (Inr i, demo_world\<lparr>files := last ?l\<rparr>)"
      using i(1) by (simp add: loadMyIdentity_def DefaultPath_def LoadOrCreate_def stat_def demo_setting_def write_ok_def)
        (simp add: demo_world_def)
    show "\<forall>x. x \<noteq> ''it'' \<and> x \<noteq> ''id'' \<longrightarrow> last ?l x = None"
      using write_other [OF _ _ l [unfolded SaveToFile_def]] unfolding SaveToFile_def by simp
  qed (rule i(2))
qed

lemma demo_sub_ok: "await TypeSubOk (arriving demo_world) = (Inr \<lparr>Version = 1, Typ = TypeSubOk, QueueID = demo_qid, MsgID = [], TS = 100,
    Payload = Some (payload_text NoPayload)\<rparr>, [])"
proof -
  have n: "int64_range 100" by (simp add: int64_range_def)
  obtain f where f: "frame_of 100 TypeSubOk demo_qid [] NoPayload = Some f" using frame_of_sendable [of NoPayload] by simp
  have "Parse f = Inr \<lparr>Version = 1, Typ = TypeSubOk, QueueID = demo_qid, MsgID = [], TS = 100, Payload = Some (payload_text NoPayload)\<rparr>"
    using frame_of_Parse [OF _ n _ f] ValidQueueID_utf8 [of demo_qid] by simp
  moreover have "TypeSubOk \<noteq> TypeError" by (simp add: proto_simps)
  ultimately show ?thesis by (simp add: demo_world_def f)
qed

lemma demo_start:
  "\<exists>s w'. runChat demo_setting (Invite_String demo_invite) [] demo_qid2 demo_world = Ret (Inr s, w') \<and> my_queue s = demo_qid2"
proof -
  obtain i d where i: "loadMyIdentity demo_setting demo_world = (Inr i, demo_world\<lparr>files := d\<rparr>)" "\<forall>x. x \<noteq> ''it'' \<and> x \<noteq> ''id'' \<longrightarrow> d x = None"
    by (rule demo_identity_start)
  obtain path where p: "statePath (Some ''d'') i = Some path" "path \<noteq> ''t''" "path \<noteq> ''it''" "path \<noteq> ''id''" by (rule demo_statePath)
  have st: "loadState (Some ''d'') False i d = empty_state" using p i(2) by (simp add: loadState_def)
  have ok: "saved_ok AllFine (Some ''d'') i" using p(1) by (simp add: saved_ok_def write_ok_def)
  let ?st = "empty_state\<lparr>Outbox := AList.update ''h'' demo_qid2 (Outbox empty_state)\<rparr>"
  let ?d2 = "last (saveState AllFine ''t'' (Some ''d'') i ?st d)"
  have "valid_utf8 ''h''" by (rule runes_valid [OF runes_ascii]) (simp add: is_ascii_def)
  from state_ok_outbox [OF state_ok_empty this validQID_utf8 [OF demo_qid2_valid(1)]]
  have "map_of (Contacts (loadState (Some ''d'') False i ?d2)) = map_of (Contacts ?st)"
    using p by (intro load_after_save(2) [OF ok]) auto
  then have "map_of (Contacts (loadState (Some ''d'') False i ?d2)) x = None" for x by (simp add: empty_state_def)
  then obtain st2 where u: "upsert 100 demo_invite (Invite_String demo_invite) (loadState (Some ''d'') False i ?d2) = Ret st2"
    by (simp add: upsert_def Let_def)
  obtain data where m: "marshal_envelope (bare_envelope 100 TypeSub (IQueueID demo_invite)) = Some data"
    using frame_of_sendable [of NoPayload] by (simp add: bare_envelope_frame)
  have pe: "peer_arg demo_setting (Invite_String demo_invite) = Inr (Some (demo_invite, Invite_String demo_invite))"
    using demo_invite_parses [of "\<lambda>_. None"] Invite_String_eq [OF demo_invite_printable(1)] by (simp add: peer_arg_def)
  have h: "choose_server (Some demo_invite) [] = (''h'', 8080)" by (simp add: choose_server_def demo_invite_def)
  have q: "pick_outbox demo_setting i ''h'' demo_qid2 (demo_world\<lparr>files := d\<rparr>) = (Inr demo_qid2, demo_world\<lparr>files := ?d2\<rparr>)"
    using demo_qid2_valid st ok by (simp add: pick_outbox_def keep_queue_def) (simp add: empty_state_def)
  show ?thesis
    using u m ok demo_sub_ok
    by (simp add: runChat_def i(1) pe h q meet_def subscribe_def request_def upsertContact_def Let_def new_session_def)
qed

theorem started_chat_is_on_record_witness:
  "\<exists>s w'. runChat demo_setting (Invite_String demo_invite) [] demo_qid2 demo_world = Ret (Inr s, w') \<and>
     ValidQueueID (peer_queue s) \<and> pick_outbox demo_setting (me s) ''h'' [] w' = (Inr demo_qid2, w')"
proof -
  obtain s w' where r: "runChat demo_setting (Invite_String demo_invite) [] demo_qid2 demo_world = Ret (Inr s, w')" "my_queue s = demo_qid2"
    using demo_start by blast
  have pe: "peer_arg demo_setting (Invite_String demo_invite) = Inr (Some (demo_invite, Invite_String demo_invite))"
    using demo_invite_parses [of "\<lambda>_. None"] Invite_String_eq [OF demo_invite_printable(1)] by (simp add: peer_arg_def)
  have h: "choose_server (map_option fst (Some (demo_invite, Invite_String demo_invite))) [] = (''h'', 8080)"
    by (simp add: choose_server_def demo_invite_def)
  have u: "valid_utf8 ''h''" by (rule runes_valid [OF runes_ascii]) (simp add: is_ascii_def)
  have l: "valid_utf8 (Invite_String demo_invite)"
  proof (rule runes_valid [OF runes_ascii])
    have "list_all is_ascii (link_authority demo_invite) \<and> list_all is_ascii (link_query demo_invite) \<and> list_all is_ascii (IQueueID demo_invite)"
    proof -
      have "link_char c \<Longrightarrow> is_ascii c" for c
        by (auto simp: link_char_def is_ascii_def is_alnum_def is_letter_def is_dec_digit_def)
      then show ?thesis
        using authority_chars(1) [OF demo_invite_printable(1)] query_chars [of demo_invite] hex_ascii [of demo_qid] demo_qid_facts(1)
        by (auto simp: list_all_iff ValidQueueID_iff demo_invite_def)
    qed
    then show "list_all is_ascii (Invite_String demo_invite)"
      unfolding Invite_String_eq [OF demo_invite_printable(1)] by (simp add: is_ascii_def)
  qed
  have v: "validQID (my_queue s)" using demo_qid2_valid r(2) by simp
  have n: "int64_range (wall demo_setting n)" for n by (simp add: int64_range_def)
  have t: "statePath (config_dir demo_setting) (me s) = Some path \<Longrightarrow> state_tmp demo_setting n \<noteq> path" for path n
    using demo_statePath [of "me s"] by (metis demo_setting_simps(2,5) option.inject)
  have y: "\<forall>l \<in> set (typed demo_world). valid_utf8 (TrimSpace l)" "\<not> state_unreadable demo_setting 2" by simp_all
  from started_chat_is_on_record [OF r(1) pe h u v l y n t] r show ?thesis by auto
qed

subsection \<open>Behaviours a user should know\<close>

text \<open>A nil contact in the state file, or one with a short fingerprint, ends the program when contacts are listed.\<close>

lemma nil_contact_panics: "(k, None) \<in> set (Contacts st) \<Longrightarrow> is_panic (sortedContacts st)"
  by (auto simp: sortedContacts_def)

lemma short_fingerprint_panics: "c \<in> set cs \<Longrightarrow> length (CFingerprint c) < 8 \<Longrightarrow> is_panic (pick_peer ipl cs ls)"
  by (auto simp: pick_peer_panics listing_panics_def)

text \<open>After the connection is gone the notice says that Enter leaves; an empty line keeps the loop going.\<close>

lemma enter_does_not_leave:
  assumes "client_step s ReadEnds s1" "client_step s1 (Line now r []) s2"
  shows "typing s2 \<and> \<not> conn_open s2"
proof -
  have "strip ws [] = []" for ws using strip_prefix [of "[]" ws] by simp
  then have "TrimSpace [] = []" by (simp add: TrimSpace_def)
  moreover have "typing s1" "s2 = line_turn now r [] s1" using assms(2) by (auto simp: line_step_iff)
  moreover have "\<not> conn_open s1" using assms(1) by (cases rule: client_stepE) auto
  ultimately show ?thesis by (simp add: line_turn_def)
qed

text \<open>A DELIVER whose payload does not decode counts as seen, and is never acknowledged.\<close>

lemma undecodable_delivery_is_lost:
  assumes "Parse f = Inr e" "Typ e = TypeDeliver" "snd (decode_chat e)"
  shows "fst (receive sn f) = Ignored \<and> MsgID e \<in> set (snd (receive sn f))"
  using assms by (auto simp: receive_def split: prod.split)

end
