(* ===== verification/Client_Main.thy ===== *)
theory Client_Main
  imports Client_Session_Facts
begin

text \<open>
  \<open>main\<close> of \<open>client/main.go\<close>: the command line, read with Go's \<open>flag\<close> package (\<open>ExitOnError\<close>, two string
  options), the dispatch to \<open>runNew\<close> and \<open>runChat\<close>, and how the program ends.
\<close>

subsection \<open>Options\<close>

record options =
  server :: string
  queue :: string

definition no_options :: options where
  "no_options = \<lparr>server = [], queue = []\<rparr>"

datatype flag_stop = HelpWanted | BadSyntax | UnknownFlag string | NeedsArgument string

definition known_flag :: "string \<Rightarrow> bool" where
  "known_flag n \<longleftrightarrow> n = ''server'' \<or> n = ''queue''"

definition set_flag :: "string \<Rightarrow> string \<Rightarrow> options \<Rightarrow> options" where
  "set_flag n v f = (if n = ''server'' then f\<lparr>server := v\<rparr> else f\<lparr>queue := v\<rparr>)"

text \<open>An argument that ends the options: too short, or without a leading hyphen.\<close>

definition positional :: "string \<Rightarrow> bool" where
  "positional s \<longleftrightarrow> length s < 2 \<or> hd s \<noteq> CHR ''-''"

text \<open>What follows the one or two hyphens, and its part before an equals sign.\<close>

definition flag_body :: "string \<Rightarrow> string" where
  "flag_body s = (if s ! 1 = CHR ''-'' then drop 2 s else drop 1 s)"

definition flag_name :: "string \<Rightarrow> string" where
  "flag_name body = takeWhile (\<lambda>c. c \<noteq> CHR ''='') body"

definition bad_body :: "string \<Rightarrow> bool" where
  "bad_body body \<longleftrightarrow> body = [] \<or> hd body = CHR ''-'' \<or> hd body = CHR ''=''"

text \<open>\<open>fs.Parse\<close>: the options and what is left, or why it stopped the program.\<close>

fun parse_flags :: "string list \<Rightarrow> options \<Rightarrow> flag_stop + options \<times> string list" where
  "parse_flags [] f = Inr (f, [])"
| "parse_flags (s # ss) f =
     (if positional s then Inr (f, s # ss)
      else if s = ''--'' then Inr (f, ss)
      else let body = flag_body s; name = flag_name body
           in if bad_body body then Inl BadSyntax
              else if \<not> known_flag name then Inl (if name = ''help'' \<or> name = ''h'' then HelpWanted else UnknownFlag name)
              else if name \<noteq> body then parse_flags ss (set_flag name (drop (length name + 1) body) f)
              else case ss of
                     [] \<Rightarrow> Inl (NeedsArgument name)
                   | v # rest \<Rightarrow> parse_flags rest (set_flag name v f))"

subsection \<open>The program\<close>

datatype ending =
    ShowsUsage
  | FlagsRefused flag_stop
  | Failed chat_error
  | PrintedLink string
  | Chats session

text \<open>The status the process ends with (a chat that was started ends with 0, when its keyboard loop does).\<close>

definition exit_status :: "ending \<Rightarrow> nat" where
  "exit_status x =
     (case x of
        ShowsUsage \<Rightarrow> 1
      | FlagsRefused s \<Rightarrow> if s = HelpWanted then 0 else 2
      | Failed _ \<Rightarrow> 1
      | PrintedLink _ \<Rightarrow> 0
      | Chats _ \<Rightarrow> 0)"

definition main_new :: "setting \<Rightarrow> string list \<Rightarrow> world \<Rightarrow> ending \<times> world" where
  "main_new c args w =
     (case runNew c (case args of [] \<Rightarrow> [] | a # _ \<Rightarrow> a) w of
        (Inl e, w') \<Rightarrow> (Failed e, w')
      | (Inr link, w') \<Rightarrow> (PrintedLink link, w'))"

definition main_chat :: "setting \<Rightarrow> string list \<Rightarrow> world \<Rightarrow> (unit, ending \<times> world) outcome" where
  "main_chat c args w =
     (case parse_flags args no_options of
        Inl e \<Rightarrow> Ret (FlagsRefused e, w)
      | Inr (f, rest) \<Rightarrow>
          bind_outcome (runChat c (case rest of [] \<Rightarrow> [] | a # _ \<Rightarrow> a) (server f) (queue f) w)
            (\<lambda>(r, w'). Ret (case r of Inl e \<Rightarrow> Failed e | Inr s \<Rightarrow> Chats s, w')))"

text \<open>\<open>args\<close> is \<open>os.Args\<close>.\<close>

definition client_main :: "setting \<Rightarrow> string list \<Rightarrow> world \<Rightarrow> (unit, ending \<times> world) outcome" where
  "client_main c args w =
     (case args of
        prog # cmd # rest \<Rightarrow>
          (if cmd = ''new'' then Ret (main_new c rest w)
           else if cmd = ''chat'' then main_chat c rest w
           else Ret (ShowsUsage, w))
      | _ \<Rightarrow> Ret (ShowsUsage, w))"

subsection \<open>What the options mean\<close>

lemma known_flag_simps [simp]: "known_flag ''server''" "known_flag ''queue''"
  by (simp_all add: known_flag_def)

lemma set_flag_simps [simp]:
  "server (set_flag n v f) = (if n = ''server'' then v else server f)"
  "queue (set_flag n v f) = (if n = ''server'' then queue f else v)"
  by (simp_all add: set_flag_def)

lemma positional_stops [simp]: "positional s \<Longrightarrow> parse_flags (s # ss) f = Inr (f, s # ss)"
  by simp

text \<open>An option with its value in the next argument, or after an equals sign; one hyphen or two.\<close>

lemma known_flag_body:
  assumes "known_flag n" "h = ''-'' \<or> h = ''--''"
  shows "\<not> positional (h @ n @ r)" "h @ n @ r \<noteq> ''--''" "flag_body (h @ n @ r) = n @ r" "\<not> bad_body (n @ r)"
  using assms by (auto simp: known_flag_def positional_def flag_body_def bad_body_def)

lemma known_flag_name:
  assumes "known_flag n"
  shows "flag_name n = n" "flag_name (n @ CHR ''='' # v) = n"
  using assms by (auto simp: known_flag_def flag_name_def)

lemma flag_next_argument:
  assumes "known_flag n" "h = ''-'' \<or> h = ''--''"
  shows "parse_flags ((h @ n) # v # ss) f = parse_flags ss (set_flag n v f)"
  using known_flag_body [OF assms, of "[]"] known_flag_name [OF assms(1)] assms(1) by (subst parse_flags.simps) (simp add: Let_def del: parse_flags.simps)

lemma flag_with_equals:
  assumes "known_flag n" "h = ''-'' \<or> h = ''--''"
  shows "parse_flags ((h @ n @ CHR ''='' # v) # ss) f = parse_flags ss (set_flag n v f)"
  using known_flag_body [OF assms, of "CHR ''='' # v"] known_flag_name [OF assms(1)] assms(1)
  by (subst parse_flags.simps) (simp add: Let_def del: parse_flags.simps)

text \<open>Any sequence of options is folded from the left: the last value of each counts.\<close>

definition option_args :: "(string \<times> string) list \<Rightarrow> string list" where
  "option_args os = concat (map (\<lambda>(n, v). [CHR ''-'' # n, v]) os)"

lemma parse_options:
  assumes "\<forall>(n, v) \<in> set os. known_flag n"
  shows "parse_flags (option_args os @ ss) f = parse_flags ss (fold (\<lambda>(n, v). set_flag n v) os f)"
  using assms
proof (induction os arbitrary: f)
  case (Cons x os)
  obtain n v where x: "x = (n, v)" by (cases x)
  with Cons.prems have "known_flag n" by simp
  from flag_next_argument [OF this, of "''-''"] Cons show ?case by (simp add: option_args_def x del: parse_flags.simps)
qed (simp add: option_args_def)

lemma main_chat_options:
  assumes "\<forall>(n, v) \<in> set os. known_flag n" "positional link"
  shows "main_chat c (option_args os @ link # ignored) w =
    (let f = fold (\<lambda>(n, v). set_flag n v) os no_options in
     bind_outcome (runChat c link (server f) (queue f) w)
       (\<lambda>(r, w'). Ret (case r of Inl e \<Rightarrow> Failed e | Inr s \<Rightarrow> Chats s, w')))"
  by (simp add: main_chat_def parse_options [OF assms(1)] assms(2) Let_def del: parse_flags.simps)

text \<open>Nothing is touched unless the command is one of the two and its options are well formed.\<close>

lemma refused_command_line:
  assumes "client_main c args w = Ret (x, w')" "x = ShowsUsage \<or> (\<exists>e. x = FlagsRefused e)"
  shows "w' = w"
proof -
  have "main_new c rest w \<noteq> (x, w')" for rest
    using assms(2) by (auto simp: main_new_def split: sum.split prod.split)
  moreover have "w' = w" if "main_chat c rest w = Ret (x, w')" for rest
    using assms(2) that
    by (auto simp: main_chat_def bind_outcome_eq_Ret split: sum.splits prod.splits) (metis sum.exhaust)+
  ultimately show ?thesis using assms(1) by (auto simp: client_main_def split: list.splits if_splits)
qed

text \<open>Status 0 means: help was asked for, a link was printed, or a chat ran.\<close>

lemma exit_status_zero:
  "exit_status x = 0 \<longleftrightarrow> x = FlagsRefused HelpWanted \<or> (\<exists>l. x = PrintedLink l) \<or> (\<exists>s. x = Chats s)"
  by (cases x) (auto simp: exit_status_def)

subsection \<open>The examples of the usage text\<close>

text \<open>
  The link of the last example has the old form, which every client refuses: the path must be the version and the queue.
\<close>

definition usage_link :: string where
  "usage_link = ''knock://my-tunnel.trycloudflare.com/abcd1234''"

lemma usage_link_refused: "ParseInvite ipl usage_link = Inl OldFormat"
  by code_simp

lemma usage_example_fails:
  assumes "loadMyIdentity c w = (Inr i, w1)"
  shows "client_main c [prog, ''chat'', usage_link] w = Ret (Failed (BadPeerLink OldFormat), w1)"
proof -
  have "positional usage_link" "usage_link \<noteq> []" by (simp_all add: positional_def usage_link_def)
  with main_chat_options [of "[]" usage_link c "[]" w] assms show ?thesis
    by (simp add: client_main_def option_args_def runChat_def peer_arg_def usage_link_refused)
qed

text \<open>And \<open>new\<close> has no options: with the \<open>-server\<close> the text shows, it dials a host of that name.\<close>

lemma new_takes_no_options:
  "main_new c (''-server'' # addr # rest) w = main_new c [''-server''] w"
  by (simp add: main_new_def)

end
