(* ===== verification/Contact_List.thy ===== *)
theory Contact_List
  imports Client_Session_Facts Client_Pumps
begin

text \<open>
  What \<open>runChat\<close> of \<open>client/session.go\<close> prints before it reads a choice: the list of contacts with \<open>formatTime\<close>, and the prompt.  The
  local time zone is a parameter, the offset in seconds at a given time.
\<close>

subsection \<open>The calendar\<close>

text \<open>\<open>time.Time\<close>: days of the proleptic Gregorian calendar, counted from 1 January of year 0, in cycles of 400 years.\<close>

definition leap :: "nat \<Rightarrow> bool" where
  "leap y \<longleftrightarrow> y mod 4 = 0 \<and> (y mod 100 \<noteq> 0 \<or> y mod 400 = 0)"

definition year_days :: "nat \<Rightarrow> nat" where
  "year_days y = (if leap y then 366 else 365)"

definition month_days :: "nat \<Rightarrow> nat list" where
  "month_days y = [31, if leap y then 29 else 28, 31, 30, 31, 30, 31, 31, 30, 31, 30, 31]"

text \<open>The year of a day counted from 1 January of year \<open>y\<close>, the month of a day of the year; and what is left.\<close>

lemma year_days_pos: "0 < year_days y"
  by (simp add: year_days_def)

function year_of :: "nat \<Rightarrow> nat \<Rightarrow> nat \<times> nat" where
  "year_of y d = (if d < year_days y then (y, d) else year_of (y + 1) (d - year_days y))"
  by auto
termination
proof (relation "measure snd")
  fix y d assume "\<not> d < year_days y"
  then show "((y + 1, d - year_days y), y, d) \<in> measure snd" using year_days_pos [of y] by simp
qed simp

declare year_of.simps [simp del]

fun month_of :: "nat list \<Rightarrow> nat \<Rightarrow> nat \<times> nat" where
  "month_of [] d = (0, d)"
| "month_of (n # ns) d = (if d < n then (0, d) else (let (i, r) = month_of ns (d - n) in (Suc i, r)))"

definition epoch_day :: int where "epoch_day = 719528"

text \<open>Year in its cycle, month and day, both from 0.\<close>

definition civil :: "int \<Rightarrow> nat \<times> nat \<times> nat" where
  "civil day = (let (y, d) = year_of 0 (nat ((day + epoch_day) mod 146097)) in (y, month_of (month_days y) d))"

definition two_digits :: "nat \<Rightarrow> string" where
  "two_digits n = (if n < 10 then ''0'' else []) @ show_nat n"

definition never :: string where
  "never = [CHR 0xE4, CHR 0xBB, CHR 0x8E, CHR 0xE6, CHR 0x9C, CHR 0xAA]"

definition formatTime :: "(int \<Rightarrow> int) \<Rightarrow> int \<Rightarrow> string" where
  "formatTime zone unix =
     (if unix = 0 then never
      else let t = unix + zone unix; s = nat (t mod 86400); (y, m, d) = civil (t div 86400) in
           two_digits (m + 1) @ ''-'' @ two_digits (d + 1) @ '' '' @ two_digits (s div 3600) @ '':'' @ two_digits (s mod 3600 div 60))"

subsection \<open>The list and the prompt\<close>

definition list_title :: string where
  "list_title = [CHR 0xE8, CHR 0x81, CHR 0x94, CHR 0xE7, CHR 0xB3, CHR 0xBB, CHR 0xE4, CHR 0xBA, CHR 0xBA, CHR 0xE5,
     CHR 0x88, CHR 0x97, CHR 0xE8, CHR 0xA1, CHR 0xA8, CHR 0x3A, CHR 0x0A]"

definition last_time :: string where
  "last_time = [CHR 0x20, CHR 0x20, CHR 0xE4, CHR 0xB8, CHR 0x8A, CHR 0xE6, CHR 0xAC, CHR 0xA1, CHR 0x3A, CHR 0x20]"

definition choose_prompt :: string where
  "choose_prompt = [CHR 0xE5, CHR 0x9B, CHR 0x9E, CHR 0xE8, CHR 0xBD, CHR 0xA6, CHR 0x3D, CHR 0xE7, CHR 0xBB, CHR 0xA7,
     CHR 0xE7, CHR 0xBB, CHR 0xAD, CHR 0xE4, CHR 0xB8, CHR 0x8A, CHR 0xE6, CHR 0xAC, CHR 0xA1, CHR 0x20,
     CHR 0x5B, CHR 0x31, CHR 0x5D, CHR 0xEF, CHR 0xBC, CHR 0x8C, CHR 0xE5, CHR 0xBA, CHR 0x8F, CHR 0xE5,
     CHR 0x8F, CHR 0xB7, CHR 0x3D, CHR 0xE9, CHR 0x80, CHR 0x89, CHR 0xE4, CHR 0xBA, CHR 0xBA, CHR 0xEF,
     CHR 0xBC, CHR 0x8C, CHR 0xE7, CHR 0xB2, CHR 0x98, CHR 0xE8, CHR 0xB4, CHR 0xB4, CHR 0xE6, CHR 0x96,
     CHR 0xB0, CHR 0xE9, CHR 0x93, CHR 0xBE, CHR 0xE6, CHR 0x8E, CHR 0xA5, CHR 0x3D, CHR 0xE6, CHR 0x96,
     CHR 0xB0, CHR 0xE8, CHR 0x81, CHR 0x94, CHR 0xE7, CHR 0xB3, CHR 0xBB, CHR 0xE4, CHR 0xBA, CHR 0xBA,
     CHR 0x3A, CHR 0x20]"

definition paste_prompt :: string where
  "paste_prompt = [CHR 0xE6, CHR 0x8A, CHR 0x8A, CHR 0xE5, CHR 0xAF, CHR 0xB9, CHR 0xE6, CHR 0x96, CHR 0xB9, CHR 0xE5,
     CHR 0x8F, CHR 0x91, CHR 0xE7, CHR 0x9A, CHR 0x84, CHR 0xE9, CHR 0x82, CHR 0x80, CHR 0xE8, CHR 0xAF,
     CHR 0xB7, CHR 0xE9, CHR 0x93, CHR 0xBE, CHR 0xE6, CHR 0x8E, CHR 0xA5, CHR 0xE7, CHR 0xB2, CHR 0x98,
     CHR 0xE8, CHR 0xB4, CHR 0xB4, CHR 0xE5, CHR 0x88, CHR 0xB0, CHR 0xE8, CHR 0xBF, CHR 0x99, CHR 0xE9,
     CHR 0x87, CHR 0x8C, CHR 0xEF, CHR 0xBC, CHR 0x8C, CHR 0xE5, CHR 0x9B, CHR 0x9E, CHR 0xE8, CHR 0xBD,
     CHR 0xA6, CHR 0x3A, CHR 0x20]"

definition contact_line :: "(int \<Rightarrow> int) \<Rightarrow> nat \<Rightarrow> contact \<Rightarrow> (unit, string) outcome" where
  "contact_line zone i c =
     (if length (CFingerprint c) < 8 then Panic ()
      else Ret (''  ['' @ show_nat i @ ''] '' @ (if Alias c = [] then ''-'' else Alias c) @ '' ('' @ take 8 (CFingerprint c) @
        '')'' @ last_time @ formatTime zone (LastSeen c) @ newline))"

fun contact_lines :: "(int \<Rightarrow> int) \<Rightarrow> nat \<Rightarrow> contact list \<Rightarrow> (unit, string) outcome" where
  "contact_lines zone i [] = Ret []"
| "contact_lines zone i (c # cs) =
     bind_outcome (contact_line zone i c) (\<lambda>t. bind_outcome (contact_lines zone (i + 1) cs) (\<lambda>r. Ret (t @ r)))"

definition contact_screen :: "(int \<Rightarrow> int) \<Rightarrow> contact list \<Rightarrow> (unit, string) outcome" where
  "contact_screen zone cs =
     (if cs = [] then Ret paste_prompt
      else bind_outcome (contact_lines zone 1 cs) (\<lambda>ls. Ret (list_title @ ls @ choose_prompt)))"

subsection \<open>Facts\<close>

lemma year_of_sound:
  "year_of y d = (z, r) \<Longrightarrow> y \<le> z \<and> r < year_days z \<and> d = sum_list (map year_days [y..<z]) + r"
proof (induction y d rule: year_of.induct)
  case (1 y d)
  show ?case
  proof (cases "d < year_days y")
    case False
    with 1 have "y + 1 \<le> z" "r < year_days z" "d - year_days y = sum_list (map year_days [y + 1..<z]) + r"
      by (simp_all add: year_of.simps [of y])
    moreover from this have "[y..<z] = y # [y + 1..<z]" by (simp add: upt_conv_Cons)
    ultimately show ?thesis using False by simp
  qed (use "1.prems" in \<open>simp add: year_of.simps [of y]\<close>)
qed

lemma month_of_sound:
  "d < sum_list ns \<Longrightarrow> month_of ns d = (i, r) \<Longrightarrow> i < length ns \<and> r < ns ! i \<and> d = sum_list (take i ns) + r"
proof (induction ns arbitrary: d i r)
  case (Cons n ns)
  show ?case
  proof (cases "d < n")
    case False
    obtain j q where p: "month_of ns (d - n) = (j, q)" by fastforce
    with Cons.prems False have d: "d - n < sum_list ns" "i = Suc j" "r = q" by auto
    from Cons.IH [OF d(1) p] have j: "j < length ns" "q < ns ! j" "d - n = sum_list (take j ns) + q" by simp_all
    with False have "d = n + (sum_list (take j ns) + q)" by linarith
    with j(1,2) d(2,3) show ?thesis by simp
  qed (use Cons.prems in simp)
qed simp

text \<open>The date is one: month and day exist in that year, and counting the days back gives the day it came from.\<close>

lemma civil_sound:
  assumes "civil day = (y, m, d)"
  shows "m < 12" "d < month_days y ! m"
    and "(day + epoch_day) mod 146097 = int (sum_list (map year_days [0..<y]) + sum_list (take m (month_days y)) + d)"
proof -
  let ?n = "nat ((day + epoch_day) mod 146097)"
  obtain r where p: "year_of 0 ?n = (y, r)" "month_of (month_days y) r = (m, d)"
    using assms by (auto simp: civil_def split: prod.splits)
  from year_of_sound [OF p(1)] have y: "r < year_days y" "?n = sum_list (map year_days [0..<y]) + r" by simp_all
  have "sum_list (month_days y) = year_days y" by (simp add: month_days_def year_days_def)
  with y(1) have "r < sum_list (month_days y)" by simp
  from month_of_sound [OF this p(2)] have m: "m < length (month_days y)" "d < month_days y ! m"
    "r = sum_list (take m (month_days y)) + d" by simp_all
  show "m < 12" "d < month_days y ! m" using m by (simp_all add: month_days_def)
  have "int ?n = int (sum_list (map year_days [0..<y]) + sum_list (take m (month_days y)) + d)" using y(2) m(3) by simp
  then show "(day + epoch_day) mod 146097 = int (sum_list (map year_days [0..<y]) + sum_list (take m (month_days y)) + d)"
    by simp
qed

lemma two_digits_length: "n < 100 \<Longrightarrow> length (two_digits n) = 2"
  by (auto simp: two_digits_def show_nat.simps)

text \<open>A time takes eleven characters, whatever the file says.\<close>

lemma formatTime_length:
  assumes "unix \<noteq> 0" shows "length (formatTime zone unix) = 11"
proof -
  let ?t = "unix + zone unix"
  obtain y m d where c: "civil (?t div 86400) = (y, m, d)" by (cases "civil (?t div 86400)")
  have l: "n \<in> set (month_days y) \<Longrightarrow> n \<le> 31" for n by (auto simp: month_days_def split: if_splits)
  have "month_days y ! m \<in> set (month_days y)" using civil_sound(1) [OF c] by (intro nth_mem) (simp add: month_days_def)
  with l civil_sound(2) [OF c] have "d + 1 < 100" by fastforce
  moreover have "nat (?t mod 86400) < 86400" by (simp add: nat_less_iff)
  then have "nat (?t mod 86400) div 3600 < 100" "nat (?t mod 86400) mod 3600 div 60 < 100" by (simp_all add: less_mult_imp_div_less)
  ultimately show ?thesis
    using assms civil_sound(1) [OF c] by (simp add: formatTime_def Let_def c two_digits_length)
qed

lemma formatTime_example: "formatTime (\<lambda>_. 28800) 1728880000 = ''10-14 12:26''"
  by (simp add: formatTime_def civil_def epoch_day_def year_of.simps year_days_def leap_def month_days_def two_digits_def show_nat.simps)

text \<open>The list panics exactly when \<open>pick_peer\<close> does: it is what \<open>listing_panics\<close> stands for there.\<close>

lemma contact_lines_panics: "is_panic (contact_lines zone i cs) \<longleftrightarrow> listing_panics cs"
proof (induction cs arbitrary: i)
  case (Cons c cs)
  show ?case
  proof (cases "length (CFingerprint c) < 8")
    case False
    then obtain t where "contact_line zone i c = Ret t" by (simp add: contact_line_def)
    with False Cons show ?thesis by (auto simp: is_panic_bind listing_panics_def)
  qed (simp add: contact_line_def listing_panics_def)
qed (simp add: listing_panics_def)

lemma contact_screen_panics: "is_panic (contact_screen zone cs) \<longleftrightarrow> is_panic (pick_peer ipl cs ls)"
  using contact_lines_panics [of zone 1 cs]
  by (auto simp: contact_screen_def pick_peer_panics is_panic_bind listing_panics_def)

end
