(* ===== verification/Vector_File.thy ===== *)
theory Vector_File
  imports Gen_Vectors Identity_File "HOL-Library.List_Lexorder" "HOL-Library.Char_ord"
begin

text \<open>
  The rest of \<open>main\<close> in \<open>crypto/genvectors/main.go\<close>: the document, its indented JSON text as Go's encoder lays it out,
  and the writing of \<open>crypto/vectors.json\<close>.
\<close>

subsection \<open>The document\<close>

text \<open>The values \<open>any\<close> takes here: strings, maps with string keys, slices.\<close>

datatype doc = DStr string | DMap "(string \<times> doc) list" | DList "doc list"

definition str_map :: "(string \<times> string) list \<Rightarrow> doc" where
  "str_map m = DMap (map (\<lambda>(k, v). (k, DStr v)) m)"

definition vector_doc :: "test_vector \<Rightarrow> doc" where
  "vector_doc v =
     DMap [(''name'', DStr (vec_name v)), (''op'', DStr (vec_op v)),
           (''input'', str_map (vec_input v)), (''output'', str_map (vec_output v))]"

definition vec_version :: string where "vec_version = ''knock-m3-v1''"

definition vec_note :: string where
  "vec_note = ''priv is raw 32-byte scalar, clamp is internal; base64 StdEncoding with padding''"

definition vectors_doc :: "test_vector list \<Rightarrow> doc" where
  "vectors_doc vs =
     DMap [(''version'', DStr vec_version), (''note'', DStr vec_note), (''vectors'', DList (map vector_doc vs))]"

subsection \<open>Its JSON text\<close>

text \<open>The encoder takes the keys of a map in byte order; \<open>sorted_doc\<close> puts them so, \<open>enc_doc\<close> is the compact text.\<close>

fun sorted_doc :: "doc \<Rightarrow> doc" where
  "sorted_doc (DStr s) = DStr s"
| "sorted_doc (DMap m) = DMap (sort_key fst (map (\<lambda>(k, v). (k, sorted_doc v)) m))"
| "sorted_doc (DList vs) = DList (map sorted_doc vs)"

fun enc_elems :: "string list \<Rightarrow> string" where
  "enc_elems [] = []"
| "enc_elems [t] = t"
| "enc_elems (t # u # ts) = t @ '','' @ enc_elems (u # ts)"

fun enc_doc :: "doc \<Rightarrow> string" where
  "enc_doc (DStr s) = enc_string s"
| "enc_doc (DMap m) = enc_object (map (\<lambda>(k, v). (k, enc_doc v)) m)"
| "enc_doc (DList vs) = ''['' @ enc_elems (map enc_doc vs) @ '']''"

text \<open>
  Then \<open>appendIndent\<close> of \<open>encoding/json\<close> on that text, with empty prefix: \<open>need\<close> is \<open>needIndent\<close>, \<open>d\<close> the depth; the second
  function copies a string.
\<close>

definition new_line :: "string \<Rightarrow> nat \<Rightarrow> string" where
  "new_line ind d = CHR 0x0A # concat (replicate d ind)"

definition closer :: "char \<Rightarrow> bool" where
  "closer c \<longleftrightarrow> c = CHR ''}'' \<or> c = CHR '']''"

definition opener :: "char \<Rightarrow> bool" where
  "opener c \<longleftrightarrow> c = CHR ''{'' \<or> c = CHR ''[''"

fun indent_out :: "string \<Rightarrow> bool \<Rightarrow> nat \<Rightarrow> string \<Rightarrow> string" and indent_in :: "string \<Rightarrow> nat \<Rightarrow> string \<Rightarrow> string" where
  "indent_out ind need d [] = []"
| "indent_out ind need d (c # r) =
     (if is_ws c then indent_out ind need d r
      else if closer c then
        (if need then c # indent_out ind False d r else new_line ind (d - 1) @ c # indent_out ind False (d - 1) r)
      else
        let d1 = (if need then d + 1 else d) in
        (if need then new_line ind d1 else []) @
        (if c = dquote then c # indent_in ind d1 r
         else if opener c then c # indent_out ind True d1 r
         else if c = CHR '','' then c # new_line ind d1 @ indent_out ind False d1 r
         else if c = CHR '':'' then c # CHR '' '' # indent_out ind False d1 r
         else c # indent_out ind False d1 r))"
| "indent_in ind d [] = []"
| "indent_in ind d (c # r) =
     (if c = dquote then c # indent_out ind False d r
      else if c = bslash then (case r of [] \<Rightarrow> [c] | e # r' \<Rightarrow> c # e # indent_in ind d r')
      else c # indent_in ind d r)"

definition json_indent :: "string \<Rightarrow> string \<Rightarrow> string" where
  "json_indent ind t = indent_out ind False 0 t"

definition vector_text :: "test_vector list \<Rightarrow> string" where
  "vector_text vs = json_indent ''  '' (enc_doc (sorted_doc (vectors_doc vs))) @ [CHR 0x0A]"

subsection \<open>The layout, by structure\<close>

text \<open>The state machine above against the printer one would write: every member and element on a line of its own.\<close>

fun spaced :: "string \<Rightarrow> (string \<times> string) list \<Rightarrow> string" where
  "spaced nl [] = []"
| "spaced nl [(k, t)] = enc_string k @ '': '' @ t"
| "spaced nl ((k, t) # f # fs) = enc_string k @ '': '' @ t @ '','' @ nl @ spaced nl (f # fs)"

fun spaced_elems :: "string \<Rightarrow> string list \<Rightarrow> string" where
  "spaced_elems nl [] = []"
| "spaced_elems nl [t] = t"
| "spaced_elems nl (t # u # ts) = t @ '','' @ nl @ spaced_elems nl (u # ts)"

definition in_lines :: "string \<Rightarrow> nat \<Rightarrow> char \<Rightarrow> string \<Rightarrow> char \<Rightarrow> string" where
  "in_lines ind d a body b = (if body = [] then [a, b] else a # new_line ind (d + 1) @ body @ new_line ind d @ [b])"

fun pretty :: "string \<Rightarrow> nat \<Rightarrow> doc \<Rightarrow> string" where
  "pretty ind d (DStr s) = enc_string s"
| "pretty ind d (DMap m) =
     in_lines ind d (CHR ''{'') (spaced (new_line ind (d + 1)) (map (\<lambda>(k, v). (k, pretty ind (d + 1) v)) m)) (CHR ''}'')"
| "pretty ind d (DList vs) =
     in_lines ind d (CHR ''['') (spaced_elems (new_line ind (d + 1)) (map (pretty ind (d + 1)) vs)) (CHR '']'')"

lemma indent_in_simps:
  "indent_in ind d (dquote # r) = dquote # indent_out ind False d r"
  "indent_in ind d (bslash # e # r) = bslash # e # indent_in ind d r"
  "c \<noteq> dquote \<Longrightarrow> c \<noteq> bslash \<Longrightarrow> indent_in ind d (c # r) = c # indent_in ind d r"
  by simp_all

declare indent_in.simps(2) [simp del]

lemma is_hex_plain: "is_hex h \<Longrightarrow> h \<noteq> dquote \<and> h \<noteq> bslash"
  by (auto simp: is_hex_def hex_val_def is_dec_digit_def)

lemma indent_in_string: "jstring s = Some (t, u) \<Longrightarrow> indent_in ind d s = t @ dquote # indent_out ind False d u"
proof (induction s arbitrary: t u rule: jstring.induct)
  case (2 c r)
  consider "c = dquote" | "c = bslash" | "c \<noteq> dquote" "c \<noteq> bslash" by blast
  then show ?case
  proof cases
    case 1
    with "2.prems" show ?thesis by (simp add: jstring.simps(2) indent_in_simps)
  next
    case b: 2
    then obtain e r' where r: "r = e # r'" using "2.prems"
      by (cases r) (simp_all add: jstring.simps(2))
    show ?thesis
    proof (cases "esc_letter e")
      case True
      with b r "2.prems" obtain t' where "jstring r' = Some (t', u)" "t = bslash # e # t'"
        by (auto simp: jstring.simps(2))
      with b r True "2.IH"(1) [OF _ _ r] show ?thesis by (simp add: indent_in_simps)
    next
      case False
      with b r "2.prems" obtain h1 h2 h3 h4 r'' t' where u: "e = CHR ''u''" "r' = h1 # h2 # h3 # h4 # r''"
        "is_hex h1" "is_hex h2" "is_hex h3" "is_hex h4" "jstring r'' = Some (t', u)" "t = bslash # e # h1 # h2 # h3 # h4 # t'"
        by (auto simp: jstring.simps(2) split: if_splits list.splits)
      have "indent_in ind d r'' = t' @ dquote # indent_out ind False d u"
        using "2.IH"(2) [OF _ _ r] b False u by simp
      with b r u show ?thesis by (simp add: indent_in_simps is_hex_plain)
    qed
  next
    case 3
    with "2.prems" obtain t' where "jstring r = Some (t', u)" "t = c # t'" "\<not> byte c < 32"
      by (auto simp: jstring.simps(2) split: if_splits)
    with 3 "2.IH"(3) show ?thesis by (simp add: indent_in_simps)
  qed
qed simp

definition lead :: "string \<Rightarrow> bool \<Rightarrow> nat \<Rightarrow> string" where
  "lead ind need d = (if need then new_line ind (d + 1) else [])"

definition inner :: "bool \<Rightarrow> nat \<Rightarrow> nat" where "inner need d = (if need then d + 1 else d)"

lemma indent_string:
  "indent_out ind need d (enc_string s @ w) =
     lead ind need d @ enc_string s @ indent_out ind False (inner need d) w"
  using indent_in_string [of "esc_string s @ dquote # w" "esc_string s" w ind "inner need d"]
  by (simp add: enc_string_def is_ws_def closer_def lead_def inner_def Let_def)

definition laid_out :: "string \<Rightarrow> doc \<Rightarrow> bool" where
  "laid_out ind v \<longleftrightarrow> (\<forall>need d w. indent_out ind need d (enc_doc v @ w) =
     lead ind need d @ pretty ind (inner need d) v @ indent_out ind False (inner need d) w)"

lemma laid_outD:
  "laid_out ind v \<Longrightarrow> indent_out ind need d (enc_doc v @ w) =
     lead ind need d @ pretty ind (inner need d) v @ indent_out ind False (inner need d) w"
  by (simp add: laid_out_def)

lemmas layout = is_ws_def closer_def opener_def Let_def lead_def inner_def

lemma indent_fields:
  assumes "\<forall>(k, v) \<in> set m. laid_out ind v" "m \<noteq> []"
  shows "indent_out ind need d (enc_fields (map (\<lambda>(k, v). (k, enc_doc v)) m) @ w) =
    lead ind need d @ spaced (new_line ind (inner need d)) (map (\<lambda>(k, v). (k, pretty ind (inner need d) v)) m)
      @ indent_out ind False (inner need d) w"
  using assms
proof (induction m arbitrary: need d)
  case (Cons kv m)
  obtain k v where kv: "kv = (k, v)" by (cases kv)
  show ?case
  proof (cases m)
    case Nil
    with Cons kv show ?thesis by (simp add: indent_string laid_outD layout)
  next
    case (Cons q qs)
    obtain k' v' where q: "q = (k', v')" by (cases q)
    from Cons.IH [of False "inner need d"] Cons.prems kv \<open>m = q # qs\<close> show ?thesis
      by (simp add: indent_string laid_outD layout q)
  qed
qed simp

lemma indent_elems:
  assumes "\<forall>v \<in> set vs. laid_out ind v" "vs \<noteq> []"
  shows "indent_out ind need d (enc_elems (map enc_doc vs) @ w) =
    lead ind need d @ spaced_elems (new_line ind (inner need d)) (map (pretty ind (inner need d)) vs)
      @ indent_out ind False (inner need d) w"
  using assms
proof (induction vs arbitrary: need d)
  case (Cons v vs)
  show ?case
  proof (cases vs)
    case Nil
    with Cons show ?thesis by (simp add: laid_outD layout)
  next
    case (Cons u us)
    with Cons.IH [of False "inner need d"] Cons.prems show ?thesis by (simp add: laid_outD layout)
  qed
qed simp

lemma pretty_not_Nil: "pretty ind d v \<noteq> []"
  by (cases v) (auto simp: enc_string_def in_lines_def)

lemma spaced_Nil: "spaced nl fs = [] \<longleftrightarrow> fs = []"
  by (cases "(nl, fs)" rule: spaced.cases) (auto simp: enc_string_def)

lemma spaced_elems_Nil: "[] \<notin> set ts \<Longrightarrow> spaced_elems nl ts = [] \<longleftrightarrow> ts = []"
  by (cases "(nl, ts)" rule: spaced_elems.cases) auto

lemma indent_doc: "laid_out ind v"
proof (induction v)
  case (DStr s)
  show ?case by (simp add: laid_out_def indent_string)
next
  case (DMap m)
  then have m: "\<forall>(k, v) \<in> set m. laid_out ind v" by fastforce
  show ?case
  proof (cases "m = []")
    case False
    then show ?thesis
      by (simp add: laid_out_def enc_object_def indent_fields [OF m] layout in_lines_def spaced_Nil)
  qed (simp add: laid_out_def enc_object_def layout in_lines_def)
next
  case (DList vs)
  then have m: "\<forall>v \<in> set vs. laid_out ind v" by simp
  have n: "[] \<notin> set (map (pretty ind d) vs)" for d by (auto simp: pretty_not_Nil [symmetric])
  show ?case
  proof (cases "vs = []")
    case False
    then show ?thesis
      by (simp add: laid_out_def indent_elems [OF m] layout in_lines_def spaced_elems_Nil [OF n])
  qed (simp add: laid_out_def layout in_lines_def)
qed

lemma json_indent_doc: "json_indent ind (enc_doc v) = pretty ind 0 v"
  using laid_outD [OF indent_doc, of ind False 0 v "[]"] by (simp add: json_indent_def lead_def inner_def)

subsection \<open>Reading it back\<close>

text \<open>\<open>reads d v\<close>: decoding the JSON value \<open>v\<close> into an \<open>any\<close> gives \<open>d\<close>.\<close>

fun reads :: "doc \<Rightarrow> json \<Rightarrow> bool" where
  "reads (DStr s) v = (case v of JStr t \<Rightarrow> unquote t = s | _ \<Rightarrow> False)"
| "reads (DMap m) v =
     (case v of JObj ms \<Rightarrow> list_all2 (\<lambda>(k, d) (k', x, raw). unquote k' = k \<and> reads d x) m ms | _ \<Rightarrow> False)"
| "reads (DList ds) v = (case v of JArr vs \<Rightarrow> list_all2 reads ds vs | _ \<Rightarrow> False)"

text \<open>Nesting and strings as in the document: at most \<open>n\<close> deep, valid UTF-8.\<close>

fun plain_doc :: "nat \<Rightarrow> doc \<Rightarrow> bool" where
  "plain_doc n (DStr s) = valid_utf8 s"
| "plain_doc n (DMap m) = (0 < n \<and> list_all (\<lambda>(k, d). valid_utf8 k \<and> plain_doc (n - 1) d) m)"
| "plain_doc n (DList ds) = (0 < n \<and> list_all (plain_doc (n - 1)) ds)"

lemma skip_all_ws: "list_all is_ws b \<Longrightarrow> skip_ws (b @ s) = skip_ws s"
  by (induction b) (simp_all add: skip_ws_Cons)

lemma stops_ws: "list_all is_ws b \<Longrightarrow> stops (b @ c # w) \<longleftrightarrow> (b = [] \<longrightarrow> \<not> num_char c)"
  by (cases b) (auto simp: is_ws_def num_char_def is_dec_digit_def)

lemma not_num_char: "\<not> num_char (CHR '','')" "\<not> num_char (CHR ''}'')" "\<not> num_char (CHR '']'')"
  by (simp_all add: num_char_def is_dec_digit_def)

lemma is_ws_chars:
  "is_ws (CHR '' '')" "\<not> is_ws dquote" "\<not> is_ws (CHR '':'')" "\<not> is_ws (CHR '','')" "\<not> is_ws (CHR ''{'')" "\<not> is_ws (CHR ''}'')"
  "\<not> is_ws (CHR ''['')" "\<not> is_ws (CHR '']'')"
  by (simp_all add: is_ws_def)

lemma jmembers_spaced:
  assumes "fs \<noteq> []" "\<forall>(k, t) \<in> set fs. json_text d t" "2 * length (spaced nl fs) + 1 < f" "list_all is_ws nl" "list_all is_ws nl'"
  shows "jmembers f d (spaced nl fs @ nl' @ CHR ''}'' # w) = Some (map (\<lambda>(k, t). (esc_string k, json_tree d t, t)) fs, w)"
  using assms
proof (induction nl fs arbitrary: f rule: spaced.induct)
  case (2 nl k t)
  then obtain g where f: "f = Suc g" by (cases f) auto
  have "jvalue g d (t @ nl' @ CHR ''}'' # w) = Some (json_tree d t, nl' @ CHR ''}'' # w)"
    using 2 f by (intro json_text_at) (auto simp: stops_ws not_num_char)
  then show ?case
    using skip_ws_text_id [of d t "nl' @ CHR ''}'' # w"] 2
    by (simp add: f jmembers.simps(2) enc_string_def skip_ws_Cons is_ws_chars Let_def skip_all_ws)
next
  case (3 nl k t q qs)
  then obtain g where f: "f = Suc g" by (cases f) auto
  have v: "jvalue g d (t @ CHR '','' # x) = Some (json_tree d t, CHR '','' # x)" for x
    using 3 f by (intro json_text_at) (auto simp: not_num_char)
  have m: "jmembers g d (spaced nl (q # qs) @ nl' @ CHR ''}'' # w)
      = Some (map (\<lambda>(k, t). (esc_string k, json_tree d t, t)) (q # qs), w)"
    using 3 f by (intro "3.IH") auto
  have s: "skip_ws (nl @ spaced nl (q # qs) @ x) = spaced nl (q # qs) @ x" for x
    using 3 by (cases q; cases qs) (simp_all add: skip_all_ws enc_string_def skip_ws_Cons is_ws_chars)
  show ?case
    using skip_ws_text_id [of d t] 3 v m s
    by (simp add: f jmembers.simps(2) enc_string_def skip_ws_Cons is_ws_chars Let_def)
qed simp

lemma jelems_spaced:
  assumes "ts \<noteq> []" "\<forall>t \<in> set ts. json_text d t" "2 * length (spaced_elems nl ts) + 1 < f" "list_all is_ws nl" "list_all is_ws nl'"
  shows "jelems f d (spaced_elems nl ts @ nl' @ CHR '']'' # w) = Some (map (json_tree d) ts, w)"
  using assms
proof (induction nl ts arbitrary: f rule: spaced_elems.induct)
  case (2 nl t)
  then obtain g where f: "f = Suc g" by (cases f) auto
  have "jvalue g d (t @ nl' @ CHR '']'' # w) = Some (json_tree d t, nl' @ CHR '']'' # w)"
    using 2 f by (intro json_text_at) (auto simp: stops_ws not_num_char)
  then show ?case using 2 by (simp add: f jelems.simps(2) skip_ws_Cons is_ws_chars skip_all_ws)
next
  case (3 nl t q qs)
  then obtain g where f: "f = Suc g" by (cases f) auto
  have v: "jvalue g d (t @ CHR '','' # x) = Some (json_tree d t, CHR '','' # x)" for x
    using 3 f by (intro json_text_at) (auto simp: not_num_char)
  have m: "jelems g d (spaced_elems nl (q # qs) @ nl' @ CHR '']'' # w) = Some (map (json_tree d) (q # qs), w)"
    using 3 f by (intro "3.IH") auto
  have s: "skip_ws (nl @ spaced_elems nl (q # qs) @ x) = spaced_elems nl (q # qs) @ x" for x
    using 3 skip_ws_text_id [of d q] by (cases qs) (simp_all add: skip_all_ws)
  show ?case using 3 v m s by (simp add: f jelems.simps(2) skip_ws_Cons is_ws_chars)
qed simp

lemma new_line_ws: "list_all is_ws ind \<Longrightarrow> list_all is_ws (new_line ind d)"
  by (auto simp: new_line_def is_ws_def list_all_iff)

lemma jvalue_closer: "jvalue (Suc f) d (CHR '']'' # r) = None"
  by (simp add: jvalue_scalar opens_def jscalar_def jnumber_def jint_def jdigits1_def is_dec_digit_def Let_def)

lemma json_text_not_closer: "json_text n t \<Longrightarrow> hd t \<noteq> CHR '']''"
  using jvalue_closer by (cases t) (auto simp: json_text_def)

definition read_as :: "nat \<Rightarrow> doc \<Rightarrow> string \<Rightarrow> bool" where
  "read_as n v t \<longleftrightarrow> json_text n t \<and> reads v (json_tree n t)"

lemma read_asI: "jvalue f n t = Some (x, []) \<Longrightarrow> reads v x \<Longrightarrow> read_as n v t"
  by (auto simp: read_as_def json_tree_eq intro: json_textI)

lemma in_lines_object:
  assumes "m \<noteq> []" "\<forall>(k, v) \<in> set m. valid_utf8 k \<and> read_as n v (g v)" "list_all is_ws nl" "list_all is_ws nl'"
  shows "read_as (Suc n) (DMap m) (CHR ''{'' # nl @ spaced nl (map (\<lambda>(k, v). (k, g v)) m) @ nl' @ ''}'')"
proof -
  let ?fs = "map (\<lambda>(k, v). (k, g v)) m"
  let ?f = "2 * length (spaced nl ?fs) + 2" and ?o = "map (\<lambda>(k, t). (esc_string k, json_tree n t, t)) ?fs"
  have t: "\<forall>(k, t) \<in> set ?fs. json_text n t" using assms(2) by (auto simp: read_as_def)
  obtain r where r: "spaced nl ?fs = dquote # r"
    using assms(1) by (cases "(nl, ?fs)" rule: spaced.cases) (auto simp: enc_string_def)
  have "jmembers ?f n (spaced nl ?fs @ nl' @ ''}'') = Some (?o, [])"
    using jmembers_spaced [OF _ t, of nl ?f nl' "[]"] assms by simp
  then have "jvalue (Suc ?f) (Suc n) (CHR ''{'' # nl @ spaced nl ?fs @ nl' @ ''}'') = Some (JObj ?o, [])"
    using assms(3) by (simp add: r jvalue_object skip_all_ws skip_ws_Cons is_ws_chars del: map_map)
  moreover have "reads (DMap m) (JObj ?o)"
    using assms(2) by (auto simp: list_all2_map2 list_all2_same read_as_def valid_utf8_def)
  ultimately show ?thesis by (rule read_asI)
qed

lemma in_lines_array:
  assumes "ds \<noteq> []" "\<forall>v \<in> set ds. read_as n v (g v)" "list_all is_ws nl" "list_all is_ws nl'"
  shows "read_as (Suc n) (DList ds) (CHR ''['' # nl @ spaced_elems nl (map g ds) @ nl' @ '']'')"
proof -
  let ?ts = "map g ds"
  let ?f = "2 * length (spaced_elems nl ?ts) + 2" and ?o = "map (json_tree n) ?ts"
  have t: "\<forall>t \<in> set ?ts. json_text n t" using assms(2) by (auto simp: read_as_def)
  have h: "json_text n (g (hd ds))" using assms(1,2) by (auto simp: read_as_def)
  obtain c r where r: "spaced_elems nl ?ts = c # r" "\<not> is_ws c" "c \<noteq> CHR '']''"
    using assms(1) json_text_head [OF h] json_text_not_closer [OF h] by (cases ds; cases "tl ds"; cases "g (hd ds)") auto
  have "jelems ?f n (spaced_elems nl ?ts @ nl' @ '']'') = Some (?o, [])"
    using jelems_spaced [OF _ t, of nl ?f nl' "[]"] assms by simp
  then have "jvalue (Suc ?f) (Suc n) (CHR ''['' # nl @ spaced_elems nl ?ts @ nl' @ '']'') = Some (JArr ?o, [])"
    using assms(3) r by (simp add: jvalue_array skip_all_ws skip_ws_Cons is_ws_chars del: map_map)
  moreover have "reads (DList ds) (JArr ?o)"
    using assms(2) by (auto simp: list_all2_map2 list_all2_same read_as_def)
  ultimately show ?thesis by (rule read_asI)
qed

lemma pretty_read_as:
  assumes "list_all is_ws ind"
  shows "plain_doc n v \<Longrightarrow> read_as n v (pretty ind d v)"
proof (induction v arbitrary: n d)
  case (DStr s)
  then show ?case by (simp add: read_as_def valid_utf8_def)
next
  case (DMap m)
  then obtain n' where n: "n = Suc n'" by (cases n) auto
  show ?case
  proof (cases "m = []")
    case True
    have "jvalue 1 n ''{}'' = Some (JObj [], [])" by (simp add: n jvalue_object skip_ws_Cons is_ws_chars)
    then show ?thesis using read_asI [of 1 n "''{}''" "JObj []" "DMap []"] True by (simp add: in_lines_def)
  next
    case False
    have "\<forall>(k, v) \<in> set m. valid_utf8 k \<and> read_as n' v (pretty ind (d + 1) v)"
      using DMap n by (fastforce simp: list_all_iff)
    from in_lines_object [OF False this new_line_ws [OF assms, of "d + 1"] new_line_ws [OF assms, of d]] False show ?thesis
      by (simp add: n in_lines_def spaced_Nil)
  qed
next
  case (DList ds)
  then obtain n' where n: "n = Suc n'" by (cases n) auto
  show ?case
  proof (cases "ds = []")
    case True
    have "jvalue 1 n ''[]'' = Some (JArr [], [])" by (simp add: n jvalue_array skip_ws_Cons is_ws_chars)
    then show ?thesis using read_asI [of 1 n "''[]''" "JArr []" "DList []"] True by (simp add: in_lines_def)
  next
    case False
    have "\<forall>v \<in> set ds. read_as n' v (pretty ind (d + 1) v)" using DList n by (fastforce simp: list_all_iff)
    from in_lines_array [OF False this new_line_ws [OF assms, of "d + 1"] new_line_ws [OF assms, of d]] False show ?thesis
      by (simp add: n in_lines_def spaced_elems_Nil pretty_not_Nil [symmetric] image_iff)
  qed
qed

subsection \<open>Writing the file\<close>

text \<open>
  \<open>runtime.Caller(0)\<close> gives \<open>root/crypto/genvectors/main.go\<close>; the path is its directory's parent joined with the name.
\<close>

definition vectors_path :: "string \<Rightarrow> string" where
  "vectors_path root = root @ ''/crypto/vectors.json''"

datatype vec_fault = VecFine | VecCreateFails | VecWriteFails nat | VecCloseFails

text \<open>
  The states of the disk: \<open>os.Create\<close> truncates in place (a new file gets \<open>mode\<close>, an old one keeps its own), then the text
  grows; a failing write stops after some bytes.
\<close>

definition vec_states :: "nat \<Rightarrow> vec_fault \<Rightarrow> string \<Rightarrow> bytes \<Rightarrow> fs \<Rightarrow> fs list" where
  "vec_states mode f path content fs =
     (let m = (case fs path of None \<Rightarrow> mode | Some (_, old) \<Rightarrow> old);
          upto = (\<lambda>n. map (\<lambda>k. fs(path \<mapsto> (take k content, m))) [0..<Suc n])
      in case f of
           VecCreateFails \<Rightarrow> [fs]
         | VecWriteFails n \<Rightarrow> fs # upto n
         | _ \<Rightarrow> fs # upto (length content))"

definition vec_error :: "vec_fault \<Rightarrow> string option" where
  "vec_error f =
     (case f of VecFine \<Rightarrow> None | VecCreateFails \<Rightarrow> Some ''create vectors.json'' | VecWriteFails _ \<Rightarrow> Some ''encode''
      | VecCloseFails \<Rightarrow> Some ''close'')"

text \<open>What \<open>main\<close> prints at the end, or how it stops; and the states of the disk.\<close>

definition gen_main :: "prims \<Rightarrow> nat \<Rightarrow> vec_fault \<Rightarrow> string \<Rightarrow> fs \<Rightarrow> (gen_error + string) \<times> fs list" where
  "gen_main p mode f root fs =
     (case test_vectors p of
        Inl e \<Rightarrow> (Inl e, [fs])
      | Inr vs \<Rightarrow>
          (case vec_error f of
             Some what \<Rightarrow> Inl (Must what)
           | None \<Rightarrow> Inr (''vectors.json written: '' @ show_nat (length vs) @ '' vectors'' @ [CHR 0x0A]),
           vec_states mode f (vectors_path root) (vector_text vs) fs))"

text \<open>\<open>must\<close> exits with status 1; a panic of a Go program gives 2.\<close>

definition gen_status :: "gen_error + string \<Rightarrow> nat" where
  "gen_status r = (case r of Inl (Must _) \<Rightarrow> 1 | Inl LengthPanic \<Rightarrow> 2 | Inr _ \<Rightarrow> 0)"

lemma vec_states_last:
  "f \<noteq> VecCreateFails \<Longrightarrow> \<exists>n m. last (vec_states mode f path content fs) = fs(path \<mapsto> (take n content, m)) \<and>
     (vec_error f = None \<or> f = VecCloseFails \<longrightarrow> take n content = content)"
  by (cases f) (auto simp: vec_states_def vec_error_def Let_def intro!: exI)

subsection \<open>What the file holds\<close>

lemma utf8_ascii: "list_all is_ascii s \<Longrightarrow> valid_utf8 s"
  by (simp add: valid_utf8_def ascii_valid_utf8)

lemma fingerprint_ascii: "list_all is_ascii (fingerprint b)"
proof -
  have "is_ascii (to_upper c)" if "c \<in> set (hex_encode x)" for c x
  proof -
    have "is_lower_hex c" using that hex_encode_lower [of x] by (simp add: list_all_iff)
    then show ?thesis by (auto simp: to_upper_def is_ascii_def is_lower_hex_def is_dec_digit_def)
  qed
  moreover have "is_ascii (CHR '' '')" by (simp add: is_ascii_def)
  ultimately show ?thesis
    by (auto simp: fingerprint_def Let_def list_all_iff dest!: in_set_takeD in_set_dropD split: if_splits)
qed

lemma vectors_plain:
  "plain_doc max_nesting (sorted_doc (vectors_doc (vectors_of pubA pubB keyA2B keyB2A ct signPriv sig)))"
proof -
  have b: "valid_utf8 (b64_std x)" for x by (simp add: valid_utf8_def)
  have s: "valid_utf8 (c # s) \<longleftrightarrow> valid_utf8 s" if "is_ascii c" for c s using that by (simp add: valid_utf8_def)
  have n: "valid_utf8 []" by (simp add: valid_utf8_def)
  show ?thesis
    by (simp add: vectors_doc_def vectors_of_def vector_doc_def str_map_def vec_version_def vec_note_def max_nesting_def
      b s n utf8_ascii [OF fingerprint_ascii] is_ascii_def)
qed

lemma vector_text_reads:
  assumes "plain_doc max_nesting (sorted_doc (vectors_doc vs))"
  shows "\<exists>v. json_parse (vector_text vs) = Some v \<and> reads (sorted_doc (vectors_doc vs)) v"
proof -
  let ?d = "sorted_doc (vectors_doc vs)" and ?t = "pretty ''  '' 0 (sorted_doc (vectors_doc vs))"
  have r: "read_as max_nesting ?d ?t" by (rule pretty_read_as [OF _ assms]) (simp add: is_ws_def)
  then have t: "json_text max_nesting ?t" "reads ?d (json_tree max_nesting ?t)" by (simp_all add: read_as_def)
  have n: "is_ws (CHR 0x0A)" "stops [CHR 0x0A]" by (simp_all add: is_ws_def num_char_def is_dec_digit_def)
  have "jvalue (Suc (2 * length (?t @ [CHR 0x0A]))) max_nesting (?t @ [CHR 0x0A]) = Some (json_tree max_nesting ?t, [CHR 0x0A])"
    by (rule json_text_at [OF t(1) n(2)]) simp_all
  then have "json_parse (vector_text vs) = Some (json_tree max_nesting ?t)"
    using skip_ws_text_id [OF t(1), of "[CHR 0x0A]"] n(1)
    by (simp add: vector_text_def json_indent_doc json_parse_def skip_ws_Cons)
  with t(2) show ?thesis by blast
qed

lemma test_vectors_form: "test_vectors p = Inr vs \<Longrightarrow> \<exists>a b c d e f g. vs = vectors_of a b c d e f g"
  by (auto simp: test_vectors_def Let_def split: option.splits if_splits) blast

lemma vec_states_other: "s \<in> set (vec_states mode f path content fs) \<Longrightarrow> x \<noteq> path \<Longrightarrow> s x = fs x"
  by (cases f) (auto simp: vec_states_def Let_def)

text \<open>When \<open>main\<close> fails before the file is created nothing changes; afterwards the old vectors are gone, at most a prefix is there.\<close>

lemma generator_failure:
  assumes "gen_main p mode f root fs = (Inl e, states)"
  shows "gen_status (Inl e) \<noteq> 0 \<and>
    (last states = fs \<or> (\<exists>vs n m. test_vectors p = Inr vs \<and> last states = fs(vectors_path root \<mapsto> (take n (vector_text vs), m))))"
proof -
  have "gen_status (Inl e) \<noteq> 0" by (simp add: gen_status_def split: gen_error.split)
  moreover have "last states = fs \<or> (\<exists>vs n m. test_vectors p = Inr vs \<and> last states = fs(vectors_path root \<mapsto> (take n (vector_text vs), m)))"
  proof (cases "test_vectors p")
    case (Inr vs)
    then have st: "states = vec_states mode f (vectors_path root) (vector_text vs) fs" using assms by (simp add: gen_main_def split: option.splits)
    show ?thesis
    proof (cases "f = VecCreateFails")
      case False
      from vec_states_last [OF this, of mode "vectors_path root" "vector_text vs" fs] st Inr show ?thesis by blast
    qed (simp add: st vec_states_def Let_def)
  qed (use assms in \<open>auto simp: gen_main_def\<close>)
  ultimately show ?thesis by blast
qed

end
