(* ===== verification/Sha256_Eval.thy ===== *)
theory Sha256_Eval
  imports Sha256
begin

text \<open>
  SHA-256 on integers: a second definition, in which a rotation is a division and every sum is reduced, proved equal to
  the one on words.  The simplifier evaluates it in seconds, so digests recorded elsewhere can be checked by the kernel.
\<close>

subsection \<open>Words read as integers\<close>

definition two32 :: int where "two32 = 4294967296"

named_theorems uint_w32

lemma uint_w32_range: "0 \<le> uint (x :: w32)" "uint x < two32"
  using uint_lt2p [of x] by (simp_all add: two32_def)

lemma take_bit_w32: "take_bit 32 (uint x) = uint x" for x :: w32
  by (rule take_bit_int_eq_self) (use uint_w32_range [of x] in \<open>simp_all add: two32_def\<close>)

lemma uint_w32_plus [uint_w32]: "uint (x + y) = (uint x + uint y) mod two32" for x y :: w32
  by (simp add: uint_word_arith_bintrs take_bit_eq_mod two32_def)

lemma uint_w32_not [uint_w32]: "uint (NOT x) = two32 - 1 - uint x" for x :: w32
proof -
  have "uint (NOT x) = (- uint x - 1) mod two32"
    by (simp add: unsigned_not_eq take_bit_eq_mod two32_def not_int_def)
  also have "\<dots> = (two32 - 1 - uint x) mod two32"
    using mod_add_self1 [of two32 "- uint x - 1"] by (simp add: algebra_simps)
  also have "\<dots> = two32 - 1 - uint x" by (rule mod_pos_pos_trivial) (use uint_w32_range [of x] in linarith)+
  finally show ?thesis .
qed

lemmas uint_w32_bitwise [uint_w32] = unsigned_and_eq unsigned_xor_eq

lemma uint_drop: "uint (drop_bit n x) = drop_bit n (uint x)" for x :: w32
  by (simp add: unsigned_drop_bit_eq take_bit_w32)

lemma uint_drop_div [uint_w32]: "uint (drop_bit n x) = uint x div 2 ^ n" for x :: w32
  by (simp add: uint_drop flip: drop_bit_eq_div)

definition iro :: "int \<Rightarrow> int \<Rightarrow> int \<Rightarrow> int" where
  "iro p q x = x div p + x mod p * q"

lemma uint_rotr:
  assumes "n < 32"
  shows "uint (rotr n x) = iro (2 ^ n) (2 ^ (32 - n)) (uint x)"
proof -
  let ?a = "drop_bit n (uint x)" and ?b = "push_bit (32 - n) (take_bit n (uint x))"
  have p: "uint (push_bit (32 - n) x) = ?b"
    using assms by (simp add: unsigned_push_bit_eq take_bit_push_bit)
  have "?a AND ?b = 0"
    by (rule bit_eqI) (auto simp: bit_simps dest: bit_imp_le_length)
  then have "uint (rotr n x) = ?a + ?b"
    by (simp add: rotr_def unsigned_or_eq p uint_drop disjunctive_add_eq_or)
  then show ?thesis by (simp add: iro_def drop_bit_eq_div push_bit_eq_mult take_bit_eq_mod)
qed

subsection \<open>The functions on integers\<close>

definition isigma0 :: "int \<Rightarrow> int" where
  "isigma0 x = (iro 128 33554432 x XOR iro 262144 16384 x XOR x div 8)"

definition isigma1 :: "int \<Rightarrow> int" where
  "isigma1 x = (iro 131072 32768 x XOR iro 524288 8192 x XOR x div 1024)"

definition iSigma0 :: "int \<Rightarrow> int" where
  "iSigma0 x = (iro 4 1073741824 x XOR iro 8192 524288 x XOR iro 4194304 1024 x)"

definition iSigma1 :: "int \<Rightarrow> int" where
  "iSigma1 x = (iro 64 67108864 x XOR iro 2048 2097152 x XOR iro 33554432 128 x)"

lemma uint_sigmas [uint_w32]:
  "uint (sigma0 x) = isigma0 (uint x)" "uint (sigma1 x) = isigma1 (uint x)"
  "uint (Sigma0 x) = iSigma0 (uint x)" "uint (Sigma1 x) = iSigma1 (uint x)"
  by (simp_all add: sigma0_def sigma1_def Sigma0_def Sigma1_def isigma0_def isigma1_def iSigma0_def iSigma1_def
      uint_w32 uint_rotr)

datatype isha = ISha int int int int int int int int

fun uint_sha :: "sha_state \<Rightarrow> isha" where
  "uint_sha (Sha a b c d e f g h) =
     ISha (uint a) (uint b) (uint c) (uint d) (uint e) (uint f) (uint g) (uint h)"

fun ischedule :: "nat \<Rightarrow> int list \<Rightarrow> int list" where
  "ischedule 0 ws = ws"
| "ischedule (Suc n) ws =
     ischedule n (((isigma1 (ws ! 1) + ws ! 6 + isigma0 (ws ! 14) + ws ! 15) mod two32) # ws)"

definition ishift :: "int \<Rightarrow> int \<Rightarrow> int \<Rightarrow> int \<Rightarrow> int \<Rightarrow> int \<Rightarrow> int \<Rightarrow> int \<Rightarrow> int \<Rightarrow> isha" where
  "ishift t1 t2 a b c d e f g = ISha ((t1 + t2) mod two32) a b c ((d + t1) mod two32) e f g"

fun iround :: "int \<times> int \<Rightarrow> isha \<Rightarrow> isha" where
  "iround (k, w) (ISha a b c d e f g h) =
     ishift (h + iSigma1 e + ((e AND f) XOR ((two32 - 1 - e) AND g)) + k + w)
       (iSigma0 a + ((a AND b) XOR (a AND c) XOR (b AND c))) a b c d e f g"

fun iadd :: "isha \<Rightarrow> isha \<Rightarrow> isha" where
  "iadd (ISha a b c d e f g h) (ISha a' b' c' d' e' f' g' h') =
     ISha ((a + a') mod two32) ((b + b') mod two32) ((c + c') mod two32) ((d + d') mod two32)
       ((e + e') mod two32) ((f + f') mod two32) ((g + g') mod two32) ((h + h') mod two32)"

fun ibe_words :: "bytes \<Rightarrow> int list" where
  "ibe_words (a # b # c # d # r) =
     (((int (byte a) * 256 + int (byte b)) * 256 + int (byte c)) * 256 + int (byte d)) # ibe_words r"
| "ibe_words _ = []"

definition isha_k :: "int list" where "isha_k = map uint sha_k"

definition isha_block :: "bytes \<Rightarrow> isha \<Rightarrow> isha" where
  "isha_block b s = iadd s (fold iround (zip isha_k (rev (ischedule 48 (rev (ibe_words b))))) s)"

fun isha_output :: "isha \<Rightarrow> bytes" where
  "isha_output (ISha a b c d e f g h) = concat (map (\<lambda>w. be_bytes 4 (nat w)) [a, b, c, d, e, f, g, h])"

subsection \<open>Agreement\<close>

lemma uint_schedule: "15 < length ws \<Longrightarrow> map uint (schedule n ws) = ischedule n (map uint ws)"
proof (induction n arbitrary: ws)
  case (Suc n)
  then show ?case by (simp add: uint_w32 mod_simps)
qed simp

lemma uint_round: "uint_sha (sha_round (k, w) s) = iround (uint k, uint w) (uint_sha s)"
  by (cases s) (simp add: uint_w32 Let_def ishift_def mod_simps ac_simps)

lemma uint_add: "uint_sha (sha_add s t) = iadd (uint_sha s) (uint_sha t)"
  by (cases s; cases t) (simp add: uint_w32)

lemma uint_rounds: "uint_sha (fold sha_round kws s) = fold iround (map (map_prod uint uint) kws) (uint_sha s)"
  by (induction kws arbitrary: s) (auto simp: uint_round)

lemma or_as_sum: "0 \<le> y \<Longrightarrow> y < 2 ^ k \<Longrightarrow> push_bit k x OR y = x * 2 ^ k + (y :: int)"
  using concat_bit_eq [of k y x] by (simp add: concat_bit_def or.commute take_bit_int_eq_self push_bit_eq_mult)

lemma uint_be_word:
  "uint (push_bit 24 (byte_word a) OR push_bit 16 (byte_word b) OR push_bit 8 (byte_word c) OR byte_word d)
     = ((int (byte a) * 256 + int (byte b)) * 256 + int (byte c)) * 256 + int (byte d)"
proof -
  have b: "int (byte x) < 256" for x using byte_less_256 [of x] by simp
  have w: "uint (byte_word x) = int (byte x)" for x
  proof -
    have "take_bit 32 (byte x) = byte x" by (rule take_bit_nat_eq_self) (rule less_trans [OF byte_less_256], simp)
    then show ?thesis by (simp add: byte_word_def unsigned_of_nat)
  qed
  have p: "uint (push_bit k (byte_word x)) = push_bit k (int (byte x))" if "k \<le> 24" for k x
  proof -
    have "(256 :: int) \<le> 2 ^ (32 - k)" using power_increasing [of 8 "32 - k" "2 :: int"] that by simp
    with b [of x] have "int (byte x) < 2 ^ (32 - k)" by (rule less_le_trans)
    then have "take_bit (32 - k) (int (byte x)) = int (byte x)" by (intro take_bit_int_eq_self) simp_all
    then show ?thesis using that by (simp add: unsigned_push_bit_eq w take_bit_push_bit)
  qed
  let ?cd = "int (byte c) * 256 + int (byte d)" and ?bcd = "int (byte b) * 65536 + (int (byte c) * 256 + int (byte d))"
  have "push_bit 8 (int (byte c)) OR int (byte d) = ?cd" using or_as_sum [of "int (byte d)" 8] b [of d] by simp
  moreover have "push_bit 16 (int (byte b)) OR ?cd = ?bcd" using or_as_sum [of ?cd 16] b [of c] b [of d] by simp
  moreover have "push_bit 24 (int (byte a)) OR ?bcd = int (byte a) * 16777216 + ?bcd"
    using or_as_sum [of ?bcd 24] b [of b] b [of c] b [of d] by simp
  ultimately show ?thesis by (simp add: unsigned_or_eq p w or.assoc)
qed

lemma uint_be_words: "map uint (be_words b) = ibe_words b"
  by (induction b rule: be_words.induct) (simp_all add: uint_be_word)

lemma ischedule_block: "length ws = 16 \<Longrightarrow> map uint (schedule 48 (rev ws)) = ischedule 48 (rev (map uint ws))"
  using uint_schedule [of "rev ws" 48] by (simp add: rev_map)

lemma length_be_words: "length (be_words b) = length b div 4"
  by (induction b rule: be_words.induct) simp_all

lemma uint_block:
  assumes "length b = 64"
  shows "uint_sha (sha_block b s) = isha_block b (uint_sha s)"
proof -
  have "length (be_words b) = 16" using assms by (simp add: length_be_words)
  from ischedule_block [OF this] have "rev (ischedule 48 (rev (ibe_words b))) = map uint (rev (schedule 48 (rev (be_words b))))"
    by (simp add: uint_be_words flip: rev_map)
  then show ?thesis
    by (simp add: sha_block_def isha_block_def uint_add uint_rounds isha_k_def zip_map_map map_prod_def)
qed

lemma isha_output_eq: "sha_output s = isha_output (uint_sha s)"
  by (cases s) simp

text \<open>A message of at most 55 bytes is one block.\<close>

definition isha_init :: isha where
  "isha_init = ISha 1779033703 3144134277 1013904242 2773480762 1359893119 2600822924 528734635 1541459225"

lemma sha256_one_block:
  assumes "length m < 56"
  shows "sha256 m = isha_output (isha_block (sha_pad m) isha_init)"
proof -
  have l: "length (sha_pad m) = 64" using assms by (simp add: sha_pad_def pad_zeros)
  have i: "uint_sha sha_init = isha_init" by (simp add: sha_init_def isha_init_def)
  have "sha256 m = sha_output (sha_block (sha_pad m) sha_init)"
    by (simp add: sha256_def Let_def l)
  then show ?thesis by (simp add: isha_output_eq uint_block [OF l] i)
qed

lemma isha_k_code: "isha_k = [1116352408, 1899447441, 3049323471, 3921009573, 961987163, 1508970993, 2453635748, 2870763221,
    3624381080, 310598401, 607225278, 1426881987, 1925078388, 2162078206, 2614888103, 3248222580,
    3835390401, 4022224774, 264347078, 604807628, 770255983, 1249150122, 1555081692, 1996064986,
    2554220882, 2821834349, 2952996808, 3210313671, 3336571891, 3584528711, 113926993, 338241895,
    666307205, 773529912, 1294757372, 1396182291, 1695183700, 1986661051, 2177026350, 2456956037,
    2730485921, 2820302411, 3259730800, 3345764771, 3516065817, 3600352804, 4094571909, 275423344,
    430227734, 506948616, 659060556, 883997877, 958139571, 1322822218, 1537002063, 1747873779,
    1955562222, 2024104815, 2227730452, 2361852424, 2428436474, 2756734187, 3204031479, 3329325298]"
  by (simp add: isha_k_def sha_k_def)

lemma unroll_numeral:
  "be_bytes (numeral k) n = be_bytes (pred_numeral k) (n div 256) @ [char_of (n mod 256)]"
  "ischedule (numeral k) ws =
     ischedule (pred_numeral k) (((isigma1 (ws ! 1) + ws ! 6 + isigma0 (ws ! 14) + ws ! 15) mod two32) # ws)"
  "replicate (numeral k) c = c # replicate (pred_numeral k) c"
  by (simp_all only: numeral_eq_Suc [of k] be_bytes.simps ischedule.simps replicate_Suc)

lemmas isha_schedule_eval = unroll_numeral isigma0_def isigma1_def iro_def two32_def

lemmas isha_rounds_eval = iSigma0_def iSigma1_def iro_def two32_def ishift_def

end
