(* ===== verification/Recorded_Vectors.thy ===== *)
theory Recorded_Vectors
  imports Vector_File Sha256_Eval
begin

text \<open>
  \<open>crypto/vectors.json\<close> as it stands in the repository, against the generator: given what it records of the primitives, the
  model of \<open>main\<close> writes it byte for byte.  The fingerprint in it is computed here from the recorded key.
\<close>

subsection \<open>The file of the repository\<close>

text \<open>\<open>crypto/vectors.json\<close>, line by line, with \<open>|\<close> for the double quote.\<close>

definition recorded_lines :: "string list" where
  "recorded_lines =
     [''{'',
      ''  |note|: |priv is raw 32-byte scalar, clamp is internal; base64 StdEncoding with padding|,'',
      ''  |vectors|: ['',
      ''    {'',
      ''      |input|: {'',
      ''        |direction|: |a2b|,'',
      ''        |my_box_priv|: |AQIDBAUGBwgJCgsMDQ4PEBESExQVFhcYGRobHB0eHyA=|,'',
      ''        |peer_box_pub|: |Pry2khSTRNxU5YFgz5C+2e6h3RToHI6R3lV699ev2RU=|'',
      ''      },'',
      ''      |name|: |derive_key_a2b|,'',
      ''      |op|: |derive|,'',
      ''      |output|: {'',
      ''        |key|: |KgPcAkkc5SAKLwEd4xM1rDd3JqU0EAPH2RgPrXDzK1M=|'',
      ''      }'',
      ''    },'',
      ''    {'',
      ''      |input|: {'',
      ''        |direction|: |b2a|,'',
      ''        |my_box_priv|: |//79/Pv6+fj39vX08/Lx8O/u7ezr6uno5+bl5OPi4eA=|,'',
      ''        |peer_box_pub|: |B6N8vBQgk8i3VdwbEOhstCY3StFqqFPtC9/AsrhtHHw=|'',
      ''      },'',
      ''      |name|: |derive_key_b2a|,'',
      ''      |op|: |derive|,'',
      ''      |output|: {'',
      ''        |key|: |fO03UzXWjspOt4EraQmxdZxOFj9xeIgPnMSaaVE68h0=|'',
      ''      }'',
      ''    },'',
      ''    {'',
      ''      |input|: {'',
      ''        |aad|: |dGVzdC1xdWV1ZS1pZHRlc3QtbXNnLWlk|,'',
      ''        |key|: |KgPcAkkc5SAKLwEd4xM1rDd3JqU0EAPH2RgPrXDzK1M=|,'',
      ''        |nonce|: |EBESExQVFhcYGRobHB0eHyAhIiMkJSYn|,'',
      ''        |plaintext|: |a25vY2sgdGVzdCBwYXlsb2Fk|'',
      ''      },'',
      ''      |name|: |encrypt_roundtrip|,'',
      ''      |op|: |encrypt|,'',
      ''      |output|: {'',
      ''        |ciphertext|: |7qqCFM6S7VQfW4pC7Qy/aYPGRoIUjaWVcDr7ASF64i19qA==|'',
      ''      }'',
      ''    },'',
      ''    {'',
      ''      |input|: {'',
      ''        |message|: |REVMIHFpZD1hYmNkZWYxMjM0NTY3ODkwIHRzPTE3Mjg4ODAwMDA=|,'',
      ''        |sign_priv|: |oaKjpKWmp6ipqqusra6vsLGys7S1tre4ubq7vL2+v8ALR4I+cQld1ZvnisJxxXbvOJ+HtkVhqwfPmk680C0gQQ==|'',
      ''      },'',
      ''      |name|: |sign_del|,'',
      ''      |op|: |sign|,'',
      ''      |output|: {'',
      ''        |signature|: |+2IitOCETcNURDvbeWG553pB5ephgZsVloWCB5+XKLpLuSrP0e1zp4VjV/TXY87E2Xvovq9uHKbFQHqTeVDdDw==|'',
      ''      }'',
      ''    },'',
      ''    {'',
      ''      |input|: {'',
      ''        |box_pub|: |Pry2khSTRNxU5YFgz5C+2e6h3RToHI6R3lV699ev2RU=|'',
      ''      },'',
      ''      |name|: |fingerprint|,'',
      ''      |op|: |fingerprint|,'',
      ''      |output|: {'',
      ''        |fp|: |3B 4C E3 9F 64 BE 18 F8|'',
      ''      }'',
      ''    }'',
      ''  ],'',
      ''  |version|: |knock-m3-v1|'',
      ''}'']"

definition recorded :: string where
  "recorded = concat (map (\<lambda>l. map (\<lambda>c. if c = CHR ''|'' then dquote else c) l @ [CHR 0x0A]) recorded_lines)"

text \<open>What it records of the primitives: public keys, derived keys, ciphertext, signing key, signature.\<close>

definition rec_pubA :: bytes where
  "rec_pubA = map char_of
    [7, 163, 124, 188, 20, 32, 147, 200, 183, 85, 220, 27, 16, 232, 108, 180, 38, 55, 74, 209,
     106, 168, 83, 237, 11, 223, 192, 178, 184, 109, 28, 124 :: nat]"

definition rec_pubB :: bytes where
  "rec_pubB = map char_of
    [62, 188, 182, 146, 20, 147, 68, 220, 84, 229, 129, 96, 207, 144, 190, 217, 238, 161, 221, 20,
     232, 28, 142, 145, 222, 85, 122, 247, 215, 175, 217, 21 :: nat]"

definition rec_keyA2B :: bytes where
  "rec_keyA2B = map char_of
    [42, 3, 220, 2, 73, 28, 229, 32, 10, 47, 1, 29, 227, 19, 53, 172, 55, 119, 38, 165,
     52, 16, 3, 199, 217, 24, 15, 173, 112, 243, 43, 83 :: nat]"

definition rec_keyB2A :: bytes where
  "rec_keyB2A = map char_of
    [124, 237, 55, 83, 53, 214, 142, 202, 78, 183, 129, 43, 105, 9, 177, 117, 156, 78, 22, 63,
     113, 120, 136, 15, 156, 196, 154, 105, 81, 58, 242, 29 :: nat]"

definition rec_ct :: bytes where
  "rec_ct = map char_of
    [238, 170, 130, 20, 206, 146, 237, 84, 31, 91, 138, 66, 237, 12, 191, 105, 131, 198, 70, 130,
     20, 141, 165, 149, 112, 58, 251, 1, 33, 122, 226, 45, 125, 168 :: nat]"

definition rec_signPriv :: bytes where
  "rec_signPriv = map char_of
    [161, 162, 163, 164, 165, 166, 167, 168, 169, 170, 171, 172, 173, 174, 175, 176, 177, 178, 179, 180,
     181, 182, 183, 184, 185, 186, 187, 188, 189, 190, 191, 192, 11, 71, 130, 62, 113, 9, 93, 213,
     155, 231, 138, 194, 113, 197, 118, 239, 56, 159, 135, 182, 69, 97, 171, 7, 207, 154, 78, 188,
     208, 45, 32, 65 :: nat]"

definition rec_sig :: bytes where
  "rec_sig = map char_of
    [251, 98, 34, 180, 224, 132, 77, 195, 84, 68, 59, 219, 121, 97, 185, 231, 122, 65, 229, 234,
     97, 129, 155, 21, 150, 133, 130, 7, 159, 151, 40, 186, 75, 185, 42, 207, 209, 237, 115, 167,
     133, 99, 87, 244, 215, 99, 206, 196, 217, 123, 232, 190, 175, 110, 28, 166, 197, 64, 122, 147,
     121, 80, 221, 15 :: nat]"

lemma fp_words: "ibe_words (sha_pad rec_pubB) =
    [1052554898, 345195740, 1424327008, 3482369753, 4003585300, 3894185617, 3730143991, 3618625813,
     2147483648, 0, 0, 0, 0, 0, 0, 256]"
  unfolding rec_pubB_def by (simp add: sha_pad_def unroll_numeral)

lemma fp_schedule: "rev (ischedule 48 (rev (ibe_words (sha_pad rec_pubB)))) =
    [1052554898, 345195740, 1424327008, 3482369753, 4003585300, 3894185617, 3730143991, 3618625813,
     2147483648, 0, 0, 0, 0, 0, 0, 256,
     2856911304, 3214979827, 2075695311, 1642414737, 1803185257, 2615895661, 555258811, 1926659886,
     2604885374, 1814485885, 1075548321, 574914186, 1447032151, 3518322736, 1999326581, 1725767392,
     3249632699, 3827665228, 2964539066, 1920992103, 447202354, 1802147336, 1879349823, 2238260251,
     2670793662, 2184519610, 1842967551, 3258266534, 2262806085, 3097987453, 2869835333, 1856582003,
     147258386, 3278180494, 3571370990, 3123921901, 1212707372, 915274062, 2224071284, 4226516658,
     3398993027, 3127184383, 2484825800, 2675147825, 2789266940, 60292366, 3199648954, 3564481159]"
  unfolding fp_words by (simp add: isha_schedule_eval)

lemma fp_block: "isha_block (sha_pad rec_pubB) isha_init =
    ISha 994894751 1690179832 1758561037 85866905 1565296856 2259348319 1935958755 1885187938"
  unfolding isha_block_def fp_schedule isha_k_code isha_init_def by (simp add: isha_rounds_eval)

lemma fingerprint_pubB: "fingerprint rec_pubB = ''3B 4C E3 9F 64 BE 18 F8''"
proof -
  have "length rec_pubB < 56" by (simp add: rec_pubB_def)
  then have t: "take 8 (sha256 rec_pubB) = map char_of [59, 76, 227, 159, 100, 190, 24, 248 :: nat]"
    by (simp add: sha256_one_block fp_block unroll_numeral)
  show ?thesis unfolding fingerprint_def t by code_simp
qed

lemmas b64_eval = six1_def six2_def six3_def b64_char_def pad_char_def

lemma b64_recorded:
  "b64_std rec_pubA = ''B6N8vBQgk8i3VdwbEOhstCY3StFqqFPtC9/AsrhtHHw=''"
  "b64_std rec_pubB = ''Pry2khSTRNxU5YFgz5C+2e6h3RToHI6R3lV699ev2RU=''"
  "b64_std rec_keyA2B = ''KgPcAkkc5SAKLwEd4xM1rDd3JqU0EAPH2RgPrXDzK1M=''"
  "b64_std rec_keyB2A = ''fO03UzXWjspOt4EraQmxdZxOFj9xeIgPnMSaaVE68h0=''"
  "b64_std rec_ct = ''7qqCFM6S7VQfW4pC7Qy/aYPGRoIUjaWVcDr7ASF64i19qA==''"
  "b64_std rec_signPriv = ''oaKjpKWmp6ipqqusra6vsLGys7S1tre4ubq7vL2+v8ALR4I+cQld1ZvnisJxxXbvOJ+HtkVhqwfPmk680C0gQQ==''"
  "b64_std rec_sig = ''+2IitOCETcNURDvbeWG553pB5ephgZsVloWCB5+XKLpLuSrP0e1zp4VjV/TXY87E2Xvovq9uHKbFQHqTeVDdDw==''"
  by (simp_all add: rec_pubA_def rec_pubB_def rec_keyA2B_def rec_keyB2A_def rec_ct_def rec_signPriv_def rec_sig_def b64_eval)

lemma b64_inputs:
  "b64_std privSeedA = ''AQIDBAUGBwgJCgsMDQ4PEBESExQVFhcYGRobHB0eHyA=''"
  "b64_std privSeedB = ''//79/Pv6+fj39vX08/Lx8O/u7ezr6uno5+bl5OPi4eA=''"
  "b64_std vec_nonce = ''EBESExQVFhcYGRobHB0eHyAhIiMkJSYn''"
  "b64_std vec_plaintext = ''a25vY2sgdGVzdCBwYXlsb2Fk''"
  "b64_std vec_aad = ''dGVzdC1xdWV1ZS1pZHRlc3QtbXNnLWlk''"
  "b64_std delMsg = ''REVMIHFpZD1hYmNkZWYxMjM0NTY3ODkwIHRzPTE3Mjg4ODAwMDA=''"
  by code_simp+

lemma recorded_text:
  "vector_text (vectors_of rec_pubA rec_pubB rec_keyA2B rec_keyB2A rec_ct rec_signPriv rec_sig) = recorded"
  unfolding vector_text_def json_indent_doc
  by (simp add: vectors_doc_def vectors_of_def vector_doc_def str_map_def b64_recorded b64_inputs fingerprint_pubB
      vec_version_def vec_note_def in_lines_def new_line_def enc_string_def esc_string_safe html_safe_def recorded_def recorded_lines_def)

subsection \<open>The generator against the file\<close>

text \<open>Primitives that return what the file records.\<close>

definition rec_prims :: prims where
  "rec_prims = \<lparr>X25519 = (\<lambda>k P. Some (if P = [] then (if k = privSeedA then rec_pubA else rec_pubB) else [])), Basepoint = [],
     Hkdf32 = (\<lambda>s info. if info = ''knock-m3-v1:a2b'' then rec_keyA2B else rec_keyB2A),
     XSeal = (\<lambda>k n m a. rec_ct), XOpen = (\<lambda>k n c a. None), EdKey = (\<lambda>s. rec_signPriv), EdPublic = (\<lambda>k. []),
     EdSign = (\<lambda>k m. rec_sig), EdVerify = (\<lambda>k m s. True)\<rparr>"

lemma rec_prims_run:
  "X25519 rec_prims privSeedA (Basepoint rec_prims) = Some rec_pubA" "X25519 rec_prims privSeedB (Basepoint rec_prims) = Some rec_pubB"
  "deriveKey rec_prims privSeedA rec_pubB ''knock-m3-v1:a2b'' = Some rec_keyA2B"
  "deriveKey rec_prims privSeedB rec_pubA ''knock-m3-v1:b2a'' = Some rec_keyB2A"
  "XSeal rec_prims rec_keyA2B vec_nonce vec_plaintext vec_aad = rec_ct" "EdKey rec_prims signSeedA = rec_signPriv"
  "EdSign rec_prims rec_signPriv delMsg = rec_sig"
proof -
  have "hd privSeedA \<noteq> hd privSeedB" by (simp add: privSeedA_def privSeedB_def upt_rec)
  then have "privSeedB \<noteq> privSeedA" by metis
  then show "X25519 rec_prims privSeedB (Basepoint rec_prims) = Some rec_pubB" by (simp add: rec_prims_def)
qed (simp_all add: rec_prims_def deriveKey_def rec_pubA_def rec_pubB_def)

lemma rec_lengths: "length rec_keyA2B = 32" "length rec_keyB2A = 32"
  by (simp_all add: rec_keyA2B_def rec_keyB2A_def)

text \<open>
  C36.  The vector file of the repository is what the generator writes: when the primitives return the values it records,
  \<open>main\<close> ends with status 0 and the file holds, byte for byte, the text of \<open>crypto/vectors.json\<close>, whatever was there before.
\<close>

theorem recorded_vectors_are_reproduced:
  assumes "X25519 p privSeedA (Basepoint p) = Some rec_pubA" "X25519 p privSeedB (Basepoint p) = Some rec_pubB"
    and "deriveKey p privSeedA rec_pubB ''knock-m3-v1:a2b'' = Some rec_keyA2B"
    and "deriveKey p privSeedB rec_pubA ''knock-m3-v1:b2a'' = Some rec_keyB2A"
    and "XSeal p rec_keyA2B vec_nonce vec_plaintext vec_aad = rec_ct" "EdKey p signSeedA = rec_signPriv"
    and "EdSign p rec_signPriv delMsg = rec_sig" "gen_main p mode VecFine root fs = (r, states)"
  shows "r = Inr (''vectors.json written: 5 vectors'' @ [CHR 0x0A]) \<and> gen_status r = 0 \<and>
    (\<exists>m. last states (vectors_path root) = Some (recorded, m))"
proof -
  let ?vs = "vectors_of rec_pubA rec_pubB rec_keyA2B rec_keyB2A rec_ct rec_signPriv rec_sig"
  have vs: "test_vectors p = Inr ?vs" using assms(1-7) rec_lengths by (simp add: test_vectors_def)
  have n: "show_nat (length ?vs) = ''5''" by (simp add: vectors_of_def show_nat.simps)
  have r: "r = Inr (''vectors.json written: 5 vectors'' @ [CHR 0x0A])"
    "states = vec_states mode VecFine (vectors_path root) recorded fs"
    using assms(8) vs n by (simp_all add: gen_main_def vec_error_def recorded_text)
  from vec_states_last [of VecFine mode "vectors_path root" recorded fs] r show ?thesis
    by (auto simp: gen_status_def vec_error_def)
qed

theorem recorded_vectors_are_reproduced_witness:
  "\<exists>m. last (snd (gen_main rec_prims 420 VecFine ''/src'' (\<lambda>_. None))) ''/src/crypto/vectors.json'' = Some (recorded, m)"
proof -
  obtain r st where g: "gen_main rec_prims 420 VecFine ''/src'' (\<lambda>_. None) = (r, st)" by (cases "gen_main rec_prims 420 VecFine ''/src'' (\<lambda>_. None)")
  from recorded_vectors_are_reproduced [OF rec_prims_run g] show ?thesis by (simp add: g vectors_path_def)
qed

text \<open>
  C37.  What the generator writes can be read: when \<open>main\<close> ends well, the file parses as JSON into the document it was made
  from, every vector with its name, operation, inputs and outputs, for any primitives; no other file changed at any moment.
\<close>

theorem vector_file_reads_back:
  assumes "gen_main p mode f root fs = (Inr out, states)"
  shows "\<exists>vs t m v. test_vectors p = Inr vs \<and> last states (vectors_path root) = Some (t, m) \<and> json_parse t = Some v \<and>
    reads (sorted_doc (vectors_doc vs)) v \<and> (\<forall>s \<in> set states. \<forall>x. x \<noteq> vectors_path root \<longrightarrow> s x = fs x)"
proof -
  obtain vs where vs: "test_vectors p = Inr vs" "vec_error f = None"
    "states = vec_states mode f (vectors_path root) (vector_text vs) fs"
    using assms by (auto simp: gen_main_def split: sum.splits option.splits)
  then have "f = VecFine" by (cases f) (auto simp: vec_error_def)
  with vec_states_last [of f mode "vectors_path root" "vector_text vs" fs] vs
  obtain m where m: "last states (vectors_path root) = Some (vector_text vs, m)" by auto
  obtain v where "json_parse (vector_text vs) = Some v" "reads (sorted_doc (vectors_doc vs)) v"
    using vector_text_reads test_vectors_form [OF vs(1)] vectors_plain by blast
  with vs m vec_states_other show ?thesis by blast
qed

theorem vector_file_reads_back_witness:
  "\<exists>t m v. last (snd (gen_main rec_prims 420 VecFine ''/src'' (\<lambda>_. None))) ''/src/crypto/vectors.json'' = Some (t, m) \<and> json_parse t = Some v"
proof -
  have "test_vectors rec_prims = Inr (vectors_of rec_pubA rec_pubB rec_keyA2B rec_keyB2A rec_ct rec_signPriv rec_sig)"
    using rec_prims_run rec_lengths by (simp add: test_vectors_def)
  then obtain out st where g: "gen_main rec_prims 420 VecFine ''/src'' (\<lambda>_. None) = (Inr out, st)"
    by (auto simp: gen_main_def vec_error_def)
  from vector_file_reads_back [OF g] show ?thesis by (auto simp: g vectors_path_def)
qed

end
