(* ===== verification/Provenance.thy ===== *)
theory Provenance
  imports Relay
begin

text \<open>
  Where the relay's messages come from and where they go.  \<open>heard\<close> is what connections have told the relay: the
  messages sent, who asked for which queue, who acknowledged what.  Whatever the relay stores or puts into a
  channel as a DELIVER is one of the messages it heard, and it only goes to a connection that asked for the queue.
\<close>

subsection \<open>What was heard\<close>

record heard =
  sends :: "(string \<times> string \<times> string option) set"
  subs :: "(nat \<times> string) set"
  acks :: "(nat \<times> string) set"

definition hears :: "heard \<Rightarrow> nat \<Rightarrow> envelope \<Rightarrow> bool" where
  "hears H c e \<longleftrightarrow>
     (Typ e = TypeSend \<longrightarrow> (QueueID e, MsgID e, Payload e) \<in> sends H) \<and>
     (Typ e = TypeSub \<longrightarrow> (c, QueueID e) \<in> subs H) \<and>
     (Typ e = TypeAck \<longrightarrow> (c, MsgID e) \<in> acks H)"

definition hears_frame :: "heard \<Rightarrow> nat \<Rightarrow> string \<Rightarrow> bool" where
  "hears_frame H c f \<longleftrightarrow> (\<forall>e. Parse f = Inr e \<longrightarrow> hears H c e)"

definition heard_le :: "heard \<Rightarrow> heard \<Rightarrow> bool" where
  "heard_le H H' \<longleftrightarrow> sends H \<subseteq> sends H' \<and> subs H \<subseteq> subs H' \<and> acks H \<subseteq> acks H'"

text \<open>
  A message with identifier \<open>mid\<close> stems from one that was heard: same queue and payload, same identifier unless the
  sender left it to the relay.
\<close>

definition stems :: "heard \<Rightarrow> string \<Rightarrow> string \<Rightarrow> string option \<Rightarrow> bool" where
  "stems H q mid pl \<longleftrightarrow> (\<exists>m. (q, m, pl) \<in> sends H \<and> (m = [] \<or> m = mid))"

definition row_stems :: "heard \<Rightarrow> stored_message \<Rightarrow> bool" where
  "row_stems H m \<longleftrightarrow> (\<exists>pl. stems H (QID m) (Mid m) pl \<and> Body m = (case pl of None \<Rightarrow> [] | Some b \<Rightarrow> b))"

definition deliver_stems :: "heard \<Rightarrow> nat \<Rightarrow> envelope \<Rightarrow> bool" where
  "deliver_stems H c e \<longleftrightarrow> (c, QueueID e) \<in> subs H \<and>
     (\<exists>mid pl. stems H (QueueID e) mid pl \<and> MsgID e = to_valid_utf8 mid \<and> Payload e = Some (payload_text (RawMessage pl)))"

definition frame_stems :: "heard \<Rightarrow> nat \<Rightarrow> string \<Rightarrow> bool" where
  "frame_stems H c f \<longleftrightarrow> (\<forall>e. Parse f = Inr e \<longrightarrow> Typ e = TypeDeliver \<longrightarrow> deliver_stems H c e)"

definition db_stems :: "heard \<Rightarrow> store \<Rightarrow> bool" where
  "db_stems H s \<longleftrightarrow> (\<forall>r \<in> set (messages_tab s). row_stems H (row_msg r))"

definition table_stems :: "heard \<Rightarrow> (string \<times> queue_state) list \<Rightarrow> bool" where
  "table_stems H qs \<longleftrightarrow> (\<forall>q x c. (q, x) \<in> set qs \<longrightarrow> sub x = Some c \<longrightarrow> (c, q) \<in> subs H)"

definition hub_stems :: "heard \<Rightarrow> hub \<Rightarrow> bool" where
  "hub_stems H h \<longleftrightarrow> db_stems H (db h) \<and> (\<forall>c. \<forall>f \<in> set (buf (conns h c)). frame_stems H c f) \<and>
     table_stems H (queues h)"

lemma heard_le_refl [simp]: "heard_le H H"
  by (simp add: heard_le_def)

lemma stems_mono: "heard_le H H' \<Longrightarrow> stems H q m pl \<Longrightarrow> stems H' q m pl"
  by (auto simp: heard_le_def stems_def)

lemma hears_mono: "heard_le H H' \<Longrightarrow> hears H c e \<Longrightarrow> hears H' c e"
  by (auto simp: heard_le_def hears_def)

lemma hears_frame_mono: "heard_le H H' \<Longrightarrow> hears_frame H c f \<Longrightarrow> hears_frame H' c f"
  by (auto simp: hears_frame_def intro: hears_mono)

lemma deliver_stems_mono: "heard_le H H' \<Longrightarrow> deliver_stems H c e \<Longrightarrow> deliver_stems H' c e"
  using stems_mono [of H H'] unfolding deliver_stems_def heard_le_def by blast

lemma frame_stems_mono: "heard_le H H' \<Longrightarrow> frame_stems H c f \<Longrightarrow> frame_stems H' c f"
  by (auto simp: frame_stems_def intro: deliver_stems_mono)

lemma db_stems_mono: "heard_le H H' \<Longrightarrow> db_stems H s \<Longrightarrow> db_stems H' s"
  using stems_mono [of H H'] unfolding db_stems_def row_stems_def by blast

lemma table_stems_mono: "heard_le H H' \<Longrightarrow> table_stems H qs \<Longrightarrow> table_stems H' qs"
  unfolding table_stems_def heard_le_def by blast

lemma hub_stems_mono: "heard_le H H' \<Longrightarrow> hub_stems H h \<Longrightarrow> hub_stems H' h"
  using db_stems_mono [of H H' "db h"] frame_stems_mono [of H H'] table_stems_mono [of H H'] by (simp add: hub_stems_def)

subsection \<open>The hub invents nothing\<close>

text \<open>A turn that returns keeps the channels honest; one that panics leaves an honest database.\<close>

definition honest :: "heard \<Rightarrow> hub_outcome \<Rightarrow> bool" where
  "honest H m \<longleftrightarrow> (case m of Panic s \<Rightarrow> db_stems H s | Ret h \<Rightarrow> hub_inv h \<and> hub_stems H h)"

lemma honest_Ret: "hub_inv h \<Longrightarrow> hub_stems H h \<Longrightarrow> honest H (Ret h)"
  by (simp add: honest_def)

lemma honest_bind:
  "honest H m \<Longrightarrow> (\<And>h. hub_inv h \<Longrightarrow> hub_stems H h \<Longrightarrow> honest H (f h)) \<Longrightarrow> honest H (bind_outcome m f)"
  by (cases m) (simp_all add: honest_def)

lemma honestI:
  assumes "keeps_db f" "hub_stems H h" "safe (f h)"
    and "\<And>h'. f h = Ret h' \<Longrightarrow> (\<forall>c. \<forall>x \<in> set (buf (conns h' c)). frame_stems H c x) \<and>
      table_stems H (queues h')"
  shows "honest H (f h)"
proof (cases "f h")
  case (Panic s)
  with keeps_dbD [OF assms(1), of h] assms(2) show ?thesis by (simp add: honest_def hub_stems_def)
next
  case (Ret h')
  with keeps_dbD [OF assms(1), of h] assms(2,3) assms(4) [OF Ret] show ?thesis
    by (simp add: honest_def hub_stems_def safe_def)
qed

text \<open>A frame the relay makes: no DELIVER, or the DELIVER of a message that was heard.\<close>

definition may_send :: "heard \<Rightarrow> nat \<Rightarrow> string \<Rightarrow> string \<Rightarrow> string \<Rightarrow> payload \<Rightarrow> bool" where
  "may_send H c t q mid pl \<longleftrightarrow> t \<noteq> [] \<and> to_valid_utf8 t = t \<and>
     (t = TypeDeliver \<and> sendable pl \<longrightarrow> (c, q) \<in> subs H \<and> ValidQueueID q \<and> (\<exists>p. pl = RawMessage p \<and> stems H q mid p))"

lemma frame_of_stems:
  assumes "may_send H c t q mid pl" "sendable pl" "int64_range now" "frame_of now t q mid pl = Some f"
  shows "frame_stems H c f"
proof -
  have "t \<noteq> []" "to_valid_utf8 t = t" using assms(1) by (simp_all add: may_send_def)
  then show ?thesis
    using frame_of_Parse [OF assms(2,3) _ assms(4)] assms(1,2) ValidQueueID_utf8 [of q]
    by (auto simp: frame_stems_def deliver_stems_def may_send_def)
qed

lemma honest_send:
  assumes "hub_inv h" "hub_stems H h" "deliverable pl" "int64_range now" "may_send H c t q mid pl"
  shows "honest H (send_to c now t q mid pl h)"
proof (rule honestI [OF keeps_db_send assms(2)])
  show "safe (send_to c now t q mid pl h)" using assms by (intro safe_send) (simp_all add: may_send_def)
  fix h' assume r: "send_to c now t q mid pl h = Ret h'"
  then obtain x where x: "SendEnvelope now t q mid pl (conns h c) = Ret x" "h' = h\<lparr>conns := (conns h)(c := x)\<rparr>"
    by (auto simp: send_to_def on_conn_Ret)
  have "\<forall>f \<in> set (buf x). frame_stems H c f"
  proof (cases "sendable pl")
    case True
    show ?thesis
      using SendEnvelope_RetD(2) [OF x(1)] frame_of_stems [OF assms(5) True assms(4)] assms(2)
      by (auto simp: hub_stems_def)
  next
    case False
    then obtain p where "pl = RawMessage (Some p)" "\<not> json_valid p" using assms(3) by (auto simp: deliverable_def)
    with x(1) assms(2) show ?thesis by (auto simp: SendEnvelope_invalid hub_stems_def)
  qed
  with assms(2) x(2) show "(\<forall>c. \<forall>f \<in> set (buf (conns h' c)). frame_stems H c f) \<and>
      table_stems H (queues h')"
    by (auto simp: hub_stems_def)
qed

lemma deliver_differs [simp]:
  "TypeAck \<noteq> TypeDeliver" "TypeNewOk \<noteq> TypeDeliver" "TypeSubOk \<noteq> TypeDeliver" "TypeError \<noteq> TypeDeliver"
  "TypePong \<noteq> TypeDeliver"
  by (simp_all add: proto_simps)

lemma reply_types_utf8 [simp]:
  "to_valid_utf8 TypeAck = TypeAck" "to_valid_utf8 TypeNewOk = TypeNewOk" "to_valid_utf8 TypeSubOk = TypeSubOk"
  "to_valid_utf8 TypeError = TypeError" "to_valid_utf8 TypePong = TypePong" "to_valid_utf8 TypeDeliver = TypeDeliver"
  by (rule ascii_valid_utf8, simp add: proto_simps is_ascii_def)+

lemma may_send_reply [simp]:
  "may_send H c TypeAck q m pl" "may_send H c TypeNewOk q m pl" "may_send H c TypeSubOk q m pl"
  "may_send H c TypeError q m pl" "may_send H c TypePong q m pl"
  by (simp_all add: may_send_def)

lemma honest_error: "hub_inv h \<Longrightarrow> hub_stems H h \<Longrightarrow> int64_range now \<Longrightarrow> honest H (error_to c now code msg h)"
  by (simp add: error_to_send honest_send)

lemma honest_slice8: "hub_inv h \<Longrightarrow> hub_stems H h \<Longrightarrow> honest H (slice8 s h)"
  by (rule honestI [OF keeps_db_slice8 _ safe_slice8]) (auto simp: slice8_def hub_stems_def split: if_splits)

lemma honest_kick: "hub_inv h \<Longrightarrow> hub_stems H h \<Longrightarrow> honest H (kick c h)"
  by (rule honestI [OF keeps_db_kick _ safe_kick])
    (auto simp: kick_def on_conn_Ret chan_close_def hub_stems_def split: if_splits)

lemma honest_kick_previous: "hub_inv h \<Longrightarrow> hub_stems H h \<Longrightarrow> honest H (kick_previous c qs h)"
  by (auto simp: kick_previous_def intro: honest_kick honest_Ret split: option.splits)

lemma honest_release: "hub_inv h \<Longrightarrow> hub_stems H h \<Longrightarrow> honest H (releaseQueue c h)"
  by (rule honestI [OF keeps_db_release _ safe_release])
    (auto simp: releaseQueue_def hub_stems_def table_stems_def leave_def split: if_splits)

lemma honest_unregister: "hub_inv h \<Longrightarrow> hub_stems H h \<Longrightarrow> honest H (hub_unregister c h)"
  by (auto simp: hub_unregister_kick intro: honest_bind honest_kick honest_release honest_Ret)

lemma honest_register: "hub_inv h \<Longrightarrow> hub_stems H h \<Longrightarrow> \<not> closed (conns h c) \<Longrightarrow> honest H (hub_register c h)"
  using safe_register [of h c] by (simp add: hub_register_def honest_def safe_def hub_stems_def)

lemma honest_fold:
  "hub_inv h \<Longrightarrow> hub_stems H h \<Longrightarrow> (\<And>x h. x \<in> set xs \<Longrightarrow> hub_inv h \<Longrightarrow> hub_stems H h \<Longrightarrow> honest H (f x h)) \<Longrightarrow>
     honest H (fold_outcome f xs h)"
  by (induction xs arbitrary: h) (auto intro: honest_bind honest_Ret)

subsection \<open>The commands\<close>

lemma hub_stems_db: "hub_stems H h \<Longrightarrow> db_stems H s \<Longrightarrow> hub_stems H (h\<lparr>db := s\<rparr>)"
  by (simp add: hub_stems_def)

lemma db_stems_cong: "messages_tab s = messages_tab s' \<Longrightarrow> db_stems H s = db_stems H s'"
  by (simp add: db_stems_def)

lemma hub_stems_touch: "hub_stems H h \<Longrightarrow> hub_stems H (touch io t q h)"
  using db_stems_cong [of "db (touch io t q h)" "db h" H] by (simp add: hub_stems_def)

lemma table_stems_update:
  assumes "table_stems H qs" "\<And>c. sub x = Some c \<Longrightarrow> (c, q) \<in> subs H"
  shows "table_stems H (AList.update q x qs)"
proof -
  have "set (AList.update q x qs) \<subseteq> insert (q, x) (set qs)" by (induction qs) auto
  with assms show ?thesis unfolding table_stems_def by blast
qed

lemma hub_stems_queues: "hub_stems H h \<Longrightarrow> table_stems H qs \<Longrightarrow> hub_stems H (h\<lparr>queues := qs\<rparr>)"
  by (simp add: hub_stems_def)

lemma hub_stems_find:
  assumes "hub_stems H h" "find_queue io q h = Inr (qs, h')"
  shows "hub_stems H h'" "\<And>c. sub qs = Some c \<Longrightarrow> (c, q) \<in> subs H" "ValidQueueID q"
proof -
  show "hub_stems H h'"
    using assms by (auto simp: find_queue_def Let_def hub_stems_def intro!: table_stems_update
        split: option.splits if_splits bool.splits)
  then show "sub qs = Some c \<Longrightarrow> (c, q) \<in> subs H" for c
    using map_of_SomeD [OF find_queue_frame(4) [OF assms(2)]] by (auto simp: hub_stems_def table_stems_def)
  show "ValidQueueID q" by (rule find_queue_frame(5) [OF assms(2)])
qed

lemma hub_stems_set_sub: "hub_stems H h \<Longrightarrow> (c, q) \<in> subs H \<Longrightarrow> hub_stems H (set_sub q c h)"
  by (auto simp: set_sub_def intro: hub_stems_queues table_stems_update simp: hub_stems_def split: option.split)

lemma not_sendable_Nil [simp]: "\<not> sendable (RawMessage (Some []))"
  using json_text_head [of "max_nesting - 1" "[]"] by (auto simp: sendable_def)

lemma honest_replay:
  assumes "hub_inv h" "hub_stems H h" "io_ok io" "(c, q) \<in> subs H" "ValidQueueID q"
  shows "honest H (replayOffline io c q h)"
proof (cases "Undelivered (f_undelivered io) q (db h)")
  case None
  with assms show ?thesis by (simp add: replayOffline_def honest_Ret)
next
  case (Some msgs)
  have m: "body_ok m \<and> row_stems H m \<and> QID m = q" if "m \<in> set msgs" for m
    using that assms(1,2) Undelivered_SomeD [OF Some]
    by (auto simp: set_pending hub_inv_def db_inv_def hub_stems_def db_stems_def row_qid_def)
  have "may_send H c TypeDeliver q (Mid m) (RawMessage (Some (Body m)))" if "m \<in> set msgs" for m
    using m [OF that] assms(4,5) by (auto simp: may_send_def row_stems_def split: option.splits)
  moreover have "snd im \<in> set msgs" if "im \<in> set (List.enumerate 0 msgs)" for im
    using that by (metis list.set_map imageI map_snd_enumerate)
  ultimately have "honest H (fold_outcome (replay_one io c q) (List.enumerate 0 msgs) h)"
    using m assms(1-3)
    by (intro honest_fold) (simp_all add: replay_one_def honest_send deliverable_body io_ok_clock)
  with Some show ?thesis by (simp add: replayOffline_def)
qed

lemma honest_new:
  assumes "hub_inv h" "hub_stems H h" "io_ok io"
  shows "honest H (handle_new io c env h)"
proof (cases "\<exists>qid s. QueueID env = [] \<and> NewID (rnd io) = Some qid \<and>
    CreateQueue (f_create io) qid (clock io 0) (db h) = Some s")
  case True
  then obtain qid s where q: "QueueID env = []" "NewID (rnd io) = Some qid"
    "CreateQueue (f_create io) qid (clock io 0) (db h) = Some s" by blast
  then have v: "ValidQueueID qid"
    using assms(3) NewID_valid by (auto simp: io_ok_def NewID_def split: option.splits)
  have "hub_inv (h\<lparr>db := s\<rparr>)"
    using assms(1) q(3) by (auto simp: hub_inv_def intro: db_inv_create)
  then have i: "hub_inv (touch io t qid (h\<lparr>db := s\<rparr>))" for t by (rule hub_inv_touch)
  have "db_stems H s" using CreateQueue_frame [OF q(3)] assms(2) db_stems_cong [of s "db h" H] by (simp add: hub_stems_def)
  from hub_stems_touch [OF hub_stems_db [OF assms(2) this]]
  have j: "hub_stems H (touch io t qid (h\<lparr>db := s\<rparr>))" for t .
  let ?h2 = "\<lambda>t x. touch io t qid (h\<lparr>db := s\<rparr>)\<lparr>queues := AList.update qid x (queues (touch io t qid (h\<lparr>db := s\<rparr>)))\<rparr>"
  have "hub_inv (?h2 t x)" for t x
    by (rule hub_inv_queues) (use i in \<open>auto simp: hub_inv_def intro!: table_inv_update v\<close>)
  moreover have "hub_stems H (?h2 t \<lparr>owner = o', sub = None\<rparr>)" for t o'
    by (rule hub_stems_queues [OF j table_stems_update]) (use j in \<open>simp_all add: hub_stems_def\<close>)
  ultimately show ?thesis
    using q assms(3)
    by (auto simp: handle_new_def Let_def intro!: honest_bind honest_slice8 honest_send io_ok_clock)
next
  case False
  with assms show ?thesis
    by (auto simp: handle_new_def Let_def intro: honest_error io_ok_clock split: option.split)
qed

lemma honest_sub:
  assumes "hub_inv h" "hub_stems H h" "io_ok io" "(c, QueueID env) \<in> subs H"
  shows "honest H (handle_sub io c env h)"
proof (cases "find_queue io (QueueID env) h")
  case (Inl e)
  with assms show ?thesis by (cases e) (simp add: handle_sub_def honest_error io_ok_clock)
next
  case (Inr x)
  then obtain qs h1 where fq: "find_queue io (QueueID env) h = Inr (qs, h1)" by (cases x) auto
  note s = hub_stems_find [OF assms(2) fq] and i = hub_inv_find [OF assms(1) fq]
  have "honest H (bind_outcome (kick_previous c qs h1) (\<lambda>h2.
      bind_outcome (send_to c (clock io 0) TypeSubOk (QueueID env) [] NoPayload (set_sub (QueueID env) c h2)) (\<lambda>h3.
      bind_outcome (replayOffline io c (QueueID env) h3) (\<lambda>h4. Ret (touch io (clock io 1) (QueueID env) h4)))))"
    using s i assms(3,4)
    by (intro honest_bind honest_kick_previous honest_send honest_replay honest_Ret hub_inv_touch hub_stems_touch
        hub_inv_set_sub hub_stems_set_sub io_ok_clock) simp_all
  with fq s i assms(3) show ?thesis by (simp add: handle_sub_def honest_error io_ok_clock Let_def)
qed

lemma honest_send_cmd:
  assumes "hub_inv h" "hub_stems H h" "io_ok io" "env_ok env" "(QueueID env, MsgID env, Payload env) \<in> sends H"
  shows "honest H (handle_send io c env h)"
proof (cases "find_queue io (QueueID env) h")
  case (Inl e)
  with assms show ?thesis by (cases e) (simp add: handle_send_def honest_error io_ok_clock)
next
  case (Inr x)
  then obtain qs h1 where fq: "find_queue io (QueueID env) h = Inr (qs, h1)" by (cases x) auto
  note s = hub_stems_find [OF assms(2) fq] and i = hub_inv_find [OF assms(1) fq]
  show ?thesis
  proof (cases "SaveMessage (f_save io) (fk_on io) (sent_message io env) (db h1)")
    case None
    with fq s i assms(3) show ?thesis by (simp add: handle_send_def Let_def honest_error io_ok_clock)
  next
    case (Some d)
    have st: "stems H (QueueID env) (send_mid io env) (Payload env)"
      using assms(5) by (auto simp: stems_def send_mid_def)
    have b: "body_ok (sent_message io env)"
      using assms(4) by (auto simp: body_ok_def sent_message_def payload_bytes_def env_ok_def split: option.split)
    have "row_stems H (sent_message io env)"
      using st by (auto simp: row_stems_def sent_message_def payload_bytes_def split: option.split)
    then have "db_stems H d" using SaveMessage_frame [OF Some] s(1) by (auto simp: db_stems_def hub_stems_def)
    then have j: "hub_stems H (touch io t q (h1\<lparr>db := d\<rparr>))" for t q by (intro hub_stems_touch hub_stems_db s(1))
    have "hub_inv (h1\<lparr>db := d\<rparr>)" using i db_inv_save [OF _ b Some] by (auto simp: hub_inv_def)
    then have k: "hub_inv (touch io t q (h1\<lparr>db := d\<rparr>))" for t q by (rule hub_inv_touch)
    have "may_send H e TypeDeliver (QueueID env) (send_mid io env) (RawMessage (Payload env))" if "sub qs = Some e" for e
      using st s(2) [OF that] s(3) by (simp add: may_send_def)
    then show ?thesis
      using fq Some j k assms(3,4)
      by (auto simp: handle_send_def Let_def split: option.split
          intro!: honest_bind honest_send honest_slice8 honest_Ret io_ok_clock deliverable_env)
  qed
qed

lemma honest_ack:
  assumes "hub_inv h" "hub_stems H h"
  shows "honest H (handle_ack io env h)"
proof -
  have "hub_inv (h\<lparr>db := s\<rparr>) \<and> hub_stems H (h\<lparr>db := s\<rparr>)" if "DeleteMessage (f_delete io) (MsgID env) (db h) = Some s" for s
    using DeleteMessage_frame [OF that] db_inv_delete [OF _ that] assms
    by (auto simp: hub_stems_def db_stems_def hub_inv_def)
  with assms show ?thesis
    by (auto simp: handle_ack_def split: option.split intro!: honest_bind honest_slice8 honest_Ret)
qed

lemma honest_handle:
  "hub_inv h \<Longrightarrow> hub_stems H h \<Longrightarrow> io_ok io \<Longrightarrow> env_ok env \<Longrightarrow> hears H c env \<Longrightarrow> honest H (handle io c env h)"
  by (simp add: handle_def hears_def honest_new honest_sub honest_send_cmd honest_ack honest_error io_ok_clock)

subsection \<open>The process\<close>

definition process_stems :: "heard \<Rightarrow> process \<Rightarrow> bool" where
  "process_stems H p \<longleftrightarrow>
     (case p of
        Down s \<Rightarrow> db_stems H s
      | Up r \<Rightarrow> hub_stems H (core r) \<and> (\<forall>c env. readers r c = Handing env \<longrightarrow> hears H c env))"

lemma process_stems_mono: "heard_le H H' \<Longrightarrow> process_stems H p \<Longrightarrow> process_stems H' p"
  using hub_stems_mono [of H H'] db_stems_mono [of H H'] hears_mono [of H H'] by (auto simp: process_stems_def split: process.splits)

lemma process_stems_disk: "process_stems H p \<Longrightarrow> db_stems H (disk p)"
  by (cases p) (simp_all add: process_stems_def hub_stems_def)

lemma process_stems_turn:
  "honest H m \<Longrightarrow> process_stems H (Up r) \<Longrightarrow> (\<And>env. x \<noteq> Handing env) \<Longrightarrow> process_stems H (after_turn m (set_reader c x r))"
  by (cases m) (auto simp: after_turn_def process_stems_def set_reader_def honest_def)

lemma hub_stems_conn:
  "hub_stems H h \<Longrightarrow> \<forall>f \<in> set (buf x). frame_stems H c f \<Longrightarrow> hub_stems H (h\<lparr>conns := (conns h)(c := x)\<rparr>)"
  by (simp add: hub_stems_def)

lemma read_frame_stems:
  assumes "read_frame jerr now data x = Ret (x', m)" "int64_range now" "\<forall>f \<in> set (buf x). frame_stems H c f"
  shows "\<forall>f \<in> set (buf x'). frame_stems H c f"
proof -
  have k: "\<forall>f \<in> set (buf y). frame_stems H c f" if "SendEnvelope now t q mid pl x = Ret y" "sendable pl" "may_send H c t q mid pl"
    for t q mid pl y
    using SendEnvelope_RetD(2) [OF that(1)] frame_of_stems [OF that(3,2) assms(2)] assms(3) by auto
  show ?thesis
    using assms(1,3) k [of TypeError "[]" "[]" "ErrorMessage _ _"] k [of TypePong "[]" "[]" NoPayload]
    by (auto simp: read_frame_def SendError_def go_simps sendable_def split: sum.splits if_splits)
qed

lemma process_stems_step:
  assumes "relay_step jerr p e p'" "relay_inv p" "event_ok p e" "process_stems H p"
    and "\<And>c now data. e = Frame c now data \<Longrightarrow> hears_frame H c data"
  shows "process_stems H p'"
  using assms(1)
proof (cases rule: relay_stepE)
  case (accept r c)
  let ?h = "(core r)\<lparr>conns := (conns (core r))(c := new_client)\<rparr>"
  have "hub_stems H ?h" using assms(4) accept by (simp add: process_stems_def hub_stems_conn)
  moreover have "hub_inv ?h" using assms(2) accept by (auto simp: relay_inv_def hub_inv_def conn_inv_new)
  ultimately have "honest H (hub_register c ?h)" by (intro honest_register) simp_all
  with assms(4) accept show ?thesis
    unfolding accept serveWS_def by (intro process_stems_turn) (auto simp: process_stems_def)
next
  case (frame r c data now)
  show ?thesis
  proof (cases "read_frame jerr now data (conns (core r) c)")
    case (Panic u)
    with frame assms(4) show ?thesis by (simp add: read_turn_def process_stems_def hub_stems_def)
  next
    case (Ret xm)
    obtain x m where xm: "xm = (x, m)" by (cases xm)
    have "\<forall>f \<in> set (buf x). frame_stems H c f"
      using read_frame_stems [OF Ret [unfolded xm]] frame assms(3,4) by (auto simp: event_ok_def process_stems_def hub_stems_def)
    then have "hub_stems H ((core r)\<lparr>conns := (conns (core r))(c := x)\<rparr>)"
      using frame assms(4) by (intro hub_stems_conn) (simp_all add: process_stems_def)
    then show ?thesis
      using read_frame_RetD(2) [OF Ret [unfolded xm]] frame assms(4,5) Ret xm
      by (auto simp: read_turn_def process_stems_def set_reader_def hears_frame_def split: option.split)
  qed
next
  case (read_fails r c)
  with assms(4) show ?thesis by (auto simp: process_stems_def set_reader_def)
next
  case (route r c env io)
  then have "honest H (hub_turn io (Route c env) (core r))"
    using assms(2-4) by (auto simp: hub_turn_def relay_inv_def event_ok_def process_stems_def intro!: honest_handle)
  from process_stems_turn [OF this] route assms(4) show ?thesis by auto
next
  case (drop_conn r c)
  then have "honest H (hub_unregister c (core r))"
    using assms(2,4) by (auto simp: relay_inv_def process_stems_def intro: honest_unregister)
  from process_stems_turn [OF this] drop_conn assms(4) show ?thesis by auto
next
  case (write_out r c tick ok out)
  obtain x ws go where out: "out = (x, ws, go)" by (cases out)
  have "set (buf x) \<subseteq> set (buf (conns (core r) c))"
    using write_out out by (auto simp: write_turn_def split: if_splits list.splits)
  with write_out out assms(4) show ?thesis
    by (auto simp: process_stems_def put_wire_def hub_stems_def)
next
  case (sweep r faults fk now)
  have "none_delivered (db (core r))" using assms(2) sweep by (simp add: relay_inv_def hub_inv_def db_inv_def)
  then have "set (messages_tab (sweep_tick faults fk now (db (core r)))) \<subseteq> set (messages_tab (db (core r)))"
    unfolding sweep_tick_def
    by (rule Sweep_cases [where fs = faults and fk = fk and now = now and ttl = queueTTL and grace = ackGrace])
      (auto simp: swept_def)
  with sweep assms(4) show ?thesis by (auto simp: process_stems_def hub_stems_def db_stems_def)
next
  case (kill r)
  with assms(4) show ?thesis by (simp add: process_stems_def hub_stems_def)
next
  case (restart s d s')
  with assms(4) show ?thesis
    by (simp add: Open_database_of process_stems_def hub_stems_def new_relay_def NewHub_def table_stems_def)
qed

text \<open>What a writer puts on the wire stems from what was heard.\<close>

lemma written_stems:
  assumes "process_stems H (Up r)" "write_turn tick ok (conns (core r) c) = Some (x, ws, go)" "TextMsg f \<in> set ws"
  shows "frame_stems H c f"
  using assms by (auto simp: process_stems_def hub_stems_def write_turn_def split: if_splits list.splits)

end
