(* ===== verification/Network.thy ===== *)
theory Network
  imports Provenance End_To_End
begin

text \<open>
  One relay and any number of programs that talk to it.  \<open>up c\<close> and \<open>down c\<close> are the frames under way on connection
  \<open>c\<close> (TCP: in order, none lost unless the reader stops).  At the far end of a connection is a running chat of
  \<open>client/pumps.go\<close> or something else: a client that is still starting up (its NEW and SUB), or a stranger,
  who may write any bytes.  A step is a step of the relay or of one chat, or the writing or
  reading of the something else.

  The last six fields are a record of what happened; no step looks at them.
\<close>

subsection \<open>State\<close>

record net =
  proc :: process
  chats :: "nat \<Rightarrow> chat option"
  dialled :: "nat set"
  up :: "nat \<Rightarrow> string list"
  down :: "nat \<Rightarrow> string list"
  said :: "(nat \<times> string \<times> string \<times> string) list"
  shown :: "(nat \<times> string \<times> string \<times> string) list"
  asked :: "(nat \<times> string) list"
  acked :: "(nat \<times> string) list"
  wrote :: "(nat \<times> string) list"
  got :: "(nat \<times> string) list"

definition start_net :: "store \<Rightarrow> net" where
  "start_net s = \<lparr>proc = Up (new_relay s), chats = (\<lambda>_. None), dialled = {}, up = (\<lambda>_. []), down = (\<lambda>_. []),
     said = [], shown = [], asked = [], acked = [], wrote = [], got = []\<rparr>"

text \<open>The text a client reads in a message, after the relay has passed its payload on.\<close>

definition chat_text :: "string option \<Rightarrow> string" where
  "chat_text pl = fst (decode_chat (zero_envelope\<lparr>Payload := Some (payload_text (RawMessage pl))\<rparr>))"

definition texts :: "wire list \<Rightarrow> string list" where
  "texts ws = concat (map text_of ws)"

text \<open>
  What goes on record: connection, queue, message identifier, text; and all that something other than a chat
  \<open>wrote\<close> and \<open>got\<close>.
\<close>

definition saying :: "nat \<Rightarrow> client_event \<Rightarrow> chat \<Rightarrow> (nat \<times> string \<times> string \<times> string) list" where
  "saying c e s =
     (case e of
        Line now r line \<Rightarrow>
          (let t = TrimSpace line in
           if t = [] \<or> t = ''/quit'' \<or> \<not> has_room s then []
           else [(c, to_valid_utf8 (my_queue (sess s)), to_valid_utf8 (new_mid r), to_valid_utf8 t)])
      | _ \<Rightarrow> [])"

definition showing :: "nat \<Rightarrow> string \<Rightarrow> chat \<Rightarrow> (nat \<times> string \<times> string \<times> string) list" where
  "showing c f s = (case fst (receive (seen (sess s)) f) of ShowChat q m t \<Rightarrow> [(c, q, m, t)] | _ \<Rightarrow> [])"

definition on_record :: "nat \<Rightarrow> string \<Rightarrow> net \<Rightarrow> net" where
  "on_record c f n =
     (case Parse f of
        Inl _ \<Rightarrow> n
      | Inr e \<Rightarrow>
          if Typ e = TypeSend then n\<lparr>said := said n @ [(c, QueueID e, MsgID e, chat_text (Payload e))]\<rparr>
          else if Typ e = TypeSub then n\<lparr>asked := asked n @ [(c, QueueID e)]\<rparr>
          else if Typ e = TypeAck then n\<lparr>acked := acked n @ [(c, MsgID e)]\<rparr>
          else n)"

subsection \<open>Steps\<close>

datatype net_event =
    Dial nat
  | RelayReads nat int
  | RelayWrites nat bool bool
  | RelayTurn event
  | Join nat session
  | ChatHears nat int
  | ChatTurn nat client_event
  | OtherWrites nat string
  | OtherHears nat

text \<open>The relay's steps that do not touch a link, and the chat's that do not read.\<close>

definition internal :: "event \<Rightarrow> bool" where
  "internal e \<longleftrightarrow> (case e of Accept c \<Rightarrow> False | Frame c now f \<Rightarrow> False | WriteTurn c tick ok \<Rightarrow> False | _ \<Rightarrow> True)"

definition reading :: "client_event \<Rightarrow> bool" where
  "reading e \<longleftrightarrow> (case e of FrameIn now f \<Rightarrow> True | _ \<Rightarrow> False)"

inductive net_step :: "(string \<Rightarrow> string) \<Rightarrow> net \<Rightarrow> net_event \<Rightarrow> net \<Rightarrow> bool"
  for jerr :: "string \<Rightarrow> string"
where
  dial: "c \<notin> dialled n \<Longrightarrow> relay_step jerr (proc n) (Accept c) p \<Longrightarrow>
     net_step jerr n (Dial c) (n\<lparr>proc := p, dialled := insert c (dialled n)\<rparr>)"
| relay_reads: "up n c = f # fs \<Longrightarrow> relay_step jerr (proc n) (Frame c now f) p \<Longrightarrow>
     net_step jerr n (RelayReads c now) (n\<lparr>proc := p, up := (up n)(c := fs)\<rparr>)"
| relay_writes: "proc n = Up r \<Longrightarrow> writing r c \<Longrightarrow> write_turn tick ok (conns (core r) c) = Some (x, ws, go) \<Longrightarrow>
     net_step jerr n (RelayWrites c tick ok)
       (n\<lparr>proc := Up (put_wire c (x, ws, go) r), down := (down n)(c := down n c @ texts ws)\<rparr>)"
| relay_turn: "internal e \<Longrightarrow> relay_step jerr (proc n) e p \<Longrightarrow>
     net_step jerr n (RelayTurn e) (n\<lparr>proc := p\<rparr>)"
| join: "c \<in> dialled n \<Longrightarrow> chats n c = None \<Longrightarrow> sendq se = new_client \<Longrightarrow> seen se = [] \<Longrightarrow>
     net_step jerr n (Join c se) (n\<lparr>chats := (chats n)(c \<mapsto> start_chat se)\<rparr>)"
| chat_hears: "chats n c = Some s \<Longrightarrow> down n c = f # fs \<Longrightarrow> client_step s (FrameIn now f) s' \<Longrightarrow>
     net_step jerr n (ChatHears c now)
       (n\<lparr>chats := (chats n)(c \<mapsto> s'), down := (down n)(c := fs), shown := shown n @ showing c f s\<rparr>)"
| chat_turn: "chats n c = Some s \<Longrightarrow> \<not> reading e \<Longrightarrow> client_step s e s' \<Longrightarrow>
     net_step jerr n (ChatTurn c e)
       (n\<lparr>chats := (chats n)(c \<mapsto> s'), up := (up n)(c := up n c @ texts (drop (length (wire_out s)) (wire_out s'))),
          said := said n @ saying c e s\<rparr>)"
| other_writes: "c \<in> dialled n \<Longrightarrow> chats n c = None \<Longrightarrow>
     net_step jerr n (OtherWrites c f) (on_record c f (n\<lparr>up := (up n)(c := up n c @ [f]), wrote := wrote n @ [(c, f)]\<rparr>))"
| other_hears: "chats n c = None \<Longrightarrow> down n c = f # fs \<Longrightarrow>
     net_step jerr n (OtherHears c) (n\<lparr>down := (down n)(c := fs), got := got n @ [(c, f)]\<rparr>)"

inductive_cases net_stepE [consumes 1, case_names dial relay_reads relay_writes relay_turn join chat_hears chat_turn
    other_writes other_hears]:
  "net_step jerr n e n'"

text \<open>What the machines guarantee, as for the parts.\<close>

definition net_ok :: "net \<Rightarrow> net_event \<Rightarrow> bool" where
  "net_ok n ev \<longleftrightarrow>
     (case ev of
        RelayReads c now \<Rightarrow> int64_range now
      | RelayTurn e \<Rightarrow> event_ok (proc n) e
      | ChatHears c now \<Rightarrow> int64_range now
      | ChatTurn c e \<Rightarrow> (\<forall>s. client_event_ok s e)
      | _ \<Rightarrow> True)"

subsection \<open>The invariant\<close>

text \<open>The record, as what the relay was told.\<close>

definition heard_of :: "net \<Rightarrow> heard" where
  "heard_of n =
     \<lparr>sends = {(q, m, pl). valid_utf8 m \<and> (\<exists>a. (a, q, m, chat_text pl) \<in> set (said n))},
      subs = set (asked n),
      acks = {(c, m). (c, m) \<in> set (acked n) \<or> (\<exists>q t. (c, q, m, t) \<in> set (shown n))}\<rparr>"

definition waiting :: "chat \<Rightarrow> string list" where
  "waiting s = buf (sendq (sess s)) @ (case rp s of Acking d \<Rightarrow> [d] | _ \<Rightarrow> [])"

definition chat_ok :: "net \<Rightarrow> nat \<Rightarrow> chat \<Rightarrow> bool" where
  "chat_ok n c s \<longleftrightarrow> (\<forall>f \<in> set (waiting s). hears_frame (heard_of n) c f) \<and>
     (\<forall>q m t. (c, q, m, t) \<in> set (shown n) \<longrightarrow> m \<in> set (seen (sess s)))"

definition shown_ok :: "net \<Rightarrow> nat \<times> string \<times> string \<times> string \<Rightarrow> bool" where
  "shown_ok n x \<longleftrightarrow> (case x of (c, q, m, t) \<Rightarrow>
     (c, q) \<in> set (asked n) \<and> (\<exists>a m'. (a, q, m', t) \<in> set (said n) \<and> (m' = [] \<or> m' = m)))"

definition net_inv :: "net \<Rightarrow> bool" where
  "net_inv n \<longleftrightarrow>
     relay_inv (proc n) \<and> process_stems (heard_of n) (proc n) \<and>
     (\<forall>c. \<forall>f \<in> set (up n c). hears_frame (heard_of n) c f) \<and>
     (\<forall>c. \<forall>f \<in> set (down n c). frame_stems (heard_of n) c f) \<and>
     (\<forall>c s. chats n c = Some s \<longrightarrow> chat_ok n c s) \<and>
     (\<forall>c q m t. (c, q, m, t) \<in> set (shown n) \<longrightarrow> chats n c \<noteq> None) \<and>
     (\<forall>x \<in> set (shown n). shown_ok n x) \<and>
     distinct (map (\<lambda>(c, q, m, t). (c, m)) (shown n))"

text \<open>A later network knows at least as much.\<close>

definition later :: "net \<Rightarrow> net \<Rightarrow> bool" where
  "later n n' \<longleftrightarrow> set (said n) \<subseteq> set (said n') \<and> set (shown n) \<subseteq> set (shown n') \<and>
     set (asked n) \<subseteq> set (asked n') \<and> set (acked n) \<subseteq> set (acked n')"

lemma later_heard: "later n n' \<Longrightarrow> heard_le (heard_of n) (heard_of n')"
  by (auto simp: later_def heard_le_def heard_of_def)

lemma later_shown_ok: "later n n' \<Longrightarrow> shown_ok n x \<Longrightarrow> shown_ok n' x"
  by (fastforce simp: later_def shown_ok_def)

lemma later_links:
  assumes "later n n'"
  shows "process_stems (heard_of n) p \<Longrightarrow> process_stems (heard_of n') p"
    "hears_frame (heard_of n) c f \<Longrightarrow> hears_frame (heard_of n') c f"
    "frame_stems (heard_of n) c f \<Longrightarrow> frame_stems (heard_of n') c f"
  using later_heard [OF assms] by (auto intro: process_stems_mono hears_frame_mono frame_stems_mono)

lemma later_chat_ok: "later n n' \<Longrightarrow> shown n' = shown n \<Longrightarrow> chat_ok n c s \<Longrightarrow> chat_ok n' c s"
  using later_links(2) by (auto simp: chat_ok_def)

lemma net_inv_start: "db_inv s \<Longrightarrow> messages_tab s = [] \<Longrightarrow> net_inv (start_net s)"
  using relay_inv_new [of s]
  by (simp add: net_inv_def start_net_def process_stems_def hub_stems_def db_stems_def table_stems_def)
    (simp add: new_relay_def NewHub_def)

subsection \<open>The record grows\<close>

lemma heard_of_simps [simp]:
  "heard_of (n\<lparr>proc := p\<rparr>) = heard_of n" "heard_of (n\<lparr>chats := cs\<rparr>) = heard_of n"
  "heard_of (n\<lparr>dialled := d\<rparr>) = heard_of n" "heard_of (n\<lparr>up := u\<rparr>) = heard_of n" "heard_of (n\<lparr>down := w\<rparr>) = heard_of n"
  "heard_of (n\<lparr>wrote := l\<rparr>) = heard_of n" "heard_of (n\<lparr>got := l\<rparr>) = heard_of n"
  by (simp_all add: heard_of_def)

lemma shown_ok_simps [simp]:
  "shown_ok (n\<lparr>proc := p\<rparr>) x = shown_ok n x" "shown_ok (n\<lparr>chats := cs\<rparr>) x = shown_ok n x"
  "shown_ok (n\<lparr>dialled := d\<rparr>) x = shown_ok n x" "shown_ok (n\<lparr>up := u\<rparr>) x = shown_ok n x" "shown_ok (n\<lparr>down := w\<rparr>) x = shown_ok n x"
  "shown_ok (n\<lparr>wrote := l\<rparr>) x = shown_ok n x" "shown_ok (n\<lparr>got := l\<rparr>) x = shown_ok n x"
  by (simp_all add: shown_ok_def)

lemma chat_ok_simps [simp]:
  "chat_ok (n\<lparr>proc := p\<rparr>) c s = chat_ok n c s" "chat_ok (n\<lparr>chats := cs\<rparr>) c s = chat_ok n c s"
  "chat_ok (n\<lparr>dialled := d\<rparr>) c s = chat_ok n c s" "chat_ok (n\<lparr>up := u\<rparr>) c s = chat_ok n c s" "chat_ok (n\<lparr>down := w\<rparr>) c s = chat_ok n c s"
  "chat_ok (n\<lparr>wrote := l\<rparr>) c s = chat_ok n c s" "chat_ok (n\<lparr>got := l\<rparr>) c s = chat_ok n c s"
  by (simp_all add: chat_ok_def)

lemma decode_chat_payload: "decode_chat e = decode_chat (zero_envelope\<lparr>Payload := Payload e\<rparr>)"
  by (simp add: decode_chat_def payload_bytes_def)

lemma chat_text_eq: "Payload e = Some (payload_text (RawMessage pl)) \<Longrightarrow> fst (decode_chat e) = chat_text pl"
  by (subst decode_chat_payload) (simp add: chat_text_def)

lemma chat_text_typed [simp]: "chat_text (Some (payload_text (ChatMessage t))) = to_valid_utf8 t"
proof -
  let ?p = "payload_text (ChatMessage t)"
  have "json_text (max_nesting - 1) ?p" by (rule payload_text_ok) simp
  then have "payload_text (RawMessage (Some ?p)) = ?p"
    using json_compact_text [OF json_text_mono [of "max_nesting - 1" ?p max_nesting]] by (simp add: payload_text_def [of "RawMessage _"])
  then show ?thesis using decode_chat_of [of "zero_envelope\<lparr>Payload := Some ?p\<rparr>" t] by (simp add: chat_text_def)
qed

text \<open>What an outsider writes is heard, once it is on record.\<close>

lemma on_record_frame [simp]:
  "proc (on_record c f n) = proc n" "chats (on_record c f n) = chats n" "up (on_record c f n) = up n"
  "down (on_record c f n) = down n" "shown (on_record c f n) = shown n" "dialled (on_record c f n) = dialled n"
  "wrote (on_record c f n) = wrote n" "got (on_record c f n) = got n"
  by (simp_all add: on_record_def split: sum.split)

lemma on_record_later: "later n (on_record c f n)"
  by (auto simp: on_record_def later_def split: sum.split)

lemma on_record_hears: "hears_frame (heard_of (on_record c f n)) c f"
proof (cases "Parse f")
  case (Inr e)
  from Parse_texts [OF this] have "valid_utf8 (MsgID e)" by (simp add: texts_ok_def)
  with Inr show ?thesis
    by (auto simp: hears_frame_def hears_def on_record_def heard_of_def proto_simps)
qed (simp add: hears_frame_def)

subsection \<open>What a chat shows\<close>

lemma showing_entry:
  assumes "x \<in> set (showing c f s)"
  obtains q m t sn where "x = (c, q, m, t)" "receive (seen (sess s)) f = (ShowChat q m t, sn)"
  using assms by (cases "receive (seen (sess s)) f") (auto simp: showing_def split: action.splits)

lemma showing_ok:
  assumes "frame_stems (heard_of n) c f" "x \<in> set (showing c f s)"
  shows "shown_ok n x"
proof -
  obtain q m t sn where x: "x = (c, q, m, t)" "receive (seen (sess s)) f = (ShowChat q m t, sn)"
    by (rule showing_entry [OF assms(2)])
  from receive_ShowChat [OF x(2)] obtain e where e: "Parse f = Inr e" "Typ e = TypeDeliver" "QueueID e = q" "MsgID e = m"
    "decode_chat e = (t, False)" by blast
  with assms(1) have "deliver_stems (heard_of n) c e" by (simp add: frame_stems_def)
  then obtain mid pl m' where d: "(c, q) \<in> set (asked n)" "m = to_valid_utf8 mid" "Payload e = Some (payload_text (RawMessage pl))"
    "valid_utf8 m'" "\<exists>a. (a, q, m', chat_text pl) \<in> set (said n)" "m' = [] \<or> m' = mid"
    using e by (auto simp: deliver_stems_def stems_def heard_of_def)
  have "t = chat_text pl" using chat_text_eq [OF d(3)] e(5) by simp
  moreover have "m' = [] \<or> m' = m" using d(2,4,6) by (auto simp: valid_utf8_def)
  ultimately show ?thesis using x(1) d(1,5) by (auto simp: shown_ok_def)
qed

text \<open>After a frame: what waits was waiting or is the ACK of what was shown.\<close>

lemma waiting_receive:
  assumes "rp s = Receiving" "int64_range now" "f \<in> set (waiting (receive_turn now data s))"
  shows "f \<in> set (waiting s) \<or>
    (\<exists>q m t. (c, q, m, t) \<in> set (showing c data s) \<and> (\<exists>e. Parse f = Inr e \<and> Typ e = TypeAck \<and> MsgID e = m))"
proof -
  obtain a sn where r: "receive (seen (sess s)) data = (a, sn)" by (cases "receive (seen (sess s)) data")
  show ?thesis
  proof (cases a)
    case (ShowChat q m t)
    from receive_ShowChat [OF r [unfolded this]] have v: "valid_utf8 q" "valid_utf8 m" by blast+
    from ack_for_parses [OF assms(2) v] obtain d where d: "ack_for now q m = Some d"
      "Parse d = Inr \<lparr>Version = 1, Typ = TypeAck, QueueID = q, MsgID = m, TS = now, Payload = Some (payload_text (AckMessage m))\<rparr>"
      by blast
    then show ?thesis using assms(1,3) r ShowChat by (auto simp: receive_turn_def waiting_def showing_def)
  qed (use assms(1,3) r in \<open>auto simp: receive_turn_def waiting_def\<close>)
qed

lemma seen_receive:
  "set (seen (sess s)) \<subseteq> set (seen (sess (receive_turn now data s)))"
  "(c, q, m, t) \<in> set (showing c data s) \<Longrightarrow> m \<in> set (seen (sess (receive_turn now data s))) \<and> m \<notin> set (seen (sess s))"
proof -
  obtain a sn where r: "receive (seen (sess s)) data = (a, sn)" by (cases "receive (seen (sess s)) data")
  have s: "seen (sess (receive_turn now data s)) = sn"
    by (cases a) (simp_all add: receive_turn_def r show_on_def)
  show "set (seen (sess s)) \<subseteq> set (seen (sess (receive_turn now data s)))"
    using receive_seen [OF r] s by auto
  show "(c, q, m, t) \<in> set (showing c data s) \<Longrightarrow> m \<in> set (seen (sess (receive_turn now data s))) \<and> m \<notin> set (seen (sess s))"
    using receive_ShowChat [of "seen (sess s)" data] r s by (auto simp: showing_def split: action.splits)
qed

subsection \<open>What a chat writes\<close>

lemma texts_simps [simp]: "texts [] = []" "texts (w # ws) = text_of w @ texts ws"
  by (simp_all add: texts_def)

lemma in_texts: "f \<in> set (texts ws) \<longleftrightarrow> TextMsg f \<in> set ws"
  by (auto simp: texts_def text_of_def split: wire.splits)

lemma write_turn_texts:
  assumes "write_turn tick ok q = Some (q', ws, go)"
  shows "set (buf q') \<union> set (texts ws) \<subseteq> set (buf q)"
  using assms by (auto simp: write_turn_def text_of_def split: if_splits list.splits)

lemma line_turn_waiting:
  assumes "client_event_ok s (Line now r line)" "f \<in> set (waiting (line_turn now r line s))"
  shows "f \<in> set (waiting s) \<or> (\<exists>e t. Parse f = Inr e \<and> Typ e = TypeSend \<and> valid_utf8 (MsgID e) \<and>
    Payload e = Some (payload_text (ChatMessage t)) \<and>
    saying c (Line now r line) s = [(c, QueueID e, MsgID e, to_valid_utf8 t)])"
proof -
  let ?t = "TrimSpace line"
  obtain d where d: "typed_frame now r ?t (sess s) = Some d"
    "Parse d = Inr \<lparr>Version = 1, Typ = TypeSend, QueueID = to_valid_utf8 (my_queue (sess s)), MsgID = to_valid_utf8 (new_mid r),
      TS = now, Payload = Some (payload_text (ChatMessage ?t))\<rparr>"
    using typed_frame_parses [of now r ?t "sess s"] assms(1) by (auto simp: client_event_ok_def)
  have v: "valid_utf8 (to_valid_utf8 (new_mid r))"
    using Parse_texts [OF d(2)] by (simp add: texts_ok_def)
  show ?thesis
  proof (cases "?t = [] \<or> ?t = ''/quit'' \<or> \<not> has_room s")
    case True
    then have "waiting (line_turn now r line s) = waiting s"
      using d(1) by (elim disjE) (simp_all add: line_turn_def waiting_def Let_def)
    with assms(2) show ?thesis by simp
  next
    case False
    then have "line_turn now r line s = show_on (clearLine @ prompt) (enqueue d s)" using d(1) by (simp add: line_turn_def)
    then have "f \<in> set (waiting s) \<or> f = d" using assms(2) by (auto simp: waiting_def enqueue_def)
    then show ?thesis using d(2) v False by (auto simp: saying_def)
  qed
qed

text \<open>A step that does not read: the frames it leaves waiting and those it writes.\<close>

lemma chat_turn_frames:
  assumes "client_step s e s'" "\<not> reading e" "client_event_ok s e"
    and "f \<in> set (waiting s') \<or> f \<in> set (texts (drop (length (wire_out s)) (wire_out s')))"
  shows "f \<in> set (waiting s) \<or> (\<exists>x t. Parse f = Inr x \<and> Typ x = TypeSend \<and> valid_utf8 (MsgID x) \<and>
    Payload x = Some (payload_text (ChatMessage t)) \<and> saying c e s = [(c, QueueID x, MsgID x, to_valid_utf8 t)])"
  using assms(1)
proof (cases rule: client_stepE)
  case (frame_in data now)
  with assms(2) show ?thesis by (simp add: reading_def)
next
  case read_ends
  with assms(4) show ?thesis by (simp add: waiting_def)
next
  case (ack_queued d)
  with assms(4) show ?thesis by (auto simp: waiting_def enqueue_def)
next
  case (write_frame tick ok q ws go)
  with assms(4) write_turn_texts [of tick ok "sendq (sess s)" q ws go] show ?thesis by (auto simp: waiting_def)
next
  case (line_in line now r)
  have "wire_out (line_turn now r line s) = wire_out s"
    by (simp add: line_turn_def enqueue_def Let_def split: option.split)
  with line_in assms(3,4) line_turn_waiting [of s now r line f c] show ?thesis by simp
next
  case input_ends
  with assms(4) show ?thesis by (simp add: waiting_def)
qed

lemma chat_turn_seen: "client_step s e s' \<Longrightarrow> \<not> reading e \<Longrightarrow> seen (sess s') = seen (sess s)"
  by (erule client_stepE) (auto simp: reading_def line_turn_def enqueue_def Let_def split: option.split)

lemma chat_turn_hears:
  assumes "client_step s e s'" "\<not> reading e" "client_event_ok s e" "chat_ok n c s"
    and "f \<in> set (waiting s') \<or> f \<in> set (texts (drop (length (wire_out s)) (wire_out s')))"
  shows "hears_frame (heard_of (n\<lparr>said := said n @ saying c e s\<rparr>)) c f"
proof -
  let ?n = "n\<lparr>said := said n @ saying c e s\<rparr>"
  have l: "later n ?n" by (auto simp: later_def)
  from chat_turn_frames [OF assms(1-3,5), of c] show ?thesis
  proof (elim disjE exE conjE)
    assume "f \<in> set (waiting s)"
    with assms(4) later_links(2) [OF l] show ?thesis by (simp add: chat_ok_def)
  next
    fix x t
    assume "Parse f = Inr x" "Typ x = TypeSend" "valid_utf8 (MsgID x)" "Payload x = Some (payload_text (ChatMessage t))"
      "saying c e s = [(c, QueueID x, MsgID x, to_valid_utf8 t)]"
    then show ?thesis by (auto simp: hears_frame_def hears_def heard_of_def proto_simps)
  qed
qed

subsection \<open>The invariant is kept\<close>

lemma net_inv_hears:
  assumes "net_inv n" "chats n c = Some s" "down n c = f # fs" "client_step s (FrameIn now f) s'" "int64_range now"
  shows "net_inv (n\<lparr>chats := (chats n)(c \<mapsto> s'), down := (down n)(c := fs), shown := shown n @ showing c f s\<rparr>)" (is "net_inv ?n")
proof -
  have s': "s' = receive_turn now f s" "rp s = Receiving" using assms(4) by (auto elim: client_stepE)
  have l: "later n ?n" by (auto simp: later_def)
  note L = later_links [OF l] later_shown_ok [OF l]
  have ok: "chat_ok n c s" using assms(1,2) by (simp add: net_inv_def)
  have ent: "\<exists>q m t. x = (c, q, m, t)" if "x \<in> set (showing c f s)" for x by (rule showing_entry [OF that]) blast
  have sok: "shown_ok ?n x" if "x \<in> set (showing c f s)" for x
    using showing_ok [OF _ that, of n] assms(1,3) L(4) by (simp add: net_inv_def)
  have one: "chat_ok ?n c s'"
  proof -
    have "hears_frame (heard_of ?n) c g" if g: "g \<in> set (waiting s')" for g
      using waiting_receive [OF s'(2) assms(5), of g f c] g ok L(2)
      unfolding s'(1) by (fastforce simp: chat_ok_def hears_frame_def hears_def heard_of_def proto_simps)
    moreover have "m \<in> set (seen (sess s'))" if "(c, q, m, t) \<in> set (shown ?n)" for q m t
    proof (cases "(c, q, m, t) \<in> set (shown n)")
      case True
      with ok have "m \<in> set (seen (sess s))" unfolding chat_ok_def by blast
      then show ?thesis using seen_receive(1) s'(1) by blast
    next
      case False
      with that have "(c, q, m, t) \<in> set (showing c f s)" by simp
      then show ?thesis using seen_receive(2) s'(1) by blast
    qed
    ultimately show ?thesis by (simp add: chat_ok_def)
  qed
  have others: "chat_ok ?n d x" if "d \<noteq> c" "chats n d = Some x" for d x
    using that assms(1) L(2) ent by (fastforce simp: net_inv_def chat_ok_def)
  have fresh: "(c, m) \<notin> set (map (\<lambda>(c, q, m, t). (c, m)) (shown n))" if "(c, q, m, t) \<in> set (showing c f s)" for q m t
    using seen_receive(2) [OF that, of now] ok by (auto simp: chat_ok_def)
  have "length (showing c f s) \<le> 1" by (simp add: showing_def split: action.split)
  then have "distinct (map (\<lambda>(c, q, m, t). (c, m)) (shown ?n))"
  proof (cases "showing c f s")
    case (Cons x xs)
    with \<open>length (showing c f s) \<le> 1\<close> have x: "showing c f s = [x]" by simp
    with ent obtain q m t where "x = (c, q, m, t)" by auto
    with fresh [of q m t] x assms(1) show ?thesis by (simp add: net_inv_def)
  qed (use assms(1) in \<open>simp add: net_inv_def\<close>)
  moreover have "chats ?n d \<noteq> None" if "(d, q, m, t) \<in> set (shown ?n)" for d q m t
  proof (cases "(d, q, m, t) \<in> set (shown n)")
    case True
    with assms(1) have "chats n d \<noteq> None" unfolding net_inv_def by blast
    then show ?thesis by simp
  next
    case False
    with that have "(d, q, m, t) \<in> set (showing c f s)" by simp
    with ent show ?thesis by auto
  qed
  ultimately show ?thesis
    using assms(1-3) one others sok L unfolding net_inv_def
    by (intro conjI allI impI ballI) (auto split: if_splits)
qed

lemma net_inv_turn:
  assumes "net_inv n" "chats n c = Some s" "\<not> reading e" "client_step s e s'" "client_event_ok s e"
  shows "net_inv (n\<lparr>chats := (chats n)(c \<mapsto> s'), up := (up n)(c := up n c @ texts (drop (length (wire_out s)) (wire_out s'))),
      said := said n @ saying c e s\<rparr>)" (is "net_inv ?n")
proof -
  have l: "later n ?n" by (auto simp: later_def)
  note L = later_links [OF l] later_shown_ok [OF l] later_chat_ok [OF l]
  have ok: "chat_ok n c s" using assms(1,2) by (simp add: net_inv_def)
  have h: "heard_of ?n = heard_of (n\<lparr>said := said n @ saying c e s\<rparr>)" by (simp add: heard_of_def)
  have k: "hears_frame (heard_of ?n) c f" if "f \<in> set (waiting s') \<or> f \<in> set (texts (drop (length (wire_out s)) (wire_out s')))" for f
    unfolding h by (rule chat_turn_hears [OF assms(4,3,5) ok that])
  have "chat_ok ?n c s'"
    using ok k chat_turn_seen [OF assms(4,3)] by (simp add: chat_ok_def)
  with assms(1,2) L k show ?thesis unfolding net_inv_def by auto
qed

lemma net_inv_step:
  assumes "net_step jerr n ev n'" "net_inv n" "net_ok n ev"
  shows "net_inv n'"
  using assms(1)
proof (cases rule: net_stepE)
  case (dial c p)
  have e: "event_ok (proc n) (Accept c)" by (simp add: event_ok_def)
  with process_stems_step [OF dial(4) _ e, of "heard_of n"] relay_inv_step [OF dial(4) _ e] assms(2) dial show ?thesis
    by (simp add: net_inv_def)
next
  case (relay_reads c f fs now p)
  have e: "event_ok (proc n) (Frame c now f)" using assms(3) relay_reads by (simp add: event_ok_def net_ok_def)
  with process_stems_step [OF relay_reads(4) _ e, of "heard_of n"] relay_inv_step [OF relay_reads(4) _ e] assms(2) relay_reads
  show ?thesis by (auto simp: net_inv_def)
next
  case (relay_writes r c tick ok x ws go)
  have st: "relay_step jerr (proc n) (WriteTurn c tick ok) (Up (put_wire c (x, ws, go) r))"
    using relay_writes by (auto intro: write_out)
  have e: "event_ok (proc n) (WriteTurn c tick ok)" by (simp add: event_ok_def)
  have "frame_stems (heard_of n) c f" if "f \<in> set (texts ws)" for f
    using written_stems [of "heard_of n" r tick ok c x ws go f] that relay_writes assms(2) by (simp add: net_inv_def in_texts)
  with process_stems_step [OF st _ e, of "heard_of n"] relay_inv_step [OF st _ e] assms(2) relay_writes show ?thesis
    by (auto simp: net_inv_def)
next
  case (relay_turn e p)
  have e: "event_ok (proc n) e" using assms(3) relay_turn by (simp add: net_ok_def)
  have "e \<noteq> Frame c now f" for c now f using relay_turn(3) by (auto simp: internal_def)
  then have "process_stems (heard_of n) p"
    using process_stems_step [OF relay_turn(4) _ e, of "heard_of n"] assms(2) by (simp add: net_inv_def)
  with relay_inv_step [OF relay_turn(4) _ e] assms(2) relay_turn show ?thesis by (simp add: net_inv_def)
next
  case (join c se)
  have "(c, q, m, t) \<notin> set (shown n)" for q m t using assms(2) join by (auto simp only: net_inv_def)
  with join have "chat_ok n c (start_chat se)" by (simp add: chat_ok_def waiting_def start_chat_def)
  with assms(2) join show ?thesis by (auto simp: net_inv_def)
next
  case (chat_hears c s f fs now s')
  with assms(2,3) net_inv_hears show ?thesis by (simp add: net_ok_def)
next
  case (chat_turn c s e s')
  with assms(2,3) net_inv_turn show ?thesis by (simp add: net_ok_def)
next
  case (other_writes c f)
  let ?n = "n\<lparr>up := (up n)(c := up n c @ [f]), wrote := wrote n @ [(c, f)]\<rparr>"
  have l: "later n n'" using on_record_later [of ?n c f] other_writes by (simp add: later_def)
  note L = later_links [OF l] later_shown_ok [OF l] later_chat_ok [OF l]
  have "hears_frame (heard_of n') c f" using on_record_hears other_writes by simp
  with assms(2) L other_writes show ?thesis unfolding net_inv_def by auto
next
  case (other_hears c f fs)
  with assms(2) show ?thesis by (auto simp: net_inv_def)
qed

interpretation net: machine net_ok "net_step jerr" net_inv for jerr
  by unfold_locales (rule net_inv_step)

end
