(* ===== verification/Network_Run.thy ===== *)
theory Network_Run
  imports Network
begin

text \<open>
  Runs of the network: a frame from a chat to the hub, a frame from the hub to a chat, and from these a typed line
  to the other screen and its acknowledgement back.
\<close>

subsection \<open>One hop\<close>

text \<open>Steps during which nothing goes wrong: no crash, no sweep.\<close>

definition quiet :: "net \<Rightarrow> net_event \<Rightarrow> bool" where
  "quiet n ev \<longleftrightarrow> net_ok n ev \<and> (\<forall>fs fk now. ev \<noteq> RelayTurn (SweepTick fs fk now)) \<and> ev \<noteq> RelayTurn Kill"

definition written :: "string \<Rightarrow> chat \<Rightarrow> chat" where
  "written f s = s\<lparr>sess := (sess s)\<lparr>sendq := (sendq (sess s))\<lparr>buf := []\<rparr>\<rparr>, wire_out := wire_out s @ [TextMsg f],
     wp_on := True, conn_open := True\<rparr>"

lemma written_simps [simp]:
  "typing (written f s) = typing s" "wp_on (written f s)" "conn_open (written f s)" "rp (written f s) = rp s"
  "buf (sendq (sess (written f s))) = []" "screen (written f s) = screen s" "seen (sess (written f s)) = seen (sess s)"
  "wire_out (written f s) = wire_out s @ [TextMsg f]" "my_queue (sess (written f s)) = my_queue (sess s)"
  by (simp_all add: written_def)

lemma read_command:
  "Parse f = Inr e \<Longrightarrow> Typ e \<noteq> TypePing \<Longrightarrow> read_frame jerr now f x = Ret (x, Some e)"
  by (simp add: read_frame_def)

text \<open>The only frame in a chat's queue: written, read by the relay, handled by the hub.\<close>

lemma hop_up:
  assumes "chats n c = Some s" "typing s" "wp_on s" "conn_open s" "buf (sendq (sess s)) = [f]" "up n c = []"
    and "proc n = Up r" "readers r c = Reading" "length f \<le> maxMsgSize" "Parse f = Inr e" "Typ e \<noteq> TypePing"
    and "int64_range now" "io_ok io" "handle io c e (core r) = Ret h"
  shows "reaches quiet (net_step jerr) n (n\<lparr>chats := (chats n)(c \<mapsto> written f s), proc := Up (r\<lparr>core := h\<rparr>)\<rparr>)"
proof -
  let ?n1 = "n\<lparr>chats := (chats n)(c \<mapsto> written f s), up := (up n)(c := [f])\<rparr>"
  let ?r2 = "set_reader c (Handing e) r"
  let ?n2 = "n\<lparr>chats := (chats n)(c \<mapsto> written f s), proc := Up ?r2\<rparr>"
  have w: "client_step s (WriteOut False True) (written f s)"
    using write_one [OF assms(2-5)] by (simp add: written_def)
  have "net_step jerr n (ChatTurn c (WriteOut False True)) ?n1"
    using net_step.chat_turn [OF assms(1) _ w, of jerr] assms(6) by (simp add: saying_def reading_def text_of_def)
  then have r1: "reaches quiet (net_step jerr) n ?n1"
    by (rule onward [OF here, rotated]) (simp add: quiet_def net_ok_def client_event_ok_def)
  have "read_turn jerr now c f r = Up ?r2"
    using read_command [OF assms(10,11)] by (simp add: read_turn_def set_reader_def)
  then have f: "relay_step jerr (proc ?n1) (Frame c now f) (Up ?r2)"
    using frame [of r c f jerr now] assms(7-9) by simp
  have "net_step jerr ?n1 (RelayReads c now) ?n2"
    using net_step.relay_reads [OF _ f, of "[]"] assms(6) by (simp add: fun_upd_idem)
  then have r2: "reaches quiet (net_step jerr) n ?n2"
    by (rule onward [OF r1, rotated]) (use assms(12) in \<open>simp add: quiet_def net_ok_def\<close>)
  have t: "relay_step jerr (proc ?n2) (HubRoute c io) (Up (r\<lparr>core := h\<rparr>))"
  proof -
    have "readers ?r2 c = Handing e" by (simp add: set_reader_def)
    from route [OF this, of jerr io] show ?thesis
      using assms(8,14) by (simp add: hub_turn_def after_turn_def set_reader_def fun_upd_idem)
  qed
  have "net_step jerr ?n2 (RelayTurn (HubRoute c io)) (n\<lparr>chats := (chats n)(c \<mapsto> written f s), proc := Up (r\<lparr>core := h\<rparr>)\<rparr>)"
    using net_step.relay_turn [OF _ t] by (simp add: internal_def)
  then show ?thesis
    by (rule onward [OF r2, rotated]) (use assms(13) in \<open>simp add: quiet_def net_ok_def event_ok_def\<close>)
qed

text \<open>The first frame in a connection's channel: written by the relay, taken by the chat.\<close>

lemma hop_down:
  assumes "proc n = Up r" "writing r d" "buf (conns (core r) d) = g # gs" "down n d = []"
    and "chats n d = Some s" "typing s" "rp s = Receiving" "conn_open s" "length g \<le> maxMsgSize" "int64_range now"
  defines "r' \<equiv> put_wire d ((conns (core r) d)\<lparr>buf := gs\<rparr>, [TextMsg g], True) r"
  shows "reaches quiet (net_step jerr) n
    (n\<lparr>proc := Up r', chats := (chats n)(d \<mapsto> receive_turn now g s), shown := shown n @ showing d g s\<rparr>)"
proof -
  let ?n1 = "n\<lparr>proc := Up r', down := (down n)(d := [g])\<rparr>"
  have wt: "write_turn False True (conns (core r) d) = Some ((conns (core r) d)\<lparr>buf := gs\<rparr>, [TextMsg g], True)"
    using assms(3) by (simp add: write_turn_def)
  have "net_step jerr n (RelayWrites d False True) ?n1"
    using net_step.relay_writes [OF assms(1,2) wt, of jerr] assms(4) by (simp add: r'_def text_of_def)
  then have r1: "reaches quiet (net_step jerr) n ?n1"
    by (rule onward [OF here, rotated]) (simp add: quiet_def net_ok_def)
  have f: "client_step s (FrameIn now g) (receive_turn now g s)" using assms(6-9) by (intro frame_in)
  have "net_step jerr ?n1 (ChatHears d now)
      (n\<lparr>proc := Up r', chats := (chats n)(d \<mapsto> receive_turn now g s), shown := shown n @ showing d g s\<rparr>)"
    using net_step.chat_hears [OF _ _ f, of ?n1 d "[]" jerr] assms(4,5) by (simp add: fun_upd_idem)
  then show ?thesis
    by (rule onward [OF r1, rotated]) (use assms(10) in \<open>simp add: quiet_def net_ok_def\<close>)
qed

text \<open>A chat's own step that writes nothing.\<close>

lemma hop_chat:
  assumes "chats n c = Some s" "client_step s e s'" "\<not> reading e" "\<And>s. client_event_ok s e" "wire_out s' = wire_out s"
  shows "reaches quiet (net_step jerr) n (n\<lparr>chats := (chats n)(c \<mapsto> s'), said := said n @ saying c e s\<rparr>)"
proof -
  have "net_step jerr n (ChatTurn c e) (n\<lparr>chats := (chats n)(c \<mapsto> s'), said := said n @ saying c e s\<rparr>)"
    using net_step.chat_turn [OF assms(1,3,2), of jerr] assms(5) by simp
  then show ?thesis
    by (rule onward [OF here, rotated]) (use assms(4) in \<open>simp add: quiet_def net_ok_def\<close>)
qed

subsection \<open>A line there, an acknowledgement back\<close>

lemma receive_turn_frame [simp]:
  "typing (receive_turn now g s) = typing s" "wp_on (receive_turn now g s) = wp_on s"
  "conn_open (receive_turn now g s) = conn_open s" "sendq (sess (receive_turn now g s)) = sendq (sess s)"
  "wire_out (receive_turn now g s) = wire_out s"
  by (simp_all add: receive_turn_def Let_def split: prod.split action.split)

lemma length_ack_frame:
  assumes "ValidQueueID q" "length b = 16" "int64_range now" "ack_for now q (hex_encode b) = Some k"
  shows "length k \<le> maxMsgSize"
proof -
  have q: "length (enc_string q) = 34" "q \<noteq> []"
    using assms(1) length_enc_safe [OF hex_safe, of q] by (auto simp: ValidQueueID_iff)
  have m: "length (enc_string (hex_encode b)) = 34"
    using length_enc_safe [OF hex_safe [OF lower_hex_all [OF hex_encode_lower]], of b] assms(2) by simp
  have t: "length (enc_string TypeAck) = 5" by (subst length_enc_safe) (simp_all add: html_safe_def proto_simps)
  have p: "length (payload_text (AckMessage (hex_encode b))) \<le> 100"
    by (simp add: payload_text_def length_enc_object m)
  show ?thesis
    using length_frame [OF sendable_plain(3) q(2) hex_not_Nil [OF assms(2)], of now TypeAck "hex_encode b" k]
      assms(4) q m t p length_show_int [OF assms(3)] by (simp add: ack_for_def maxMsgSize_def)
qed

text \<open>Both ends of a line with nothing under way.\<close>

definition ready :: "net \<Rightarrow> relay \<Rightarrow> nat \<Rightarrow> chat \<Rightarrow> bool" where
  "ready n r c s \<longleftrightarrow> chats n c = Some s \<and> typing s \<and> wp_on s \<and> conn_open s \<and> rp s = Receiving \<and> buf (sendq (sess s)) = [] \<and>
     up n c = [] \<and> down n c = [] \<and> readers r c = Reading \<and> writing r c"

lemma length_esc_line:
  assumes "t = TrimSpace line" "length line \<le> 10000"
  shows "length (esc_string t) \<le> 60000"
proof -
  obtain u w where "line = u @ t @ w" using TrimSpace_infix [of line] assms(1) by auto
  then show ?thesis using length_esc_string [of t] assms(2) by simp
qed

text \<open>A typed line, until the hub has handled it.\<close>

definition sent_line :: "string \<Rightarrow> chat \<Rightarrow> chat" where
  "sent_line f a = written f (show_on (clearLine @ prompt) (enqueue f a))"

lemma sent_line_simps [simp]:
  "typing (sent_line f a) = typing a" "wp_on (sent_line f a)" "conn_open (sent_line f a)" "rp (sent_line f a) = rp a"
  "buf (sendq (sess (sent_line f a))) = []" "seen (sess (sent_line f a)) = seen (sess a)"
  "my_queue (sess (sent_line f a)) = my_queue (sess a)"
  by (simp_all add: sent_line_def enqueue_def)

lemma line_up:
  assumes "ready n r c a" "my_queue (sess a) = q" "ValidQueueID q" "proc n = Up r" "io_ok io"
    and "handle io c (typed_envelope now b q t) (core r) = Ret h"
    and line: "t = TrimSpace line" "t \<noteq> []" "t \<noteq> ''/quit''" "length line \<le> 10000" "length b = 16" "int64_range now" "int64_range now1"
  obtains f where "reaches quiet (net_step jerr) n
    (n\<lparr>said := said n @ [(c, q, hex_encode b, to_valid_utf8 t)], chats := (chats n)(c \<mapsto> sent_line f a), proc := Up (r\<lparr>core := h\<rparr>)\<rparr>)"
proof -
  note ready = assms(1) [unfolded ready_def]
  obtain f where f: "typed_frame now (Some b) t (sess a) = Some f" "Parse f = Inr (typed_envelope now b q t)"
    using typed_frame_envelope [OF line(6), of "sess a" b t] assms(2,3) by auto
  have e: "length (esc_string t) \<le> 60000" by (rule length_esc_line [OF line(1,4)])
  have lf: "length f \<le> maxMsgSize"
    using length_typed_frame [OF _ line(5) f(1)] assms(2,3) e length_show_int [OF line(6)] by (simp add: maxMsgSize_def)
  let ?a1 = "show_on (clearLine @ prompt) (enqueue f a)"
  let ?n1 = "n\<lparr>chats := (chats n)(c \<mapsto> ?a1), said := said n @ [(c, q, hex_encode b, to_valid_utf8 t)]\<rparr>"
  have room: "has_room a" using ready by (simp add: has_room_def)
  have "client_step a (Line now (Some b) line) (line_turn now (Some b) line a)"
    using ready line(4) by (intro line_in) (simp_all add: max_token_def)
  moreover have "line_turn now (Some b) line a = ?a1" using room line(1-3) f(1) by (simp add: line_turn_def)
  moreover have "saying c (Line now (Some b) line) a = [(c, q, hex_encode b, to_valid_utf8 t)]"
    using room line(1-3) ValidQueueID_utf8 [OF assms(3)] assms(2) by (simp add: saying_def)
  ultimately have r1: "reaches quiet (net_step jerr) n ?n1"
    using hop_chat [of n c a "Line now (Some b) line" ?a1 jerr] ready line(5,6)
    by (simp add: reading_def client_event_ok_def enqueue_def)
  have "reaches quiet (net_step jerr) ?n1 (?n1\<lparr>chats := (chats ?n1)(c \<mapsto> written f ?a1), proc := Up (r\<lparr>core := h\<rparr>)\<rparr>)"
    using ready assms(4-6) lf f(2) line(7)
    by (intro hop_up [where e = "typed_envelope now b q t" and now = now1 and io = io])
      (simp_all add: enqueue_def typed_envelope_def, simp add: proto_simps)
  from that [of f] reaches_trans [OF this r1] show thesis by (simp add: sent_line_def)
qed

text \<open>The first half: typed at \<open>c\<close>, stored, shown at \<open>d\<close>, whose acknowledgement is ready.\<close>

lemma line_there:
  assumes relay: "proc n = Up r" "good C (core r)" "io_ok io" "c \<in> C" "map_of (queues (core r)) (my_queue (sess a)) = Some qs"
      "sub qs = Some d" "d \<noteq> c" "buf (conns (core r) d) = []"
      "send_stores io (typed_envelope now b (my_queue (sess a)) t) (core r)"
    and ends: "ready n r c a" "ready n r d s" "hex_encode b \<notin> set (seen (sess s))"
    and line: "t = TrimSpace line" "t \<noteq> []" "t \<noteq> ''/quit''" "length line \<le> 10000" "length b = 16"
      "int64_range now" "int64_range now1" "int64_range now2"
  shows "\<exists>n' r' s' k. reaches quiet (net_step jerr) n n' \<and> proc n' = Up r' \<and>
    said n' = said n @ [(c, my_queue (sess a), hex_encode b, to_valid_utf8 t)] \<and>
    shown n' = shown n @ [(d, my_queue (sess a), hex_encode b, to_valid_utf8 t)] \<and>
    sent_message io (typed_envelope now b (my_queue (sess a)) t) \<in> set (pending (disk (proc n')) (my_queue (sess a))) \<and>
    chats n' d = Some s' \<and> screen s' = screen s @ [clearLine @ ''['' @ nick (sess s) @ ''] '' @ to_valid_utf8 t @ newline @ prompt] \<and>
    typing s' \<and> wp_on s' \<and> conn_open s' \<and> rp s' = Acking k \<and> buf (sendq (sess s')) = [] \<and> up n' d = [] \<and> readers r' d = Reading \<and>
    length k \<le> maxMsgSize \<and>
    Parse k = Inr \<lparr>Version = 1, Typ = TypeAck, QueueID = my_queue (sess a), MsgID = hex_encode b, TS = now2,
      Payload = Some (payload_text (AckMessage (hex_encode b)))\<rparr>"
proof -
  define q where "q = my_queue (sess a)"
  note relay = relay [folded q_def]
  have v: "ValidQueueID q" using map_of_valid [OF _ relay(5)] relay(2) by (simp add: good_def hub_inv_def)
  obtain h g where g: "handle io c (typed_envelope now b q t) (core r) = Ret h" "deliver_frame io (typed_envelope now b q t) = Some g"
    "Parse g = Inr \<lparr>Version = 1, Typ = TypeDeliver, QueueID = q, MsgID = hex_encode b, TS = clock io 2,
       Payload = Some (payload_text (ChatMessage t))\<rparr>" "buf (conns h d) = [g]"
    "sent_message io (typed_envelope now b q t) \<in> set (pending (db h) q)"
    using typed_line_delivered [OF relay(2-4) line(5) relay(5,6,9)] relay(7,8) by (auto simp: sendCap_def)
  have e: "length (esc_string t) \<le> 60000" by (rule length_esc_line [OF line(1,4)])
  have lg: "length g \<le> maxMsgSize"
    using length_delivered_frame [OF v line(5) g(2)] e length_show_int [OF io_ok_clock [OF relay(3)], of 2] by (simp add: maxMsgSize_def)
  obtain f where r2: "reaches quiet (net_step jerr) n
      (n\<lparr>said := said n @ [(c, q, hex_encode b, to_valid_utf8 t)], chats := (chats n)(c \<mapsto> sent_line f a), proc := Up (r\<lparr>core := h\<rparr>)\<rparr>)"
    using line_up [OF ends(1) q_def [symmetric] v relay(1,3) g(1) line(1-7), of jerr] by blast
  note ends = ends [unfolded ready_def]
  let ?n2 = "n\<lparr>said := said n @ [(c, q, hex_encode b, to_valid_utf8 t)], chats := (chats n)(c \<mapsto> sent_line f a), proc := Up (r\<lparr>core := h\<rparr>)\<rparr>"
  let ?r2 = "r\<lparr>core := h\<rparr>" and ?s = "receive_turn now2 g s"
  let ?r3 = "put_wire d ((conns (core ?r2) d)\<lparr>buf := []\<rparr>, [TextMsg g], True) ?r2"
  let ?n3 = "?n2\<lparr>proc := Up ?r3, chats := (chats ?n2)(d \<mapsto> ?s), shown := shown ?n2 @ showing d g s\<rparr>"
  have r3: "reaches quiet (net_step jerr) ?n2 ?n3"
    using ends(2) relay(7) g(4) lg line(8) by (intro hop_down) simp_all
  note sh = client_shows [OF g(3) ends(3) line(8)]
  have "receive (seen (sess s)) g = (ShowChat q (hex_encode b) (to_valid_utf8 t), hex_encode b # seen (sess s))"
    using g(3) ends(3) by (simp add: receive_def decode_chat_of)
  then have sw: "showing d g s = [(d, q, hex_encode b, to_valid_utf8 t)]" by (simp add: showing_def)
  have vm: "valid_utf8 (hex_encode b)" by (simp add: valid_utf8_def)
  obtain k where k: "rp ?s = Acking k" "Parse k = Inr \<lparr>Version = 1, Typ = TypeAck, QueueID = q, MsgID = hex_encode b, TS = now2,
      Payload = Some (payload_text (AckMessage (hex_encode b)))\<rparr>" using sh(3) by blast
  have "ack_for now2 q (hex_encode b) = Some k"
    using k(1) ack_for_parses [OF line(8) _ vm, of q] ValidQueueID_utf8 [OF v] \<open>receive (seen (sess s)) g = _\<close>
    by (auto simp: receive_turn_def valid_utf8_def)
  then have lk: "length k \<le> maxMsgSize" by (rule length_ack_frame [OF v line(5,8)])
  have "reaches quiet (net_step jerr) n ?n3" by (rule reaches_trans [OF r3 r2])
  then show ?thesis
    unfolding q_def [symmetric]
    using ends(2) sh(1) k lk sw g(5) by (intro exI [of _ ?n3] exI [of _ ?r3] exI [of _ ?s] exI [of _ k]) (simp add: put_wire_def)
qed

text \<open>The second half: the acknowledgement goes back and the message is gone.\<close>

lemma ack_back:
  assumes "proc n = Up r" "chats n d = Some s" "typing s" "wp_on s" "conn_open s" "rp s = Acking k" "buf (sendq (sess s)) = []"
    and "up n d = []" "readers r d = Reading" "length k \<le> maxMsgSize" "Parse k = Inr y" "Typ y = TypeAck"
    and "8 \<le> length (QueueID y)" "8 \<le> length (MsgID y)" "io_ok io" "\<not> f_delete io" "int64_range now"
  shows "\<exists>n' s' r'. reaches quiet (net_step jerr) n n' \<and> said n' = said n \<and> shown n' = shown n \<and> proc n' = Up r' \<and>
    MsgID y \<notin> row_mid ` set (messages_tab (disk (proc n'))) \<and> chats n' d = Some s' \<and> screen s' = screen s \<and> rp s' = Receiving"
proof -
  let ?s1 = "(enqueue k s)\<lparr>rp := Receiving\<rparr>"
  let ?n1 = "n\<lparr>chats := (chats n)(d \<mapsto> ?s1), said := said n @ []\<rparr>"
  have "client_step s AckQueued ?s1" using assms(3,6,7) by (intro ack_queued) (simp_all add: has_room_def)
  then have r1: "reaches quiet (net_step jerr) n ?n1"
    using hop_chat [of n d s AckQueued ?s1 jerr] assms(2) by (simp add: reading_def client_event_ok_def enqueue_def saying_def)
  obtain h where h: "handle io d y (core r) = Ret h" "MsgID y \<notin> row_mid ` set (messages_tab (db h))"
    using ack_removes [OF assms(12-14,16), of d "core r"] by blast
  have "Typ y \<noteq> TypePing" using assms(12) by (simp add: proto_simps)
  let ?n2 = "?n1\<lparr>chats := (chats ?n1)(d \<mapsto> written k ?s1), proc := Up (r\<lparr>core := h\<rparr>)\<rparr>"
  have "reaches quiet (net_step jerr) ?n1 ?n2"
    using assms h(1) \<open>Typ y \<noteq> TypePing\<close>
    by (intro hop_up [where e = y and now = now and io = io]) (simp_all add: enqueue_def)
  from reaches_trans [OF this r1] show ?thesis
    using h(2) by (intro exI [of _ ?n2] exI [of _ "written k ?s1"] exI [of _ "r\<lparr>core := h\<rparr>"]) (simp add: enqueue_def)
qed

text \<open>Both halves.\<close>

lemma line_crosses:
  assumes "proc n = Up r" "good C (core r)" "io_ok io" "io_ok io2" "\<not> f_delete io2" "c \<in> C"
      "map_of (queues (core r)) (my_queue (sess a)) = Some qs" "sub qs = Some d" "d \<noteq> c" "buf (conns (core r) d) = []"
      "send_stores io (typed_envelope now b (my_queue (sess a)) (TrimSpace line)) (core r)"
    and "ready n r c a" "ready n r d s" "hex_encode b \<notin> set (seen (sess s))"
    and "TrimSpace line \<noteq> []" "TrimSpace line \<noteq> ''/quit''" "length line \<le> 10000" "length b = 16" "int64_range now"
  shows "\<exists>n' s'. reaches quiet (net_step jerr) n n' \<and>
    said n' = said n @ [(c, my_queue (sess a), hex_encode b, to_valid_utf8 (TrimSpace line))] \<and>
    shown n' = shown n @ [(d, my_queue (sess a), hex_encode b, to_valid_utf8 (TrimSpace line))] \<and>
    chats n' d = Some s' \<and> rp s' = Receiving \<and>
    screen s' = screen s @ [clearLine @ ''['' @ nick (sess s) @ ''] '' @ to_valid_utf8 (TrimSpace line) @ newline @ prompt] \<and>
    hex_encode b \<notin> row_mid ` set (messages_tab (disk (proc n')))"
proof -
  have v: "ValidQueueID (my_queue (sess a))" using map_of_valid [OF _ assms(7)] assms(2) by (simp add: good_def hub_inv_def)
  obtain n1 r1 s1 k where n1: "reaches quiet (net_step jerr) n n1" "proc n1 = Up r1"
    "said n1 = said n @ [(c, my_queue (sess a), hex_encode b, to_valid_utf8 (TrimSpace line))]"
    "shown n1 = shown n @ [(d, my_queue (sess a), hex_encode b, to_valid_utf8 (TrimSpace line))]" "chats n1 d = Some s1"
    "screen s1 = screen s @ [clearLine @ ''['' @ nick (sess s) @ ''] '' @ to_valid_utf8 (TrimSpace line) @ newline @ prompt]"
    "typing s1" "wp_on s1" "conn_open s1" "rp s1 = Acking k" "buf (sendq (sess s1)) = []" "up n1 d = []" "readers r1 d = Reading"
    "length k \<le> maxMsgSize"
    "Parse k = Inr \<lparr>Version = 1, Typ = TypeAck, QueueID = my_queue (sess a), MsgID = hex_encode b, TS = now,
      Payload = Some (payload_text (AckMessage (hex_encode b)))\<rparr>"
    using line_there [OF assms(1-3,6-14) refl assms(15-19,19,19), of jerr] by blast
  from ack_back [OF n1(2,5,7-15), of io2 now jerr] obtain n' s' r' where n': "reaches quiet (net_step jerr) n1 n'"
    "said n' = said n1" "shown n' = shown n1" "hex_encode b \<notin> row_mid ` set (messages_tab (disk (proc n')))"
    "chats n' d = Some s'" "screen s' = screen s1" "rp s' = Receiving"
    using v ValidQueueID_length [OF v] assms(4,5,18,19) by auto
  show ?thesis
    using reaches_trans [OF n'(1) n1(1)] n1(3,4,6) n'(2-7) by (intro exI [of _ n'] exI [of _ s']) simp
qed

end
