(* ===== verification/Network_Start.thy ===== *)
theory Network_Start
  imports Network_Run Client_Session_Facts
begin

text \<open>
  How chats come about in the network: connections are made, the clients at their far ends ask for a queue and a
  subscription and get their answers, and start to chat.  While it starts, a client is one of the strangers of \<open>Network\<close>: its frames
  and the answers are in \<open>wrote\<close> and \<open>got\<close>, to be compared with \<open>runChat\<close>.
\<close>

subsection \<open>One request and its answer\<close>

text \<open>A command, from its writing to the end of the hub's turn; and the reading of the answer.\<close>

lemma outsider_command:
  assumes "c \<in> dialled n" "chats n c = None" "up n c = []" "proc n = Up r" "readers r c = Reading" "length f \<le> maxMsgSize"
    and "Parse f = Inr e" "Typ e \<noteq> TypePing" "int64_range now" "io_ok io" "handle io c e (core r) = Ret h"
  shows "reaches net_ok (net_step jerr) n (on_record c f (n\<lparr>proc := Up (r\<lparr>core := h\<rparr>), wrote := wrote n @ [(c, f)]\<rparr>))"
proof -
  let ?n1 = "on_record c f (n\<lparr>up := (up n)(c := [f]), wrote := wrote n @ [(c, f)]\<rparr>)"
  let ?r2 = "set_reader c (Handing e) r"
  let ?n2 = "?n1\<lparr>proc := Up ?r2, up := up n\<rparr>"
  have "net_step jerr n (OtherWrites c f) ?n1"
    using net_step.other_writes [OF assms(1,2), of jerr f] assms(3) by simp
  then have r1: "reaches net_ok (net_step jerr) n ?n1" by (rule onward [OF here, rotated]) (simp add: net_ok_def)
  have "read_turn jerr now c f r = Up ?r2"
    using read_command [OF assms(7,8)] by (simp add: read_turn_def set_reader_def)
  then have "relay_step jerr (proc ?n1) (Frame c now f) (Up ?r2)"
    using frame [of r c f jerr now] assms(4-6) by simp
  from net_step.relay_reads [OF _ this, of "[]"] have "net_step jerr ?n1 (RelayReads c now) ?n2"
    using assms(3) by (simp add: fun_upd_idem)
  then have r2: "reaches net_ok (net_step jerr) n ?n2"
    by (rule onward [OF r1, rotated]) (use assms(9) in \<open>simp add: net_ok_def\<close>)
  have "readers ?r2 c = Handing e" by (simp add: set_reader_def)
  from route [OF this, of jerr io] have "relay_step jerr (proc ?n2) (HubRoute c io) (Up (r\<lparr>core := h\<rparr>))"
    using assms(5,11) by (simp add: hub_turn_def after_turn_def set_reader_def fun_upd_idem)
  from net_step.relay_turn [OF _ this] have "net_step jerr ?n2 (RelayTurn (HubRoute c io)) (?n2\<lparr>proc := Up (r\<lparr>core := h\<rparr>)\<rparr>)"
    by (simp add: internal_def)
  then have "reaches net_ok (net_step jerr) n (?n2\<lparr>proc := Up (r\<lparr>core := h\<rparr>)\<rparr>)"
    by (rule onward [OF r2, rotated]) (use assms(10) in \<open>simp add: net_ok_def event_ok_def\<close>)
  moreover have "?n2\<lparr>proc := Up (r\<lparr>core := h\<rparr>)\<rparr> = on_record c f (n\<lparr>proc := Up (r\<lparr>core := h\<rparr>), wrote := wrote n @ [(c, f)]\<rparr>)"
    by (simp add: on_record_def split: sum.split)
  ultimately show ?thesis by simp
qed

lemma outsider_hears:
  assumes "proc n = Up r" "writing r d" "buf (conns (core r) d) = g # gs" "down n d = []" "chats n d = None"
  defines "r' \<equiv> put_wire d ((conns (core r) d)\<lparr>buf := gs\<rparr>, [TextMsg g], True) r"
  shows "reaches net_ok (net_step jerr) n (n\<lparr>proc := Up r', got := got n @ [(d, g)]\<rparr>)"
proof -
  let ?n1 = "n\<lparr>proc := Up r', down := (down n)(d := [g])\<rparr>"
  have wt: "write_turn False True (conns (core r) d) = Some ((conns (core r) d)\<lparr>buf := gs\<rparr>, [TextMsg g], True)"
    using assms(3) by (simp add: write_turn_def)
  have "net_step jerr n (RelayWrites d False True) ?n1"
    using net_step.relay_writes [OF assms(1,2) wt, of jerr] assms(4) by (simp add: r'_def text_of_def)
  then have r1: "reaches net_ok (net_step jerr) n ?n1"
    by (rule onward [OF here, rotated]) (simp add: net_ok_def)
  have "net_step jerr ?n1 (OtherHears d) (n\<lparr>proc := Up r', got := got n @ [(d, g)]\<rparr>)"
    using net_step.other_hears [of ?n1 d g "[]" jerr] assms(4,5) by (simp add: fun_upd_idem)
  then show ?thesis by (rule onward [OF r1, rotated]) (simp add: net_ok_def)
qed

lemma dial_in:
  assumes "c \<notin> dialled n" "proc n = Up r" "readers r c = NotConnected"
  shows "\<exists>r'. reaches net_ok (net_step jerr) n (n\<lparr>proc := Up r', dialled := insert c (dialled n)\<rparr>) \<and>
    core r' = (core r)\<lparr>conns := (conns (core r))(c := new_client), clients := insert c (clients (core r))\<rparr> \<and>
    readers r' = (readers r)(c := Reading) \<and> writing r' = (writing r)(c := True)"
proof -
  let ?r = "set_reader c Reading (r\<lparr>writing := (writing r)(c := True), socket := (socket r)(c := [])\<rparr>)
    \<lparr>core := (core r)\<lparr>conns := (conns (core r))(c := new_client), clients := insert c (clients (core r))\<rparr>\<rparr>"
  have "relay_step jerr (proc n) (Accept c) (Up ?r)"
    using accept [OF assms(3), of jerr] assms(2) by (simp add: serveWS_def hub_register_def after_turn_def)
  from net_step.dial [OF assms(1) this]
  have "reaches net_ok (net_step jerr) n (n\<lparr>proc := Up ?r, dialled := insert c (dialled n)\<rparr>)"
    by (rule onward [OF here, rotated]) (simp add: net_ok_def)
  then show ?thesis by (intro exI [of _ ?r]) (simp add: set_reader_def)
qed

lemma join_in:
  assumes "c \<in> dialled n" "chats n c = None" "sendq se = new_client" "seen se = []"
  shows "reaches net_ok (net_step jerr) n (n\<lparr>chats := (chats n)(c \<mapsto> start_chat se)\<rparr>)"
  using net_step.join [OF assms, of jerr] by (rule onward [OF here, rotated]) (simp add: net_ok_def)

subsection \<open>A connection at rest\<close>

definition idle :: "net \<Rightarrow> relay \<Rightarrow> nat \<Rightarrow> bool" where
  "idle n r c \<longleftrightarrow> c \<in> dialled n \<and> chats n c = None \<and> up n c = [] \<and> down n c = [] \<and> readers r c = Reading \<and> writing r c \<and>
     buf (conns (core r) c) = []"

definition drained :: "nat \<Rightarrow> hub \<Rightarrow> hub" where
  "drained c h = h\<lparr>conns := (conns h)(c := (conns h c)\<lparr>buf := []\<rparr>)\<rparr>"

lemma drained_simps [simp]:
  "queues (drained c h) = queues h" "db (drained c h) = db h" "clients (drained c h) = clients h"
  "buf (conns (drained c h) c) = []" "d \<noteq> c \<Longrightarrow> conns (drained c h) d = conns h d"
  by (simp_all add: drained_def)

lemma good_drained: "good C h \<Longrightarrow> good C (drained c h)"
proof -
  assume g: "good C h"
  have "conn_inv ((conns h c)\<lparr>buf := []\<rparr>)" by (simp add: conn_inv_def)
  then have "hub_inv (drained c h)" using g hub_inv_conn [of h "(conns h c)\<lparr>buf := []\<rparr>" c] by (simp add: good_def drained_def)
  moreover have "tidy (drained c h) = tidy h" by (simp add: tidy_def)
  ultimately show ?thesis using g unfolding good_def by simp
qed

text \<open>The request of an idle connection, with the first frame of the answer heard; the others are as they were.\<close>

lemma ask_first:
  assumes "proc n = Up r" "idle n r c" "length f \<le> maxMsgSize" "Parse f = Inr e" "Typ e \<in> {TypeNew, TypeSub}"
    and "int64_range now" "io_ok io" "handle io c e (core r) = Ret h" "buf (conns h c) = g # gs"
  obtains n' r' where "reaches net_ok (net_step jerr) n n'" "proc n' = Up r'"
    "core r' = h\<lparr>conns := (conns h)(c := (conns h c)\<lparr>buf := gs\<rparr>)\<rparr>" "dialled n' = dialled n" "chats n' = chats n" "up n' = up n" "down n' = down n"
    "readers r' = readers r" "writing r' = writing r" "said n' = said n" "shown n' = shown n"
    "wrote n' = wrote n @ [(c, f)]" "got n' = got n @ [(c, g)]"
proof -
  note i = assms(2) [unfolded idle_def]
  have p: "Typ e \<noteq> TypePing" "Typ e \<noteq> TypeSend" using assms(5) by (auto simp: proto_simps)
  let ?n1 = "on_record c f (n\<lparr>proc := Up (r\<lparr>core := h\<rparr>), wrote := wrote n @ [(c, f)]\<rparr>)"
  have r1: "reaches net_ok (net_step jerr) n ?n1"
    by (rule outsider_command [OF _ _ _ assms(1) _ assms(3,4) p(1) assms(6-8)]) (use i in simp_all)
  let ?r2 = "put_wire c ((conns h c)\<lparr>buf := gs\<rparr>, [TextMsg g], True) (r\<lparr>core := h\<rparr>)"
  let ?n2 = "?n1\<lparr>proc := Up ?r2, got := got n @ [(c, g)]\<rparr>"
  have r2: "reaches net_ok (net_step jerr) ?n1 ?n2"
    using outsider_hears [of ?n1 "r\<lparr>core := h\<rparr>" c g gs jerr] i assms(9) by simp
  have "said ?n1 = said n" using p assms(4) by (simp add: on_record_def)
  with that [of ?n2 ?r2] reaches_trans [OF r2 r1] i show thesis by (simp add: put_wire_def fun_upd_idem)
qed

lemma ask_hop:
  assumes "proc n = Up r" "idle n r c" "length f \<le> maxMsgSize" "Parse f = Inr e" "Typ e \<in> {TypeNew, TypeSub}"
    and "int64_range now" "io_ok io" "handle io c e (core r) = Ret h" "buf (conns h c) = [g]"
  shows "\<exists>n' r'. reaches net_ok (net_step jerr) n n' \<and> proc n' = Up r' \<and> core r' = drained c h \<and> idle n' r' c \<and>
    (\<forall>d. d \<noteq> c \<longrightarrow> idle n r d \<longrightarrow> conns h d = conns (core r) d \<longrightarrow> idle n' r' d) \<and>
    said n' = said n \<and> shown n' = shown n \<and> wrote n' = wrote n @ [(c, f)] \<and> got n' = got n @ [(c, g)]"
proof -
  obtain n' r' where n': "reaches net_ok (net_step jerr) n n'" "proc n' = Up r'" "core r' = drained c h" "dialled n' = dialled n" "chats n' = chats n"
    "up n' = up n" "down n' = down n" "readers r' = readers r" "writing r' = writing r" "said n' = said n" "shown n' = shown n"
    "wrote n' = wrote n @ [(c, f)]" "got n' = got n @ [(c, g)]"
    by (rule ask_first [OF assms, folded drained_def])
  have "idle n' r' d" if "idle n r d" "d = c \<or> conns h d = conns (core r) d" for d
    using that n' by (cases "d = c") (auto simp: idle_def)
  with n' assms(2) show ?thesis by (intro exI [of _ n'] exI [of _ r']) simp
qed

subsection \<open>NEW and SUB over the network\<close>

text \<open>From \<open>n\<close> to \<open>n'\<close> the frame \<open>f\<close> of connection \<open>c\<close> was answered by \<open>g\<close>, and nothing else happened.\<close>

definition served :: "(string \<Rightarrow> string) \<Rightarrow> nat set \<Rightarrow> nat \<Rightarrow> string \<Rightarrow> string \<Rightarrow> net \<Rightarrow> relay \<Rightarrow> net \<Rightarrow> relay \<Rightarrow> bool" where
  "served jerr C c f g n r n' r' \<longleftrightarrow>
     reaches net_ok (net_step jerr) n n' \<and> proc n' = Up r' \<and> good C (core r') \<and> (\<forall>d. idle n r d \<longrightarrow> idle n' r' d) \<and>
     said n' = said n \<and> shown n' = shown n \<and> wrote n' = wrote n @ [(c, f)] \<and> got n' = got n @ [(c, g)] \<and>
     messages_tab (db (core r')) = messages_tab (db (core r)) \<and> qids (db (core r)) \<subseteq> qids (db (core r'))"

lemma served_idle: "served jerr C c f g n r n' r' \<Longrightarrow> idle n r d \<Longrightarrow> idle n' r' d"
  by (simp add: served_def)

lemma bare_frame:
  assumes "int64_range now" "t = TypeNew \<or> t = TypeSub" "q = [] \<or> ValidQueueID q"
  shows "\<exists>f. marshal_envelope (bare_envelope now t q) = Some f \<and> length f \<le> maxMsgSize \<and>
    Parse f = Inr \<lparr>Version = 1, Typ = t, QueueID = q, MsgID = [], TS = now, Payload = Some (payload_text NoPayload)\<rparr>"
proof -
  obtain f where f: "frame_of now t q [] NoPayload = Some f" using frame_of_sendable [of NoPayload] by simp
  have tq: "t \<noteq> []" "to_valid_utf8 t = t" "to_valid_utf8 q = q"
    using assms(2,3) ValidQueueID_utf8 [of q] by (auto simp: proto_simps ascii_valid_utf8 is_ascii_def)
  have "length (enc_string t) = 5"
    using assms(2) by (elim disjE) (simp_all add: length_enc_safe html_safe_def proto_simps)
  moreover have "q \<noteq> [] \<Longrightarrow> length (enc_string q) = 34"
    using assms(3) length_enc_safe [OF hex_safe, of q] by (auto simp: ValidQueueID_iff)
  ultimately have "length f \<le> maxMsgSize"
    using frame_of_sendable [of NoPayload now t q "[]"] f length_show_int [OF assms(1)]
    by (auto simp: length_enc_object envelope_fields_def length_show_one payload_text_def maxMsgSize_def)
  then show ?thesis using frame_of_Parse [OF _ assms(1) tq(1) f] f tq by (simp add: bare_envelope_frame)
qed

lemma served_hop:
  assumes "proc n = Up r" "good C (core r)" "c \<in> C" "idle n r c" "io_ok io" "int64_range now"
    and "length f \<le> maxMsgSize" "Parse f = Inr e" "Typ e = TypeNew \<or> Typ e = TypeSub"
    and "courteous io c e (core r)" "handle io c e (core r) = Ret h" "buf (conns h c) = [g]"
    and "\<forall>d. d \<noteq> c \<longrightarrow> conns h d = conns (core r) d" "messages_tab (db h) = messages_tab (db (core r))"
    and "qids (db (core r)) \<subseteq> qids (db h)"
  shows "\<exists>n' r'. served jerr C c f g n r n' r' \<and> queues (core r') = queues h \<and> db (core r') = db h"
proof -
  have "calm C (handle io c e (core r))" by (rule calm_handle [OF assms(2,5) Parse_env_ok [OF assms(8)] assms(3,10)])
  then have "good C h" using assms(11) by (simp add: calm_def)
  moreover have "Typ e \<in> {TypeNew, TypeSub}" using assms(9) by simp
  note ask_hop [OF assms(1,4,7,8) this assms(6,5,11,12), of jerr]
  ultimately show ?thesis using assms(4,13-15) good_drained [of C h c] unfolding served_def by (metis drained_simps(1,2))
qed

text \<open>NEW on an idle connection: the answer names the queue, which now belongs to the connection.\<close>

lemma new_hop:
  assumes "proc n = Up r" "good C (core r)" "c \<in> C" "idle n r c" "io_ok io" "int64_range now"
    and "NewID (rnd io) = Some q" "\<not> f_create io"
  shows "\<exists>n' r' f g e. served jerr C c f g n r n' r' \<and> marshal_envelope (bare_envelope now TypeNew []) = Some f \<and>
    Parse g = Inr e \<and> Typ e = TypeNewOk \<and> decode_new_ok e = (q, False) \<and>
    map_of (queues (core r')) q = Some \<lparr>owner = Some c, sub = None\<rparr> \<and> q \<in> qids (db (core r')) \<and>
    (\<forall>p. p \<noteq> q \<longrightarrow> map_of (queues (core r')) p = map_of (queues (core r)) p)"
proof -
  let ?e = "\<lparr>Version = 1, Typ = TypeNew, QueueID = [], MsgID = [], TS = now, Payload = Some (payload_text NoPayload)\<rparr>"
  obtain f where f: "marshal_envelope (bare_envelope now TypeNew []) = Some f" "length f \<le> maxMsgSize" "Parse f = Inr ?e"
    using bare_frame [OF assms(6), of TypeNew "[]"] by auto
  obtain s where s: "CreateQueue (f_create io) q (clock io 0) (db (core r)) = Some s"
    using assms(8) by (cases "q \<in> qids (db (core r))") (simp_all add: CreateQueue_def)
  have v: "ValidQueueID q"
    using assms(5,7) NewID_valid by (auto simp: io_ok_def NewID_def split: option.splits)
  obtain g e where g: "new_ok_frame io q = Some g" "Parse g = Inr e" "Typ e = TypeNewOk" "decode_new_ok e = (q, False)"
    using new_ok_decodes [OF assms(5) v] by blast
  obtain h where h: "handle_new io c ?e (core r) = Ret h" "map_of (queues h) q = Some \<lparr>owner = Some c, sub = None\<rparr>"
    "buf (conns h c) = take sendCap (buf (conns (core r) c) @ opt_list (new_ok_frame io q))" "\<forall>d. d \<noteq> c \<longrightarrow> conns h d = conns (core r) d"
    "messages_tab (db h) = messages_tab (db (core r))" "\<forall>p. p \<noteq> q \<longrightarrow> map_of (queues h) p = map_of (queues (core r)) p"
    "qids (db h) = insert q (qids (db (core r)))"
    using handle_new_ok [OF assms(2,5,3) _ assms(7) s, of ?e] by auto
  have "buf (conns h c) = [g]" using h(3) g(1) assms(4) by (simp add: idle_def opt_list_def sendCap_def)
  from served_hop [OF assms(1-6) f(2,3) _ _ _ this h(4,5), of jerr] h(1,7)
  obtain n' r' where "served jerr C c f g n r n' r'" "queues (core r') = queues h" "db (core r') = db h"
    by (auto simp: courteous_def handle_def proto_simps)
  with f(1) g h(2,6,7) show ?thesis by (metis insertI1)
qed

text \<open>SUB on an idle connection, to a queue of another without subscriber and without messages.\<close>

lemma sub_hop:
  assumes "proc n = Up r" "good C (core r)" "c \<in> C" "idle n r c" "io_ok io" "int64_range now"
    and "map_of (queues (core r)) q = Some \<lparr>owner = Some d, sub = None\<rparr>" "d \<noteq> c" "messages_tab (db (core r)) = []" "\<not> f_undelivered io"
  shows "\<exists>n' r' f g e. served jerr C c f g n r n' r' \<and> marshal_envelope (bare_envelope now TypeSub q) = Some f \<and>
    Parse g = Inr e \<and> Typ e = TypeSubOk \<and> map_of (queues (core r')) q = Some \<lparr>owner = Some d, sub = Some c\<rparr> \<and>
    (\<forall>p. p \<noteq> q \<longrightarrow> map_of (queues (core r')) p = map_of (queues (core r)) p)"
proof -
  let ?e = "\<lparr>Version = 1, Typ = TypeSub, QueueID = q, MsgID = [], TS = now, Payload = Some (payload_text NoPayload)\<rparr>"
  have v: "ValidQueueID q" using map_of_valid [OF _ assms(7)] assms(2) by (simp add: good_def hub_inv_def)
  obtain f where f: "marshal_envelope (bare_envelope now TypeSub q) = Some f" "length f \<le> maxMsgSize" "Parse f = Inr ?e"
    using bare_frame [OF assms(6), of TypeSub q] v by auto
  have fq: "find_queue io (QueueID ?e) (core r) = Inr (\<lparr>owner = Some d, sub = None\<rparr>, core r)"
    using v assms(7) by (simp add: find_queue_def)
  have p: "pending (db (core r)) q = []" using assms(9) by (simp add: pending_eq)
  obtain g where g: "sub_ok_frame io q = Some g" using frame_of_sendable [of NoPayload] by (simp add: sub_ok_frame_def)
  then have pg: "Parse g = Inr \<lparr>Version = 1, Typ = TypeSubOk, QueueID = q, MsgID = [], TS = clock io 0, Payload = Some (payload_text NoPayload)\<rparr>"
    using frame_of_Parse [OF _ io_ok_clock [OF assms(5), of 0] _ g [unfolded sub_ok_frame_def]] ValidQueueID_utf8 [OF v]
    by (simp add: proto_simps ascii_valid_utf8 is_ascii_def)
  obtain h where h: "handle_sub io c ?e (core r) = Ret h"
    "buf (conns h c) = take sendCap (buf (conns (core r) c) @ opt_list (sub_ok_frame io q) @ replay_frames io q (pending (db (core r)) q))"
    "\<forall>d. d \<noteq> c \<longrightarrow> conns h d = conns (core r) d" "map_of (queues h) q = Some \<lparr>owner = Some d, sub = Some c\<rparr>"
    "messages_tab (db h) = messages_tab (db (core r))" "\<forall>p. p \<noteq> q \<longrightarrow> map_of (queues h) p = map_of (queues (core r)) p"
    using handle_sub_ok [OF assms(2,5,3) fq _ _ assms(10)] assms(8) by auto
  have "buf (conns h c) = [g]" using h(2) g p assms(4) by (simp add: idle_def opt_list_def sendCap_def replay_frames_def)
  moreover have "courteous io c ?e (core r)" "handle io c ?e (core r) = Ret h"
    using assms(7) h(1) by (simp_all add: courteous_def handle_def proto_simps)
  ultimately obtain n' r' where "served jerr C c f g n r n' r'" "queues (core r') = queues h"
    using served_hop [OF assms(1-6) f(2,3) _ _ _ _ h(3,5), of g jerr] mail_sub [of io c ?e "core r"] h(1) by (auto simp: same_mail_def)
  with f(1) pg h(4,6) show ?thesis by (intro exI) auto
qed

subsection \<open>A link as it is typed\<close>

lemma link_char_visible: "link_char c \<or> c = CHR ''?'' \<Longrightarrow> 32 < byte c \<and> byte c < 128"
  by (auto simp: link_char_def is_alnum_def is_letter_def is_dec_digit_def)

lemma link_visible:
  assumes "printable_invite i" "c \<in> set (Invite_String i)" shows "32 < byte c \<and> byte c < 128"
proof -
  have "list_all link_char (IQueueID i)"
    using qid_alnum [of "IQueueID i"] assms(1) by (auto simp: printable_invite_def link_char_def list_all_iff)
  moreover have "list_all link_char ''knock://'' " "list_all link_char ''/v2/''"
    by (simp_all add: link_char_def is_alnum_def is_letter_def is_dec_digit_def)
  ultimately have "link_char c \<or> c = CHR ''?''"
    using authority_chars(1) [OF assms(1)] query_chars [of i] assms(2)
    unfolding Invite_String_eq [OF assms(1)] by (auto simp: list_all_iff)
  then show ?thesis by (rule link_char_visible)
qed

lemma TrimSpace_visible:
  assumes "\<forall>c \<in> set s. 32 < byte c \<and> byte c < 128"
  shows "TrimSpace s = s"
proof -
  have sp: "w \<in> set space_runes \<Longrightarrow> w \<noteq> [] \<and> \<not> (32 < byte (hd w) \<and> byte (hd w) < 128) \<and> \<not> (32 < byte (last w) \<and> byte (last w) < 128)" for w
    by (auto simp: space_runes_def)
  have "\<not> has_prefix w s" if "w \<in> set space_runes" for w
    using sp [OF that] assms by (cases w; cases s) (auto simp: has_prefix_iff)
  then have "strip space_runes s = s" by (rule strip_none)
  moreover have "\<not> has_prefix (rev w) (rev s)" if "w \<in> set space_runes" for w
    using sp [OF that] assms by (cases w rule: rev_cases; cases s rule: rev_cases) (auto simp: has_prefix_iff)
  then have "strip (map rev space_runes) (rev s) = rev s" by (intro strip_none) auto
  ultimately show ?thesis by (simp add: TrimSpace_def)
qed

lemma link_typed: "printable_invite i \<Longrightarrow> TrimSpace (Invite_String i) = Invite_String i"
  using link_visible by (intro TrimSpace_visible) blast

lemma link_utf8: "printable_invite i \<Longrightarrow> valid_utf8 (Invite_String i)"
  using link_visible by (intro runes_valid [OF runes_ascii]) (auto simp: list_all_iff is_ascii_def)

lemma length_b64_raw: "length (b64_raw url bs) \<le> 2 * length bs"
  by (induction url bs rule: b64_raw.induct) simp_all

lemma length_link:
  assumes "printable_invite i" "IPort i \<le> 65535" "length (IBoxPub i) = 32"
  shows "length (Invite_String i) \<le> length (IHost i) + 200"
proof -
  have "length (show_int (IPort i)) \<le> 20"
    using assms by (intro length_show_int) (simp add: printable_invite_def int64_range_def)
  moreover have "length (IQueueID i) = 32" using assms(1) by (simp add: printable_invite_def ValidQueueID_iff)
  ultimately show ?thesis
    using length_b64_raw [of True "IBoxPub i"] assms(3)
    by (simp add: Invite_String_eq [OF assms(1)] link_authority_def link_query_def Let_def)
qed

subsection \<open>The client's side of its start\<close>

lemma request_answered:
  assumes "marshal_envelope env = Some f" "Parse g = Inr e" "Typ e = want" "want \<noteq> TypeError" "arriving w = g # rest"
  shows "request False env want w = (Inr e, w\<lparr>sent := sent w @ [f], arriving := rest\<rparr>)"
  using assms by (simp add: request_def)

text \<open>
  A client that starts for the first time, and has no trouble: it has or makes its identity, no state is on its disk yet, the server
  answers the dial, and what it writes gets to the disk.
\<close>

definition first_start :: "setting \<Rightarrow> world \<Rightarrow> identity \<Rightarrow> fs \<Rightarrow> bool" where
  "first_start c w i d \<longleftrightarrow>
     loadMyIdentity c w = (Inr i, w\<lparr>files := d\<rparr>) \<and> length (BoxPub i) = 32 \<and> loadState (config_dir c) False i d = empty_state \<and>
     saved_ok (state_fault c 0) (config_dir c) i \<and> saved_ok (state_fault c 2) (config_dir c) i \<and>
     (\<forall>path n. statePath (config_dir c) i = Some path \<longrightarrow> state_tmp c n \<noteq> path) \<and>
     (\<forall>n. \<not> state_unreadable c n \<and> \<not> write_breaks c n \<and> int64_range (wall c n)) \<and> (\<forall>u. dials c u)"

lemma files_eq: "w\<lparr>files := a\<rparr> = w\<lparr>files := b\<rparr> \<Longrightarrow> a = b" for w :: world
  by (cases w) simp

lemma loadMyIdentity_world:
  "loadMyIdentity c w = (Inr i, w\<lparr>files := d\<rparr>) \<Longrightarrow>
     loadMyIdentity c (w\<lparr>typed := t, arriving := a\<rparr>) = (Inr i, w\<lparr>typed := t, arriving := a, files := d\<rparr>)"
  using files_eq by (auto simp: loadMyIdentity_def split: option.splits prod.splits sum.splits)

lemma start_queue:
  assumes "first_start c w0 i d" "marshal_envelope (bare_envelope (wall c 0) TypeNew []) = Some f"
    and "Parse g = Inr e" "Typ e = TypeNewOk" "decode_new_ok e = (q, False)" "ValidQueueID q" "valid_utf8 host"
    and "files w = d" "arriving w = g # rest"
  shows "\<exists>d'. pick_outbox c i host [] w = (Inr q, w\<lparr>sent := sent w @ [f], arriving := rest, files := d'\<rparr>) \<and>
    Contacts (loadState (config_dir c) False i d') = []"
proof -
  let ?w1 = "w\<lparr>sent := sent w @ [f], arriving := rest\<rparr>" and ?st = "empty_state\<lparr>Outbox := AList.update host q (Outbox empty_state)\<rparr>"
  let ?d = "last (saveState (state_fault c 0) (state_tmp c 0) (config_dir c) i ?st d)"
  note c = assms(1) [unfolded first_start_def]
  have r: "request (write_breaks c 0) (bare_envelope (wall c 0) TypeNew []) TypeNewOk w = (Inr e, ?w1)"
    using c request_answered [OF assms(2-4) _ assms(9)] by (simp add: proto_simps)
  have st: "loadState (config_dir c) (state_unreadable c 0) i (files w) = empty_state" using c assms(8) by simp
  have "q \<noteq> []" using assms(6) by (auto simp: ValidQueueID_iff)
  then have "pick_outbox c i host [] w = (Inr q, ?w1\<lparr>files := ?d\<rparr>)"
    using r st c assms(5,8) by (simp add: pick_outbox_def ask_queue_def keep_queue_def Let_def empty_state_def)
  moreover have "state_ok ?st"
    using state_ok_outbox [OF state_ok_load [of "config_dir c" False i d] assms(7), of q] c ValidQueueID_utf8 [OF assms(6)]
    by (simp add: valid_utf8_def)
  from load_after_save(2) [OF _ this, of "state_fault c 0" "config_dir c" i "state_tmp c 0" d] c
  have "Contacts (loadState (config_dir c) False i ?d) = []" by (simp add: empty_state_def)
  ultimately show ?thesis by (intro exI [of _ ?d]) simp
qed

lemma start_subscribe:
  assumes "first_start c w0 i d0" "marshal_envelope (bare_envelope (wall c 1) TypeSub (IQueueID p)) = Some f"
    and "Parse g = Inr e" "Typ e = TypeSubOk" "me s = i" "Contacts (loadState (config_dir c) False i (files w)) = []" "arriving w = g # rest"
  shows "\<exists>d'. subscribe c s p raw w = Ret (Inr (s\<lparr>peer_queue := IQueueID p\<rparr>), w\<lparr>sent := sent w @ [f], arriving := rest, files := d'\<rparr>)"
proof -
  note c = assms(1) [unfolded first_start_def]
  have "request (write_breaks c 1) (bare_envelope (wall c 1) TypeSub (IQueueID p)) TypeSubOk w =
      (Inr e, w\<lparr>sent := sent w @ [f], arriving := rest\<rparr>)"
    using c request_answered [OF assms(2-4) _ assms(7)] by (simp add: proto_simps)
  then show ?thesis using assms(5,6) c by (simp add: subscribe_def upsertContact_def upsert_def Let_def) (rule exI, rule refl)
qed

end
