(* ===== verification/Meeting.thy ===== *)
theory Meeting
  imports Network_Start
begin

text \<open>
  Two clients that have never run before meet: each asks the relay for a queue, the links are exchanged outside, each subscribes
  to the other's queue, both chat.
\<close>

subsection \<open>Both ways to start\<close>

definition met :: "string \<Rightarrow> int \<Rightarrow> string \<Rightarrow> string \<Rightarrow> identity \<Rightarrow> session" where
  "met host port mine theirs i = (new_session host port i)\<lparr>my_queue := mine, peer_queue := theirs\<rparr>"

lemma met_simps [simp]:
  "my_queue (met host port mine theirs i) = mine" "peer_queue (met host port mine theirs i) = theirs"
  "seen (met host port mine theirs i) = []" "sendq (met host port mine theirs i) = new_client" "nick (met host port mine theirs i) = host"
  "me (met host port mine theirs i) = i" "advHost (met host port mine theirs i) = host" "advPort (met host port mine theirs i) = port"
  by (simp_all add: met_def new_session_def)

text \<open>The request of the client \<open>c\<close> is the frame \<open>f\<close>, and \<open>g\<close> is a good answer to it.\<close>

definition new_answered :: "setting \<Rightarrow> string \<Rightarrow> string \<Rightarrow> string \<Rightarrow> bool" where
  "new_answered c q f g \<longleftrightarrow> marshal_envelope (bare_envelope (wall c 0) TypeNew []) = Some f \<and>
     (\<exists>e. Parse g = Inr e \<and> Typ e = TypeNewOk \<and> decode_new_ok e = (q, False))"

definition sub_answered :: "setting \<Rightarrow> string \<Rightarrow> string \<Rightarrow> string \<Rightarrow> bool" where
  "sub_answered c q f g \<longleftrightarrow> marshal_envelope (bare_envelope (wall c 1) TypeSub q) = Some f \<and> (\<exists>e. Parse g = Inr e \<and> Typ e = TypeSubOk)"

definition invitation :: "string \<Rightarrow> int \<Rightarrow> string \<Rightarrow> identity \<Rightarrow> invite" where
  "invitation host port q i = \<lparr>IHost = host, IPort = port, IQueueID = q, IBoxPub = BoxPub i\<rparr>"

lemma invitation_simps [simp]:
  "IHost (invitation host port q i) = host" "IPort (invitation host port q i) = port" "IQueueID (invitation host port q i) = q"
  "IBoxPub (invitation host port q i) = BoxPub i"
  by (simp_all add: invitation_def)

lemma myInvite_met: "myInvite (met host port q p i) = Invite_String (invitation host port q i)"
  by (simp add: myInvite_def invitation_def)

text \<open>The first to come: no link on the command line; the other's link is typed when it is asked for.\<close>

lemma first_to_come:
  assumes "first_start c w i d" "parseAddr addr = (host, port)" "addr \<noteq> []" "valid_utf8 host"
    and "new_answered c q f1 g1" "ValidQueueID q" "sub_answered c (IQueueID p) f2 g2"
    and "ParseInvite (ip_literal c) link = Inr p" "TrimSpace link = link" "length link < max_token" "IHost p = host" "IPort p = port"
  shows "\<exists>w'. runChat c [] addr [] (w\<lparr>typed := [link], arriving := [g1, g2]\<rparr>) = Ret (Inr (met host port q (IQueueID p) i), w') \<and>
    sent w' = sent w @ [f1, f2] \<and> links w' = links w @ [myInvite (met host port q [] i)]"
proof -
  note c = assms(1) [unfolded first_start_def]
  let ?w0 = "w\<lparr>typed := [link], arriving := [g1, g2], files := d\<rparr>" and ?s = "(new_session host port i)\<lparr>my_queue := q\<rparr>"
  have i: "loadMyIdentity c (w\<lparr>typed := [link], arriving := [g1, g2]\<rparr>) = (Inr i, ?w0)" using c loadMyIdentity_world by blast
  obtain d' where q: "pick_outbox c i host [] ?w0 = (Inr q, ?w0\<lparr>sent := sent ?w0 @ [f1], arriving := [g2], files := d'\<rparr>)"
    "Contacts (loadState (config_dir c) False i d') = []"
    using start_queue [OF assms(1) _ _ _ _ assms(6,4), of f1 g1 _ ?w0 "[g2]"] assms(5) by (auto simp: new_answered_def)
  let ?w1 = "?w0\<lparr>sent := sent ?w0 @ [f1], arriving := [g2], files := d', links := links w @ [myInvite ?s]\<rparr>"
  have "sortedContacts (loadState (config_dir c) (state_unreadable c 1) i d') = Ret []" using q(2) c by (simp add: sortedContacts_def)
  moreover have "pick_peer (ip_literal c) [] [link] = Ret (Inr (p, link), [])"
    using assms(8-10) by (simp add: listing_panics_def scan_def chosen_link_def isIndex_def)
  ultimately have m: "meet c ?s None ?w1 = subscribe c (?s\<lparr>advHost := host, advPort := port, nick := host\<rparr>) p link (?w1\<lparr>typed := []\<rparr>)"
    using assms(11,12) by (simp add: meet_def new_session_def)
  obtain e where e: "marshal_envelope (bare_envelope (wall c 1) TypeSub (IQueueID p)) = Some f2" "Parse g2 = Inr e" "Typ e = TypeSubOk"
    using assms(7) by (auto simp: sub_answered_def)
  obtain d2 where "subscribe c (?s\<lparr>advHost := host, advPort := port, nick := host\<rparr>) p link (?w1\<lparr>typed := []\<rparr>) =
      Ret (Inr (met host port q (IQueueID p) i), ?w1\<lparr>typed := [], sent := sent w @ [f1, f2], arriving := [], files := d2\<rparr>)"
    using start_subscribe [OF assms(1) e, of "?s\<lparr>advHost := host, advPort := port, nick := host\<rparr>" "?w1\<lparr>typed := []\<rparr>" "[]" link] q(2)
    by (auto simp: met_def new_session_def)
  moreover have "?s = met host port q [] i" by (simp add: met_def new_session_def)
  ultimately show ?thesis using i q(1) m assms(2,3) c by (simp add: runChat_def peer_arg_def choose_server_def Let_def)
qed

text \<open>The second: started with the first one's link.\<close>

lemma second_to_come:
  assumes "first_start c w i d" "ParseInvite (ip_literal c) link = Inr p" "link \<noteq> []" "valid_utf8 (IHost p)"
    and "new_answered c q f1 g1" "ValidQueueID q" "sub_answered c (IQueueID p) f2 g2"
  shows "\<exists>w'. runChat c link [] [] (w\<lparr>typed := [], arriving := [g1, g2]\<rparr>) = Ret (Inr (met (IHost p) (IPort p) q (IQueueID p) i), w') \<and>
    sent w' = sent w @ [f1, f2] \<and> links w' = links w @ [myInvite (met (IHost p) (IPort p) q [] i)]"
proof -
  note c = assms(1) [unfolded first_start_def]
  let ?w0 = "w\<lparr>typed := [], arriving := [g1, g2], files := d\<rparr>" and ?s = "(new_session (IHost p) (IPort p) i)\<lparr>my_queue := q\<rparr>"
  have i: "loadMyIdentity c (w\<lparr>typed := [], arriving := [g1, g2]\<rparr>) = (Inr i, ?w0)" using c loadMyIdentity_world by blast
  obtain d' where q: "pick_outbox c i (IHost p) [] ?w0 = (Inr q, ?w0\<lparr>sent := sent ?w0 @ [f1], arriving := [g2], files := d'\<rparr>)"
    "Contacts (loadState (config_dir c) False i d') = []"
    using start_queue [OF assms(1) _ _ _ _ assms(6,4), of f1 g1 _ ?w0 "[g2]"] assms(5) by (auto simp: new_answered_def)
  let ?w1 = "?w0\<lparr>sent := sent ?w0 @ [f1], arriving := [g2], files := d', links := links w @ [myInvite ?s]\<rparr>"
  obtain e where e: "marshal_envelope (bare_envelope (wall c 1) TypeSub (IQueueID p)) = Some f2" "Parse g2 = Inr e" "Typ e = TypeSubOk"
    using assms(7) by (auto simp: sub_answered_def)
  obtain d2 where "subscribe c ?s p link ?w1 =
      Ret (Inr (met (IHost p) (IPort p) q (IQueueID p) i), ?w1\<lparr>sent := sent w @ [f1, f2], arriving := [], files := d2\<rparr>)"
    using start_subscribe [OF assms(1) e, of ?s ?w1 "[]" link] q(2) by (auto simp: met_def new_session_def)
  moreover have "?s = met (IHost p) (IPort p) q [] i" by (simp add: met_def new_session_def)
  ultimately show ?thesis
    using i q(1) assms(2,3) c by (simp add: runChat_def peer_arg_def choose_server_def Let_def meet_def)
qed

subsection \<open>The meeting\<close>

text \<open>A relay without trouble in the turn \<open>io\<close>, whose random bytes name the queue \<open>q\<close>.\<close>

definition easy_io :: "io \<Rightarrow> string \<Rightarrow> bool" where
  "easy_io io q \<longleftrightarrow> io_ok io \<and> NewID (rnd io) = Some q \<and> \<not> f_create io \<and> \<not> f_undelivered io"

lemma easy_io_valid: "easy_io io q \<Longrightarrow> ValidQueueID q"
  using NewID_valid by (auto simp: easy_io_def io_ok_def NewID_def split: option.splits)

lemma join_ready:
  assumes "proc n = Up r" "idle n r c" "sendq se = new_client" "seen se = []"
  shows "\<exists>n'. reaches net_ok (net_step jerr) n n' \<and> proc n' = Up r \<and> ready n' r c (start_chat se) \<and>
    (\<forall>d. d \<noteq> c \<longrightarrow> idle n r d \<longrightarrow> idle n' r d) \<and> (\<forall>d s. d \<noteq> c \<longrightarrow> ready n r d s \<longrightarrow> ready n' r d s) \<and>
    said n' = said n \<and> shown n' = shown n \<and> wrote n' = wrote n \<and> got n' = got n"
proof -
  have "reaches net_ok (net_step jerr) n (n\<lparr>chats := (chats n)(c \<mapsto> start_chat se)\<rparr>)"
    using assms join_in [of c n se jerr] by (simp add: idle_def)
  moreover have "buf (sendq se) = []" using assms(3) by (simp add: new_client_def)
  then have "ready (n\<lparr>chats := (chats n)(c \<mapsto> start_chat se)\<rparr>) r c (start_chat se)"
    using assms(2) by (simp add: idle_def ready_def)
  moreover have "idle n r d \<Longrightarrow> idle (n\<lparr>chats := (chats n)(c \<mapsto> start_chat se)\<rparr>) r d" if "d \<noteq> c" for d
    using that by (simp add: idle_def)
  moreover have "ready n r d s \<Longrightarrow> ready (n\<lparr>chats := (chats n)(c \<mapsto> start_chat se)\<rparr>) r d s" if "d \<noteq> c" for d s
    using that by (simp add: ready_def)
  ultimately show ?thesis
    using assms(1) by (intro exI [of _ "n\<lparr>chats := (chats n)(c \<mapsto> start_chat se)\<rparr>"] conjI) simp_all
qed

text \<open>The four requests, in the order in which the programs of two people who exchange their links make them.\<close>

lemma four_requests:
  assumes net: "proc n = Up r" "good C (core r)" "a \<in> C" "b \<in> C" "a \<noteq> b" "idle n r a" "idle n r b" "messages_tab (db (core r)) = []"
    and relay: "easy_io ioA qA" "easy_io ioB qB" "qA \<noteq> qB" and w: "\<And>m. int64_range (wall cA m)" "\<And>m. int64_range (wall cB m)"
  obtains n' r' f1 g1 f2 g2 f3 g3 f4 g4 where "reaches net_ok (net_step jerr) n n'" "proc n' = Up r'" "good C (core r')" "idle n' r' a" "idle n' r' b"
    "wrote n' = wrote n @ [(a, f1), (b, f2), (b, f3), (a, f4)]" "got n' = got n @ [(a, g1), (b, g2), (b, g3), (a, g4)]"
    "new_answered cA qA f1 g1" "new_answered cB qB f2 g2" "sub_answered cB qA f3 g3" "sub_answered cA qB f4 g4"
    "map_of (queues (core r')) qA = Some \<lparr>owner = Some a, sub = Some b\<rparr>" "map_of (queues (core r')) qB = Some \<lparr>owner = Some b, sub = Some a\<rparr>"
    "{qA, qB} \<subseteq> qids (db (core r'))" "messages_tab (db (core r')) = []" "said n' = said n" "shown n' = shown n"
proof -
  note io = relay(1,2) [unfolded easy_io_def]
  \<comment> \<open>the first asks for a queue\<close>
  obtain n1 r1 f1 g1 where s1: "served jerr C a f1 g1 n r n1 r1" "new_answered cA qA f1 g1"
    "map_of (queues (core r1)) qA = Some \<lparr>owner = Some a, sub = None\<rparr>" "qA \<in> qids (db (core r1))"
    using new_hop [OF net(1-3,6) _ w(1), of ioA qA jerr 0] io(1) unfolding new_answered_def by metis
  note S1 = s1(1) [unfolded served_def]
  \<comment> \<open>so does the second\<close>
  have "proc n1 = Up r1" "good C (core r1)" "idle n1 r1 b" using S1 net(7) by simp_all
  from new_hop [OF this(1,2) net(4) this(3) _ w(2), of ioB qB jerr 0] io(2)
  obtain n2 r2 f2 g2 where s2: "served jerr C b f2 g2 n1 r1 n2 r2" "new_answered cB qB f2 g2"
    "map_of (queues (core r2)) qB = Some \<lparr>owner = Some b, sub = None\<rparr>" "qB \<in> qids (db (core r2))"
    "\<forall>p. p \<noteq> qB \<longrightarrow> map_of (queues (core r2)) p = map_of (queues (core r1)) p" unfolding new_answered_def by metis
  note S2 = s2(1) [unfolded served_def]
  \<comment> \<open>it subscribes\<close>
  have m2: "messages_tab (db (core r2)) = []" "map_of (queues (core r2)) qA = Some \<lparr>owner = Some a, sub = None\<rparr>"
    using S1 S2 net(8) s1(3) s2(5) relay(3) by simp_all
  have "proc n2 = Up r2" "good C (core r2)" "idle n2 r2 b" using S2 served_idle [OF s1(1) net(7)] by simp_all
  from sub_hop [OF this(1,2) net(4) this(3) _ w(2) m2(2) net(5) m2(1), of ioB jerr 1] io(2)
  obtain n3 r3 f3 g3 where s3: "served jerr C b f3 g3 n2 r2 n3 r3" "sub_answered cB qA f3 g3"
    "map_of (queues (core r3)) qA = Some \<lparr>owner = Some a, sub = Some b\<rparr>"
    "\<forall>p. p \<noteq> qA \<longrightarrow> map_of (queues (core r3)) p = map_of (queues (core r2)) p" unfolding sub_answered_def by metis
  note S3 = s3(1) [unfolded served_def]
  \<comment> \<open>and then the first\<close>
  have m3: "messages_tab (db (core r3)) = []" "map_of (queues (core r3)) qB = Some \<lparr>owner = Some b, sub = None\<rparr>"
    using S3 m2(1) s2(3) s3(4) relay(3) by simp_all
  have "proc n3 = Up r3" "good C (core r3)" "idle n3 r3 a" using S3 served_idle [OF s2(1) served_idle [OF s1(1) net(6)]] by simp_all
  from sub_hop [OF this(1,2) net(3) this(3) _ w(1) m3(2) _ m3(1), of ioA jerr 1] io(1) net(5)
  obtain n4 r4 f4 g4 where s4: "served jerr C a f4 g4 n3 r3 n4 r4" "sub_answered cA qB f4 g4"
    "map_of (queues (core r4)) qB = Some \<lparr>owner = Some b, sub = Some a\<rparr>"
    "\<forall>p. p \<noteq> qB \<longrightarrow> map_of (queues (core r4)) p = map_of (queues (core r3)) p" unfolding sub_answered_def by metis
  note S4 = s4(1) [unfolded served_def]
  have "reaches net_ok (net_step jerr) n n4"
    using reaches_trans [OF S4 [THEN conjunct1] reaches_trans [OF S3 [THEN conjunct1] reaches_trans [OF S2 [THEN conjunct1] S1 [THEN conjunct1]]]] .
  moreover have "idle n4 r4 a" "idle n4 r4 b" by (auto intro!: served_idle [OF s4(1)] served_idle [OF s3(1)] served_idle [OF s2(1)] served_idle [OF s1(1)] net(6,7))
  moreover have "map_of (queues (core r4)) qA = Some \<lparr>owner = Some a, sub = Some b\<rparr>" using s3(3) s4(4) relay(3) by simp
  moreover have "{qA, qB} \<subseteq> qids (db (core r4))" using s1(4) s2(4) S2 S3 S4 by blast
  moreover have "wrote n4 = wrote n @ [(a, f1), (b, f2), (b, f3), (a, f4)]" "got n4 = got n @ [(a, g1), (b, g2), (b, g3), (a, g4)]"
    "said n4 = said n" "shown n4 = shown n" "messages_tab (db (core r4)) = []" using S1 S2 S3 S4 m3(1) by simp_all
  moreover have "proc n4 = Up r4" "good C (core r4)" using S4 by blast+
  ultimately show thesis using that s1(2) s2(2) s3(2) s4(2,3) by presburger
qed

text \<open>What the two programs make of the answers: each prints its link, and takes the other's.\<close>

lemma both_programs_start:
  assumes clients: "first_start cA wA iA dA" "first_start cB wB iB dB" "parseAddr addr = (host, port)" "addr \<noteq> []"
      "list_all host_plain host" "1 \<le> port" "port \<le> 65535" "length host \<le> 255"
    and v: "ValidQueueID qA" "ValidQueueID qB"
    and na: "new_answered cA qA f1 g1" "new_answered cB qB f2 g2" "sub_answered cB qA f3 g3" "sub_answered cA qB f4 g4"
  obtains wA' wB' where
    "runChat cA [] addr [] (wA\<lparr>typed := [myInvite (met host port qB [] iB)], arriving := [g1, g4]\<rparr>) = Ret (Inr (met host port qA qB iA), wA')"
    "sent wA' = sent wA @ [f1, f4]" "links wA' = links wA @ [myInvite (met host port qA [] iA)]"
    "runChat cB (myInvite (met host port qA [] iA)) [] [] (wB\<lparr>typed := [], arriving := [g2, g3]\<rparr>) = Ret (Inr (met host port qB qA iB), wB')"
    "sent wB' = sent wB @ [f2, f3]" "links wB' = links wB @ [myInvite (met host port qB [] iB)]"
proof -
  have p: "printable_invite (invitation host port qA iA)" "printable_invite (invitation host port qB iB)"
    using clients(5,6) v by (simp_all add: printable_invite_def)
  have parse: "ParseInvite ipl (Invite_String (invitation host port qA iA)) = Inr (invitation host port qA iA)"
    "ParseInvite ipl (Invite_String (invitation host port qB iB)) = Inr (invitation host port qB iB)" for ipl
    using ParseInvite_link [OF p(1)] ParseInvite_link [OF p(2)] clients(1,2,6,7) by (simp_all add: first_start_def)
  have len: "length (myInvite (met host port qB [] iB)) < max_token"
    using length_link [OF p(2)] clients(2,7,8) by (simp add: myInvite_met max_token_def first_start_def)
  have u: "valid_utf8 host"
    using clients(5) host_plain_link link_char_visible
    by (intro runes_valid [OF runes_ascii]) (fastforce simp: list_all_iff is_ascii_def)
  have ne: "Invite_String (invitation host port qA iA) \<noteq> []" by (simp add: Invite_String_eq [OF p(1)])
  obtain wA' where A: "runChat cA [] addr [] (wA\<lparr>typed := [myInvite (met host port qB [] iB)], arriving := [g1, g4]\<rparr>) =
      Ret (Inr (met host port qA qB iA), wA')" "sent wA' = sent wA @ [f1, f4]" "links wA' = links wA @ [myInvite (met host port qA [] iA)]"
    using first_to_come [OF clients(1,3,4) u na(1) v(1), of "invitation host port qB iB" f4 g4 "myInvite (met host port qB [] iB)"]
      na(4) parse(2) link_typed [OF p(2)] len by (auto simp: myInvite_met)
  obtain wB' where B: "runChat cB (myInvite (met host port qA [] iA)) [] [] (wB\<lparr>typed := [], arriving := [g2, g3]\<rparr>) =
      Ret (Inr (met host port qB qA iB), wB')" "sent wB' = sent wB @ [f2, f3]" "links wB' = links wB @ [myInvite (met host port qB [] iB)]"
    using second_to_come [OF clients(2) parse(1) ne _ na(2) v(2), of f3 g3] na(3) u by (auto simp: myInvite_met)
  show thesis by (rule that [OF A B])
qed

text \<open>The two chats begin.\<close>

lemma both_ready:
  assumes "proc n = Up r" "idle n r a" "idle n r b" "a \<noteq> b" "sendq sa = new_client" "seen sa = []" "sendq sb = new_client" "seen sb = []"
  obtains n' where "reaches net_ok (net_step jerr) n n'" "proc n' = Up r" "ready n' r a (start_chat sa)" "ready n' r b (start_chat sb)"
    "said n' = said n" "shown n' = shown n" "wrote n' = wrote n" "got n' = got n"
proof -
  obtain n5 where n5: "reaches net_ok (net_step jerr) n n5" "proc n5 = Up r" "ready n5 r a (start_chat sa)"
    "idle n5 r b" "said n5 = said n" "shown n5 = shown n" "wrote n5 = wrote n" "got n5 = got n"
    using join_ready [OF assms(1,2,5,6), of jerr] assms(3,4) by auto
  obtain n6 where n6: "reaches net_ok (net_step jerr) n5 n6" "proc n6 = Up r" "ready n6 r b (start_chat sb)"
    "ready n6 r a (start_chat sa)" "said n6 = said n5" "shown n6 = shown n5" "wrote n6 = wrote n5" "got n6 = got n5"
    using join_ready [OF n5(2,4) assms(7,8), of jerr] n5(3) assms(4) by auto
  show thesis using that [OF reaches_trans [OF n6(1) n5(1)]] n5 n6 by simp
qed

lemma clients_meet:
  assumes net: "proc n = Up r" "good C (core r)" "a \<in> C" "b \<in> C" "a \<noteq> b" "idle n r a" "idle n r b" "messages_tab (db (core r)) = []"
    and relay: "easy_io ioA qA" "easy_io ioB qB" "qA \<noteq> qB"
    and clients: "first_start cA wA iA dA" "first_start cB wB iB dB" "parseAddr addr = (host, port)" "addr \<noteq> []"
      "list_all host_plain host" "1 \<le> port" "port \<le> 65535" "length host \<le> 255"
  obtains n' r' f1 g1 f2 g2 f3 g3 f4 g4 wA' wB' where "reaches net_ok (net_step jerr) n n'" "proc n' = Up r'" "good C (core r')"
    "wrote n' = wrote n @ [(a, f1), (b, f2), (b, f3), (a, f4)]" "got n' = got n @ [(a, g1), (b, g2), (b, g3), (a, g4)]"
    "runChat cA [] addr [] (wA\<lparr>typed := [myInvite (met host port qB [] iB)], arriving := [g1, g4]\<rparr>) = Ret (Inr (met host port qA qB iA), wA')"
    "sent wA' = sent wA @ [f1, f4]" "links wA' = links wA @ [myInvite (met host port qA [] iA)]"
    "runChat cB (myInvite (met host port qA [] iA)) [] [] (wB\<lparr>typed := [], arriving := [g2, g3]\<rparr>) = Ret (Inr (met host port qB qA iB), wB')"
    "sent wB' = sent wB @ [f2, f3]" "links wB' = links wB @ [myInvite (met host port qB [] iB)]"
    "ready n' r' a (start_chat (met host port qA qB iA))" "ready n' r' b (start_chat (met host port qB qA iB))"
    "map_of (queues (core r')) qA = Some \<lparr>owner = Some a, sub = Some b\<rparr>" "map_of (queues (core r')) qB = Some \<lparr>owner = Some b, sub = Some a\<rparr>"
    "{qA, qB} \<subseteq> qids (db (core r'))" "messages_tab (db (core r')) = []" "said n' = said n" "shown n' = shown n"
    "buf (conns (core r') a) = []" "buf (conns (core r') b) = []"
proof -
  have w: "\<And>m. int64_range (wall cA m)" "\<And>m. int64_range (wall cB m)" using clients(1,2) by (simp_all add: first_start_def)
  obtain n4 r4 f1 g1 f2 g2 f3 g3 f4 g4 where n4: "reaches net_ok (net_step jerr) n n4" "proc n4 = Up r4" "good C (core r4)" "idle n4 r4 a" "idle n4 r4 b"
    "wrote n4 = wrote n @ [(a, f1), (b, f2), (b, f3), (a, f4)]" "got n4 = got n @ [(a, g1), (b, g2), (b, g3), (a, g4)]"
    "new_answered cA qA f1 g1" "new_answered cB qB f2 g2" "sub_answered cB qA f3 g3" "sub_answered cA qB f4 g4"
    "map_of (queues (core r4)) qA = Some \<lparr>owner = Some a, sub = Some b\<rparr>" "map_of (queues (core r4)) qB = Some \<lparr>owner = Some b, sub = Some a\<rparr>"
    "{qA, qB} \<subseteq> qids (db (core r4))" "messages_tab (db (core r4)) = []" "said n4 = said n" "shown n4 = shown n"
    by (rule four_requests [OF net relay w])
  obtain wA' wB' where P:
    "runChat cA [] addr [] (wA\<lparr>typed := [myInvite (met host port qB [] iB)], arriving := [g1, g4]\<rparr>) = Ret (Inr (met host port qA qB iA), wA')"
    "sent wA' = sent wA @ [f1, f4]" "links wA' = links wA @ [myInvite (met host port qA [] iA)]"
    "runChat cB (myInvite (met host port qA [] iA)) [] [] (wB\<lparr>typed := [], arriving := [g2, g3]\<rparr>) = Ret (Inr (met host port qB qA iB), wB')"
    "sent wB' = sent wB @ [f2, f3]" "links wB' = links wB @ [myInvite (met host port qB [] iB)]"
    by (rule both_programs_start [OF clients easy_io_valid [OF relay(1)] easy_io_valid [OF relay(2)] n4(8-11)])
  obtain n6 where n6: "reaches net_ok (net_step jerr) n4 n6" "proc n6 = Up r4" "ready n6 r4 a (start_chat (met host port qA qB iA))"
    "ready n6 r4 b (start_chat (met host port qB qA iB))" "said n6 = said n4" "shown n6 = shown n4" "wrote n6 = wrote n4" "got n6 = got n4"
    using both_ready [OF n4(2,4,5) net(5), of "met host port qA qB iA" "met host port qB qA iB" jerr] by auto
  have "wrote n6 = wrote n @ [(a, f1), (b, f2), (b, f3), (a, f4)]" "got n6 = got n @ [(a, g1), (b, g2), (b, g3), (a, g4)]"
    "said n6 = said n" "shown n6 = shown n" using n4 n6 by simp_all
  moreover have "buf (conns (core r4) a) = []" "buf (conns (core r4) b) = []" using n4(4,5) by (simp_all add: idle_def)
  ultimately show thesis by (rule that [OF reaches_trans [OF n6(1) n4(1)] n6(2) n4(3) _ _ P n6(3,4) n4(12-15)])
qed

end
