(* ===== verification/Network_Props.thy ===== *)
theory Network_Props
  imports Meeting Client_Props
begin

text \<open>
  Properties of the whole network, one relay with any number of chats and strangers: what can be shown, to whom, how
  often, when a message may disappear, and that a line gets across.  The instance is a complete conversation from an
  empty network.
\<close>

subsection \<open>A meeting\<close>

text \<open>
  Two connections are made to a relay that knows one queue; the second subscribes to it; both start to chat.
\<close>

definition demo_sub :: string where
  "demo_sub = the (frame_of 100 TypeSub demo_qid [] NoPayload)"

definition sub_envelope :: envelope where
  "sub_envelope = \<lparr>Version = 1, Typ = TypeSub, QueueID = demo_qid, MsgID = [], TS = 100, Payload = Some (payload_text NoPayload)\<rparr>"

lemma demo_sub_parses: "Parse demo_sub = Inr sub_envelope" "length demo_sub \<le> maxMsgSize"
proof -
  have n: "int64_range 100" by (simp add: int64_range_def)
  obtain f where f: "frame_of 100 TypeSub demo_qid [] NoPayload = Some f" using frame_of_sendable [of NoPayload] by simp
  show "Parse demo_sub = Inr sub_envelope"
    using frame_of_Parse [OF _ n _ f] ValidQueueID_utf8 [of demo_qid] by (simp add: demo_sub_def sub_envelope_def f)
  have "length (enc_string TypeSub) = 5" by (subst length_enc_safe) (simp_all add: html_safe_def proto_simps)
  moreover have "length (enc_string demo_qid) = 34" by (subst length_enc_safe) (simp_all add: html_safe_def demo_qid_def list_all_iff)
  ultimately show "length demo_sub \<le> maxMsgSize"
    using frame_of_sendable [of NoPayload 100 TypeSub demo_qid "[]"]
    by (simp add: demo_sub_def length_enc_object envelope_fields_def length_show_one payload_text_def maxMsgSize_def
        show_int_def show_nat.simps)
qed

lemma demo_subscribes:
  assumes "good {0, 1} h" "db h = demo_store" "queues h = []" "buf (conns h 1) = []"
  shows "\<exists>h' g qs. handle demo_io 1 sub_envelope h = Ret h' \<and> good {0, 1} h' \<and> buf (conns h' 1) = [g] \<and>
    map_of (queues h') demo_qid = Some qs \<and> sub qs = Some 1 \<and> messages_tab (db h') = [] \<and> qids (db h') = {demo_qid} \<and> conns h' 0 = conns h 0"
proof -
  let ?qs = "\<lparr>owner = None, sub = None\<rparr>"
  have e: "QueueID sub_envelope = demo_qid" "Typ sub_envelope = TypeSub" by (simp_all add: sub_envelope_def)
  have fq: "find_queue demo_io (QueueID sub_envelope) h = Inr (?qs, h\<lparr>queues := AList.update demo_qid ?qs (queues h)\<rparr>)"
    using assms(2,3) by (simp add: e find_queue_def QueueExists_def Let_def) (simp add: demo_io_def)
  have hd: "handle demo_io 1 sub_envelope h = handle_sub demo_io 1 sub_envelope h" by (simp add: handle_def e proto_simps)
  have f: "\<not> f_undelivered demo_io" by (simp add: demo_io_def)
  have pe: "pending (db h) demo_qid = []" using assms(2) by (simp add: pending_eq demo_store_def)
  obtain g where g: "sub_ok_frame demo_io demo_qid = Some g" using frame_of_sendable [of NoPayload] by (simp add: sub_ok_frame_def)
  obtain h' where h': "handle_sub demo_io 1 sub_envelope h = Ret h'" "buf (conns h' 1) = [g]"
    "map_of (queues h') demo_qid = Some (?qs\<lparr>sub := Some 1\<rparr>)" "messages_tab (db h') = []" "conns h' 0 = conns h 0"
    using handle_sub_ok [OF assms(1) demo_io_ok _ fq, of 1] f pe g assms(2,4)
    by (auto simp: e replay_frames_def sendCap_def opt_list_def demo_store_def)
  have "env_ok sub_envelope" by (rule Parse_env_ok [OF demo_sub_parses(1)])
  moreover have "courteous demo_io 1 sub_envelope h" using assms(3) by (simp add: courteous_def e proto_simps)
  ultimately have "calm {0, 1} (handle demo_io 1 sub_envelope h)" by (intro calm_handle [OF assms(1) demo_io_ok]) simp_all
  then have "good {0, 1} h'" using h'(1) hd by (simp add: calm_def)
  moreover have "qids (db h') = {demo_qid}"
    using mail_sub [of demo_io 1 sub_envelope h] h'(1) assms(2) by (simp add: same_mail_def)
  ultimately show ?thesis using h' hd by auto
qed

lemma demo_dialled:
  obtains n r where "reaches net_ok (net_step jerr) (start_net demo_store) n" "proc n = Up r" "good {0, 1} (core r)"
    "db (core r) = demo_store" "queues (core r) = []" "idle n r 0" "idle n r 1" "said n = []" "shown n = []" "wrote n = []" "got n = []"
proof -
  let ?n0 = "start_net demo_store" and ?r0 = "new_relay demo_store"
  obtain r1 where r1: "reaches net_ok (net_step jerr) ?n0 (?n0\<lparr>proc := Up r1, dialled := {0}\<rparr>)"
    "core r1 = (core ?r0)\<lparr>conns := (conns (core ?r0))(0 := new_client), clients := insert 0 (clients (core ?r0))\<rparr>"
    "readers r1 = (readers ?r0)(0 := Reading)" "writing r1 = (writing ?r0)(0 := True)"
    using dial_in [of 0 ?n0 ?r0 jerr] by (auto simp: start_net_def new_relay_def)
  let ?n1 = "?n0\<lparr>proc := Up r1, dialled := {0}\<rparr>"
  obtain r2 where r2: "reaches net_ok (net_step jerr) ?n1 (?n1\<lparr>proc := Up r2, dialled := {1, 0}\<rparr>)"
    "core r2 = (core r1)\<lparr>conns := (conns (core r1))(1 := new_client), clients := insert 1 (clients (core r1))\<rparr>"
    "readers r2 = (readers r1)(1 := Reading)" "writing r2 = (writing r1)(1 := True)"
    using dial_in [of 1 ?n1 r1 jerr] r1 by (auto simp: new_relay_def)
  let ?n2 = "?n1\<lparr>proc := Up r2, dialled := {1, 0}\<rparr>"
  have c2: "clients (core r2) = {0, 1}" "queues (core r2) = []" "db (core r2) = demo_store" "conns (core r2) c = new_client" for c
    using r1(2) r2(2) by (auto simp: new_relay_def NewHub_def)
  then have "good {0, 1} (core r2)" by (simp add: good_def hub_inv_def table_inv_def conn_inv_new tidy_def)
  moreover have "idle ?n2 r2 0" "idle ?n2 r2 1" using r1(3,4) r2(3,4) c2(4) by (simp_all add: idle_def start_net_def)
  ultimately show thesis
    using that [OF reaches_trans [OF r2(1) r1(1)]] c2(2,3) by (simp add: start_net_def)
qed

lemma demo_meeting:
  "\<exists>n r qs. reaches net_ok (net_step jerr) (start_net demo_store) n \<and> proc n = Up r \<and> good {0, 1} (core r) \<and>
     map_of (queues (core r)) demo_qid = Some qs \<and> sub qs = Some 1 \<and> buf (conns (core r) 1) = [] \<and>
     messages_tab (db (core r)) = [] \<and> qids (db (core r)) = {demo_qid} \<and>
     ready n r 0 (start_chat demo_session) \<and> ready n r 1 (start_chat demo_session) \<and> said n = [] \<and> shown n = []"
proof -
  obtain n r where n: "reaches net_ok (net_step jerr) (start_net demo_store) n" "proc n = Up r" "good {0, 1} (core r)"
    "db (core r) = demo_store" "queues (core r) = []" "idle n r 0" "idle n r 1" "said n = []" "shown n = []"
    by (rule demo_dialled)
  obtain h g qs where h: "handle demo_io 1 sub_envelope (core r) = Ret h" "good {0, 1} h" "buf (conns h 1) = [g]"
    "map_of (queues h) demo_qid = Some qs" "sub qs = Some 1" "messages_tab (db h) = []" "qids (db h) = {demo_qid}"
    "conns h 0 = conns (core r) 0"
    using demo_subscribes [OF n(3-5)] n(7) by (auto simp: idle_def)
  have "Typ sub_envelope \<in> {TypeNew, TypeSub}" "int64_range 100" by (simp_all add: sub_envelope_def int64_range_def)
  from ask_hop [OF n(2,7) demo_sub_parses(2,1) this demo_io_ok h(1,3), of jerr] n(6) h(8)
  obtain n' r' where n': "reaches net_ok (net_step jerr) n n'" "proc n' = Up r'" "core r' = drained 1 h" "idle n' r' 1" "idle n' r' 0"
    "said n' = []" "shown n' = []" by (auto simp: n(8,9))
  obtain n6 where n6: "reaches net_ok (net_step jerr) n' n6" "proc n6 = Up r'" "ready n6 r' 0 (start_chat demo_session)"
    "ready n6 r' 1 (start_chat demo_session)" "said n6 = said n'" "shown n6 = shown n'"
    using both_ready [OF n'(2,5,4), of demo_session demo_session jerr] by auto
  have "reaches net_ok (net_step jerr) (start_net demo_store) n6"
    by (rule reaches_trans [OF n6(1) reaches_trans [OF n'(1) n(1)]])
  then show ?thesis using n'(3,6,7) n6(2-6) h good_drained [OF h(2)] by (intro exI [of _ n6] exI [of _ r'] exI [of _ qs]) simp
qed

subsection \<open>A line gets across\<close>

text \<open>
  C7.  In any network in which two chats have an idle connection to the relay, the second subscribed to the queue the
  first sends to, a typed line can run its whole course: it is on the second screen, once, with the text trimmed and made
  valid UTF-8, and after the acknowledgement has come back the relay has no message of that identifier any more.
\<close>

theorem typed_line_crosses_the_network:
  assumes "proc n = Up r" "good C (core r)" "io_ok io" "io_ok io2" "\<not> f_delete io2" "c \<in> C"
      "map_of (queues (core r)) (my_queue (sess a)) = Some qs" "sub qs = Some d" "d \<noteq> c" "buf (conns (core r) d) = []"
      "send_stores io (typed_envelope now b (my_queue (sess a)) (TrimSpace line)) (core r)"
    and "ready n r c a" "ready n r d s" "hex_encode b \<notin> set (seen (sess s))"
    and "TrimSpace line \<noteq> []" "TrimSpace line \<noteq> ''/quit''" "length line \<le> 10000" "length b = 16" "int64_range now"
  shows "\<exists>n' s'. reaches net_ok (net_step jerr) n n' \<and>
    said n' = said n @ [(c, my_queue (sess a), hex_encode b, to_valid_utf8 (TrimSpace line))] \<and>
    shown n' = shown n @ [(d, my_queue (sess a), hex_encode b, to_valid_utf8 (TrimSpace line))] \<and>
    chats n' d = Some s' \<and> rp s' = Receiving \<and>
    screen s' = screen s @ [clearLine @ ''['' @ nick (sess s) @ ''] '' @ to_valid_utf8 (TrimSpace line) @ newline @ prompt] \<and>
    hex_encode b \<notin> row_mid ` set (messages_tab (disk (proc n')))"
  using line_crosses [OF assms, of jerr] reaches_mono [of quiet "net_step jerr" n _ net_ok]
  unfolding quiet_def by blast

lemma demo_ready:
  obtains n r qs where "reaches net_ok (net_step (\<lambda>_. [])) (start_net demo_store) n" "proc n = Up r" "good {0, 1} (core r)"
    "map_of (queues (core r)) (my_queue (sess (start_chat demo_session))) = Some qs" "sub qs = Some 1" "buf (conns (core r) 1) = []"
    "send_stores demo_io (typed_envelope 3 demo_bytes (my_queue (sess (start_chat demo_session))) (TrimSpace ''hi'')) (core r)"
    "ready n r 0 (start_chat demo_session)" "ready n r 1 (start_chat demo_session)" "said n = []" "shown n = []"
proof -
  obtain n r qs where m: "reaches net_ok (net_step (\<lambda>_. [])) (start_net demo_store) n" "proc n = Up r" "good {0, 1} (core r)"
    "map_of (queues (core r)) demo_qid = Some qs" "sub qs = Some 1" "buf (conns (core r) 1) = []"
    "messages_tab (db (core r)) = []" "qids (db (core r)) = {demo_qid}"
    "ready n r 0 (start_chat demo_session)" "ready n r 1 (start_chat demo_session)" "said n = []" "shown n = []"
    using demo_meeting [of "\<lambda>_. []"] by blast
  have "send_stores demo_io (typed_envelope 3 demo_bytes demo_qid (TrimSpace ''hi'')) (core r)"
    using m(4,7,8) by (simp add: send_stores_def typed_envelope_def find_queue_def SaveMessage_def)
      (simp add: demo_io_def sent_message_def)
  with m that show ?thesis by simp
qed

lemma demo_line:
  "TrimSpace ''hi'' \<noteq> []" "TrimSpace ''hi'' \<noteq> ''/quit''" "length ''hi'' \<le> 10000" "length demo_bytes = 16" "int64_range 3"
  "my_queue (sess (start_chat demo_session)) = demo_qid" "hex_encode demo_bytes \<notin> set (seen (sess (start_chat demo_session)))"
  "to_valid_utf8 ''hi'' = ''hi''"
  by (simp_all add: trim_hi demo_bytes_def int64_range_def ascii_valid_utf8 is_ascii_def)

lemma demo_run: "\<not> f_delete demo_io" "(0 :: nat) \<in> {0, 1}" "(1 :: nat) \<noteq> 0"
  by (simp_all add: demo_io_def)

theorem typed_line_crosses_the_network_witness:
  "\<exists>n s. reaches net_ok (net_step (\<lambda>_. [])) (start_net demo_store) n \<and>
     shown n = [(1, demo_qid, hex_encode demo_bytes, ''hi'')] \<and> said n = [(0, demo_qid, hex_encode demo_bytes, ''hi'')] \<and>
     chats n 1 = Some s \<and> last (screen s) = clearLine @ ''[h] hi'' @ newline @ prompt"
proof -
  obtain n r qs where m: "reaches net_ok (net_step (\<lambda>_. [])) (start_net demo_store) n" "proc n = Up r" "good {0, 1} (core r)"
    "map_of (queues (core r)) (my_queue (sess (start_chat demo_session))) = Some qs" "sub qs = Some 1" "buf (conns (core r) 1) = []"
    "send_stores demo_io (typed_envelope 3 demo_bytes (my_queue (sess (start_chat demo_session))) (TrimSpace ''hi'')) (core r)"
    "ready n r 0 (start_chat demo_session)" "ready n r 1 (start_chat demo_session)" "said n = []" "shown n = []"
    by (rule demo_ready)
  from typed_line_crosses_the_network [OF m(2,3) demo_io_ok demo_io_ok demo_run(1,2) m(4,5) demo_run(3) m(6-9) demo_line(7,1-5), of "\<lambda>_. []", unfolded demo_line(6)]
  obtain n' s' where n': "reaches net_ok (net_step (\<lambda>_. [])) n n'"
    "said n' = [(0, demo_qid, hex_encode demo_bytes, ''hi'')]" "shown n' = [(1, demo_qid, hex_encode demo_bytes, ''hi'')]"
    "chats n' 1 = Some s'" "last (screen s') = clearLine @ ''[h] hi'' @ newline @ prompt"
    by (auto simp: m(10,11) trim_hi demo_line(8))
  then show ?thesis using reaches_trans [OF n'(1) m(1)] by blast
qed

lemma demo_conversation:
  "\<exists>n s. reaches net_ok (net_step (\<lambda>_. [])) (start_net demo_store) n \<and>
     shown n = [(1, demo_qid, hex_encode demo_bytes, ''hi'')] \<and> said n = [(0, demo_qid, hex_encode demo_bytes, ''hi'')] \<and>
     chats n 1 = Some s \<and> last (screen s) = clearLine @ ''[h] hi'' @ newline @ prompt"
proof -
  obtain n r qs where m: "reaches net_ok (net_step (\<lambda>_. [])) (start_net demo_store) n" "proc n = Up r" "good {0, 1} (core r)"
    "map_of (queues (core r)) (my_queue (sess (start_chat demo_session))) = Some qs" "sub qs = Some 1" "buf (conns (core r) 1) = []"
    "send_stores demo_io (typed_envelope 3 demo_bytes (my_queue (sess (start_chat demo_session))) (TrimSpace ''hi'')) (core r)"
    "ready n r 0 (start_chat demo_session)" "ready n r 1 (start_chat demo_session)" "said n = []" "shown n = []"
    by (rule demo_ready)
  from line_crosses [OF m(2,3) demo_io_ok demo_io_ok demo_run(1,2) m(4,5) demo_run(3) m(6-9) demo_line(7,1-5), of "\<lambda>_. []", unfolded demo_line(6)]
  obtain n' s' where n': "reaches quiet (net_step (\<lambda>_. [])) n n'"
    "said n' = [(0, demo_qid, hex_encode demo_bytes, ''hi'')]" "shown n' = [(1, demo_qid, hex_encode demo_bytes, ''hi'')]"
    "chats n' 1 = Some s'" "last (screen s') = clearLine @ ''[h] hi'' @ newline @ prompt"
    by (auto simp: m(10,11) trim_hi demo_line(8))
  have "reaches net_ok (net_step (\<lambda>_. [])) n n'" by (rule reaches_mono [OF n'(1)]) (simp add: quiet_def)
  from reaches_trans [OF this m(1)] n' show ?thesis by blast
qed

subsection \<open>What can be shown\<close>

text \<open>
  C1.  Nothing is invented and nothing altered: over any run of the network, with any strangers, crashes and restarts, a
  text shown by a chat as a message of a queue was said to that queue before, typed in a chat or sent by a stranger, with the
  same identifier unless its sender gave none.
\<close>

theorem network_shows_only_what_was_said:
  assumes "db_inv s" "messages_tab s = []" "reaches net_ok (net_step jerr) (start_net s) n" "(c, q, m, t) \<in> set (shown n)"
  shows "\<exists>a m'. (a, q, m', t) \<in> set (said n) \<and> (m' = [] \<or> m' = m)"
  using net.inv_reaches [OF assms(3) net_inv_start [OF assms(1,2)]] assms(4) by (auto simp: net_inv_def shown_ok_def)

theorem network_shows_only_what_was_said_witness:
  "\<exists>n. reaches net_ok (net_step (\<lambda>_. [])) (start_net demo_store) n \<and> (1, demo_qid, hex_encode demo_bytes, ''hi'') \<in> set (shown n) \<and>
     (\<exists>a m'. (a, demo_qid, m', ''hi'') \<in> set (said n) \<and> (m' = [] \<or> m' = hex_encode demo_bytes))"
proof -
  obtain n where n: "reaches net_ok (net_step (\<lambda>_. [])) (start_net demo_store) n"
    "(1, demo_qid, hex_encode demo_bytes, ''hi'') \<in> set (shown n)" using demo_conversation by auto
  have "messages_tab demo_store = []" by (simp add: demo_store_def)
  from network_shows_only_what_was_said [OF demo_db_inv this n] n show ?thesis by blast
qed

text \<open>
  C8.  Nothing is misrouted and nothing shown twice: a chat only shows messages of queues its connection asked for with
  SUB, and over the whole run each chat shows each message identifier at most once, however often the relay replays it.
\<close>

theorem network_shows_once_to_subscribers:
  assumes "db_inv s" "messages_tab s = []" "reaches net_ok (net_step jerr) (start_net s) n"
  shows "(\<forall>(c, q, m, t) \<in> set (shown n). (c, q) \<in> set (asked n)) \<and> distinct (map (\<lambda>(c, q, m, t). (c, m)) (shown n))"
  using net.inv_reaches [OF assms(3) net_inv_start [OF assms(1,2)]] by (auto simp: net_inv_def shown_ok_def)

theorem network_shows_once_to_subscribers_witness:
  "\<exists>n. reaches net_ok (net_step (\<lambda>_. [])) (start_net demo_store) n \<and> (1, demo_qid) \<in> set (asked n)"
proof -
  obtain n where n: "reaches net_ok (net_step (\<lambda>_. [])) (start_net demo_store) n"
    "(1, demo_qid, hex_encode demo_bytes, ''hi'') \<in> set (shown n)" using demo_conversation by auto
  have "messages_tab demo_store = []" by (simp add: demo_store_def)
  from network_shows_once_to_subscribers [OF demo_db_inv this n(1)] n show ?thesis by auto
qed

subsection \<open>What can be lost\<close>

text \<open>The event that drops a message for its age: a sweep that finds its queue expired.\<close>

definition expires :: "stored_message \<Rightarrow> net \<Rightarrow> net_event \<Rightarrow> bool" where
  "expires m n ev \<longleftrightarrow>
     (case ev of
        RelayTurn (SweepTick faults fk now) \<Rightarrow> QID m \<in> expired_qids (now - queueTTL) (disk (proc n))
      | _ \<Rightarrow> False)"

definition settled :: "string \<Rightarrow> net \<Rightarrow> bool" where
  "settled mid n \<longleftrightarrow> (\<exists>c q t. (c, q, mid, t) \<in> set (shown n)) \<or> (\<exists>c. (c, mid) \<in> set (acked n))"

lemma net_step_later:
  assumes "net_step jerr n ev n'" shows "later n n'"
  using assms
proof (cases rule: net_stepE)
  case (other_writes c f)
  then show ?thesis using on_record_later [of "n\<lparr>up := (up n)(c := up n c @ [f]), wrote := wrote n @ [(c, f)]\<rparr>" c f] by (simp add: later_def)
qed (auto simp: later_def)

lemma settled_later: "settled mid n \<Longrightarrow> later n n' \<Longrightarrow> settled mid n'"
  unfolding settled_def later_def by blast

lemma kept_or_settled:
  assumes "net_inv n" "relay_step jerr (proc n) e p" "event_ok (proc n) e" "m \<in> set (pending (disk (proc n)) q)"
    and "\<not> expires m n (RelayTurn e)"
  shows "m \<in> set (pending (disk p) q) \<or> settled (Mid m) n"
proof (cases "retires m (proc n) e")
  case True
  then obtain r c io env where h: "proc n = Up r" "e = HubRoute c io" "readers r c = Handing env" "Typ env = TypeAck" "MsgID env = Mid m"
    using assms(5) by (auto simp: retires_def expires_def split: process.splits event.splits reader.splits)
  then have "hears (heard_of n) c env" using assms(1) by (simp add: net_inv_def process_stems_def)
  then have "(c, Mid m) \<in> acks (heard_of n)" using h by (simp add: hears_def)
  then show ?thesis by (auto simp: heard_of_def settled_def)
next
  case False
  have "reaches (\<lambda>p e. event_ok p e \<and> \<not> retires m p e) (relay_step jerr) (proc n) p"
    using assms(2) by (rule onward [OF here, rotated]) (use assms(3) False in simp)
  from kept_until_retired [OF _ assms(4) this] assms(1) show ?thesis by (simp add: net_inv_def)
qed

lemma net_keeps:
  assumes "net_inv n" "net_ok n ev" "\<not> expires m n ev" "net_step jerr n ev n'"
    and "m \<in> set (pending (disk (proc n)) q) \<or> settled (Mid m) n"
  shows "m \<in> set (pending (disk (proc n')) q) \<or> settled (Mid m) n'"
proof (cases "settled (Mid m) n")
  case True
  then show ?thesis using settled_later net_step_later [OF assms(4)] by blast
next
  case False
  with assms(5) have m: "m \<in> set (pending (disk (proc n)) q)" by blast
  have k: "m \<in> set (pending (disk p) q)" if "relay_step jerr (proc n) e p" "event_ok (proc n) e" "\<not> expires m n (RelayTurn e)" for e p
    using kept_or_settled [OF assms(1) that(1,2) m that(3)] False by blast
  from assms(4) show ?thesis
  proof (cases rule: net_stepE)
    case (dial c p)
    then show ?thesis using k [of "Accept c" p] by (simp add: event_ok_def expires_def)
  next
    case (relay_reads c f fs now p)
    then show ?thesis using k [of "Frame c now f" p] assms(2) by (simp add: event_ok_def net_ok_def expires_def)
  next
    case (relay_writes r c tick ok x ws go)
    then show ?thesis using m by (simp add: put_wire_def)
  next
    case (relay_turn e p)
    then show ?thesis using k [of e p] assms(2,3) by (simp add: net_ok_def)
  qed (use m in simp_all)
qed

lemma kept_until_settled:
  assumes "net_inv n" "m \<in> set (pending (disk (proc n)) q)"
    and "reaches (\<lambda>n ev. net_ok n ev \<and> \<not> expires m n ev) (net_step jerr) n n'"
  shows "m \<in> set (pending (disk (proc n')) q) \<or> settled (Mid m) n'"
proof -
  from assms(2) have "m \<in> set (pending (disk (proc n)) q) \<or> settled (Mid m) n" by blast
  then show ?thesis
    by (rule net.kept_reaches [where P = "\<lambda>n. m \<in> set (pending (disk (proc n)) q) \<or> settled (Mid m) n"
        and Q = "\<lambda>n ev. \<not> expires m n ev", OF assms(3,1), THEN conjunct1]) (rule net_keeps)
qed

lemma later_trans: "later n n' \<Longrightarrow> later n' n'' \<Longrightarrow> later n n''"
  unfolding later_def by (blast intro: subset_trans)

lemma later_reaches: "reaches legal (net_step jerr) n n' \<Longrightarrow> later n n'"
proof (induction rule: reaches.induct)
  case here
  show ?case by (simp add: later_def)
next
  case onward
  then show ?case using later_trans net_step_later by blast
qed

text \<open>What was stored was said, to its queue and with its text.\<close>

definition text_in :: "stored_message \<Rightarrow> string \<Rightarrow> bool" where
  "text_in m t \<longleftrightarrow> t = chat_text (Some (Body m)) \<or> (Body m = [] \<and> t = chat_text None)"

lemma stored_was_said:
  assumes "net_inv n" "m \<in> set (pending (disk (proc n)) q)"
  obtains a i t where "(a, q, i, t) \<in> set (said n)" "i = [] \<or> i = Mid m" "text_in m t"
proof -
  have "db_stems (heard_of n) (disk (proc n))"
    using assms(1) by (cases "proc n") (simp_all add: net_inv_def process_stems_def hub_stems_def)
  then have "row_stems (heard_of n) m" using assms(2) by (auto simp: db_stems_def set_pending)
  then obtain i pl where r: "(q, i, pl) \<in> sends (heard_of n)" "i = [] \<or> i = Mid m" "Body m = (case pl of None \<Rightarrow> [] | Some b \<Rightarrow> b)"
    using pending_qid [OF assms(2)] by (auto simp: row_stems_def stems_def)
  from r(1) obtain a where "(a, q, i, chat_text pl) \<in> set (said n)" by (auto simp: heard_of_def)
  moreover have "text_in m (chat_text pl)" using r(3) by (cases pl) (simp_all add: text_in_def)
  ultimately show thesis using that r(2) by blast
qed

text \<open>
  An identifier is used for one message: what was said under it, or with no identifier for the relay to choose one, was
  said to one queue with one text.
\<close>

definition sole_id :: "string \<Rightarrow> net \<Rightarrow> bool" where
  "sole_id mid n \<longleftrightarrow>
     (\<forall>(a, q, i, t) \<in> set (said n). \<forall>(a', q', i', t') \<in> set (said n).
        (i = [] \<or> i = mid) \<and> (i' = [] \<or> i' = mid) \<longrightarrow> q = q' \<and> t = t')"

lemma sole_idD:
  assumes "sole_id mid n" "(a, q, i, t) \<in> set (said n)" "i = [] \<or> i = mid" "(a', q', i', t') \<in> set (said n)" "i' = [] \<or> i' = mid"
  shows "q' = q \<and> t' = t"
proof -
  from bspec [OF assms(1) [unfolded sole_id_def] assms(2)]
  have "\<forall>(a', q', i', t') \<in> set (said n). (i = [] \<or> i = mid) \<and> (i' = [] \<or> i' = mid) \<longrightarrow> q = q' \<and> t = t'" by simp
  from bspec [OF this assms(4)] assms(3,5) have "q = q' \<and> t = t'" by auto
  then show ?thesis by blast
qed

text \<open>
  C2.  No message is lost unread: once a message is in the relay's database it stays there, over crashes, restarts and broken
  connections, until a chat that asked for its queue has shown this very message, with its identifier and its text, or a stranger
  has acknowledged its identifier, or a sweep finds its queue expired.  This is for a message whose identifier no other message
  has: the relay deletes by identifier, so the ACK of an earlier message deletes a later one that reuses it.
\<close>

theorem no_message_is_lost_unread:
  assumes "db_inv s" "messages_tab s = []" "reaches net_ok (net_step jerr) (start_net s) n"
    and "m \<in> set (pending (disk (proc n)) q)" "reaches (\<lambda>n ev. net_ok n ev \<and> \<not> expires m n ev) (net_step jerr) n n'"
    and "sole_id (Mid m) n'"
  shows "m \<in> set (pending (disk (proc n')) q) \<or>
    (\<exists>c t. (c, q) \<in> set (asked n') \<and> (c, q, Mid m, t) \<in> set (shown n') \<and> text_in m t) \<or> (\<exists>c. (c, Mid m) \<in> set (acked n'))"
proof -
  have i: "net_inv n" by (rule net.inv_reaches [OF assms(3) net_inv_start [OF assms(1,2)]])
  have "reaches net_ok (net_step jerr) n n'" by (rule reaches_mono [OF assms(5)]) simp
  then have n': "net_inv n'" "later n n'" using net.inv_reaches i later_reaches by blast+
  obtain a i t where "(a, q, i, t) \<in> set (said n)" and said: "i = [] \<or> i = Mid m" "text_in m t"
    by (rule stored_was_said [OF i assms(4)])
  with n'(2) have said_later: "(a, q, i, t) \<in> set (said n')" by (auto simp: later_def)
  have "q' = q \<and> t' = t \<and> (c, q) \<in> set (asked n')" if "(c, q', Mid m, t') \<in> set (shown n')" for c q' t'
  proof -
    from n'(1) that have "shown_ok n' (c, q', Mid m, t')" unfolding net_inv_def by blast
    then obtain a' i' where "(a', q', i', t') \<in> set (said n')" "i' = [] \<or> i' = Mid m" "(c, q') \<in> set (asked n')"
      by (auto simp: shown_ok_def)
    then show ?thesis using sole_idD [OF assms(6) said_later said(1)] by blast
  qed
  then show ?thesis using kept_until_settled [OF i assms(4,5)] said(2) unfolding settled_def by blast
qed

text \<open>The instance: after the line is on the second screen the message is still stored; when the acknowledgement is back it is not.\<close>

lemma demo_story:
  "\<exists>n n' m. reaches net_ok (net_step (\<lambda>_. [])) (start_net demo_store) n \<and> m \<in> set (pending (disk (proc n)) demo_qid) \<and>
     reaches quiet (net_step (\<lambda>_. [])) n n' \<and> said n' = [(0, demo_qid, hex_encode demo_bytes, ''hi'')] \<and> m \<notin> set (pending (disk (proc n')) demo_qid)"
proof -
  obtain n r qs where m: "reaches net_ok (net_step (\<lambda>_. [])) (start_net demo_store) n" "proc n = Up r" "good {0, 1} (core r)"
    "map_of (queues (core r)) (my_queue (sess (start_chat demo_session))) = Some qs" "sub qs = Some 1" "buf (conns (core r) 1) = []"
    "send_stores demo_io (typed_envelope 3 demo_bytes (my_queue (sess (start_chat demo_session))) (TrimSpace ''hi'')) (core r)"
    "ready n r 0 (start_chat demo_session)" "ready n r 1 (start_chat demo_session)" "said n = []" "shown n = []"
    by (rule demo_ready)
  let ?m = "sent_message demo_io (typed_envelope 3 demo_bytes demo_qid (TrimSpace ''hi''))"
  obtain n1 r1 s1 k where n1: "reaches quiet (net_step (\<lambda>_. [])) n n1" "proc n1 = Up r1" "said n1 = [(0, demo_qid, hex_encode demo_bytes, ''hi'')]" "?m \<in> set (pending (disk (proc n1)) demo_qid)"
    "chats n1 1 = Some s1" "typing s1" "wp_on s1" "conn_open s1" "rp s1 = Acking k" "buf (sendq (sess s1)) = []" "up n1 1 = []"
    "readers r1 1 = Reading" "length k \<le> maxMsgSize"
    "Parse k = Inr \<lparr>Version = 1, Typ = TypeAck, QueueID = demo_qid, MsgID = hex_encode demo_bytes, TS = 3,
      Payload = Some (payload_text (AckMessage (hex_encode demo_bytes)))\<rparr>"
    using line_there [OF m(2,3) demo_io_ok demo_run(2) m(4,5) demo_run(3) m(6-9) demo_line(7) refl demo_line(1-5,5,5), of "\<lambda>_. []"]
    unfolding demo_line(6) m(10) trim_hi demo_line(8) append_Nil by blast
  from ack_back [OF n1(2,5-14), of demo_io 3 "\<lambda>_. []"] obtain n2 where n2: "reaches quiet (net_step (\<lambda>_. [])) n1 n2" "said n2 = said n1"
    "hex_encode demo_bytes \<notin> row_mid ` set (messages_tab (disk (proc n2)))" using demo_run(1) demo_line(4,5) by auto
  have "Mid ?m = hex_encode demo_bytes" using hex_not_Nil [OF demo_line(4)] by (simp add: sent_message_def send_mid_def typed_envelope_def)
  with n2(3) have "?m \<notin> set (pending (disk (proc n2)) demo_qid)" by (auto simp: set_pending row_mid_def image_iff)
  moreover have "reaches net_ok (net_step (\<lambda>_. [])) n n1" by (rule reaches_mono [OF n1(1)]) (simp add: quiet_def)
  ultimately show ?thesis using reaches_trans [OF _ m(1)] n1(4) n2(1) n1(3) [folded n2(2)] by blast
qed

theorem no_message_is_lost_unread_witness:
  "\<exists>n m. reaches net_ok (net_step (\<lambda>_. [])) (start_net demo_store) n \<and> m \<notin> set (pending (disk (proc n)) demo_qid) \<and>
     ((\<exists>c t. (c, demo_qid, Mid m, t) \<in> set (shown n) \<and> text_in m t) \<or> (\<exists>c. (c, Mid m) \<in> set (acked n)))"
proof -
  obtain n n' m where n: "reaches net_ok (net_step (\<lambda>_. [])) (start_net demo_store) n" "m \<in> set (pending (disk (proc n)) demo_qid)"
    "reaches quiet (net_step (\<lambda>_. [])) n n'" "said n' = [(0, demo_qid, hex_encode demo_bytes, ''hi'')]"
    "m \<notin> set (pending (disk (proc n')) demo_qid)"
    using demo_story by blast
  have "reaches (\<lambda>n ev. net_ok n ev \<and> \<not> expires m n ev) (net_step (\<lambda>_. [])) n n'"
    by (rule reaches_mono [OF n(3)]) (auto simp: quiet_def expires_def split: net_event.split event.split)
  moreover have "messages_tab demo_store = []" by (simp add: demo_store_def)
  moreover have "sole_id (Mid m) n'" by (simp add: sole_id_def n(4))
  ultimately have "(\<exists>c t. (c, demo_qid, Mid m, t) \<in> set (shown n') \<and> text_in m t) \<or> (\<exists>c. (c, Mid m) \<in> set (acked n'))"
    using no_message_is_lost_unread [OF demo_db_inv _ n(1,2), of n'] n(5) by blast
  moreover have "reaches net_ok (net_step (\<lambda>_. [])) n n'" by (rule reaches_mono [OF n(3)]) (simp add: quiet_def)
  ultimately show ?thesis using reaches_trans [OF _ n(1)] n(5) by blast
qed

end
