(* ===== verification/Waiting_Lines.thy ===== *)
theory Waiting_Lines
  imports Meeting
begin

text \<open>
  Store and forward: the lines somebody types while nobody is subscribed to the queue wait in the relay, and whoever
  subscribes gets them, in the order in which they were typed.
\<close>

subsection \<open>A line that waits\<close>

lemma send_offline:
  assumes "good C h" "io_ok io" "c \<in> C" "length b = 16" "map_of (queues h) q = Some qs" "sub qs = None"
    and "send_stores io (typed_envelope now b q t) h" "\<forall>m \<in> set (pending (db h) q). StoredAt m \<le> clock io 0"
  obtains h' where "handle io c (typed_envelope now b q t) h = Ret h'" "good C h'" "queues h' = queues h" "qids (db h') = qids (db h)"
    "pending (db h') q = pending (db h) q @ [sent_message io (typed_envelope now b q t)]" "\<And>d. d \<noteq> c \<Longrightarrow> conns h' d = conns h d"
    "messages_tab (db h') = messages_tab (db h) @ [new_row (db h) (sent_message io (typed_envelope now b q t))]"
proof -
  let ?e = "typed_envelope now b q t"
  have e: "QueueID ?e = q" "MsgID ?e = hex_encode b" "Typ ?e = TypeSend" by (simp_all add: typed_envelope_def)
  have v: "ValidQueueID q" using map_of_valid [OF _ assms(5)] assms(1) by (simp add: good_def hub_inv_def)
  then have fq: "find_queue io (QueueID ?e) h = Inr (qs, h)" using assms(5) by (simp add: find_queue_def e)
  obtain s where sv: "SaveMessage (f_save io) (fk_on io) (sent_message io ?e) (db h) = Some s"
    using assms(7) fq by (auto simp: send_stores_def)
  have m: "send_mid io ?e = hex_encode b" using hex_not_Nil [OF assms(4)] by (simp add: send_mid_def e)
  have l: "8 \<le> length (send_mid io ?e)" using assms(4) m by simp
  let ?h2 = "touch io (clock io 1) q (h\<lparr>db := s\<rparr>)"
  have h: "handle io c ?e h = Ret (post c (ack_frame io ?e) ?h2)"
    using handle_send_ok [OF assms(1,2) typed_envelope_ok assms(3) fq sv l] assms(6) e by (simp add: handle_def proto_simps)
  have "courteous io c ?e h" using l by (simp add: courteous_def e proto_simps)
  then have "calm C (handle io c ?e h)" by (intro calm_handle [OF assms(1,2) typed_envelope_ok assms(3)])
  then have "good C (post c (ack_frame io ?e) ?h2)" using h by (simp add: calm_def)
  moreover have "pending s q = pending (db h) q @ [sent_message io ?e]"
    using pending_save_order [OF sv] assms(8) by (simp add: sent_message_def e)
  moreover have "qids s = qids (db h)" "messages_tab s = messages_tab (db h) @ [new_row (db h) (sent_message io ?e)]"
    using SaveMessage_frame [OF sv] by (simp_all add: qids_def)
  ultimately show thesis by (intro that [OF h]) simp_all
qed

text \<open>What is typed: the random bytes of the identifier, the line, and what the hub meets in its turn.\<close>

type_synonym typed_item = "bytes \<times> string \<times> io"

definition typable :: "typed_item \<Rightarrow> bool" where
  "typable x \<longleftrightarrow> (case x of (b, line, io) \<Rightarrow>
     length b = 16 \<and> TrimSpace line \<noteq> [] \<and> TrimSpace line \<noteq> ''/quit'' \<and> length line \<le> 10000 \<and> io_ok io \<and> \<not> f_save io)"

definition kept :: "int \<Rightarrow> string \<Rightarrow> typed_item \<Rightarrow> stored_message" where
  "kept now q x = (case x of (b, line, io) \<Rightarrow> sent_message io (typed_envelope now b q (TrimSpace line)))"

definition mid_of :: "typed_item \<Rightarrow> string" where
  "mid_of x = hex_encode (fst x)"

definition text_of_item :: "typed_item \<Rightarrow> string" where
  "text_of_item x = to_valid_utf8 (TrimSpace (fst (snd x)))"

definition time_of :: "typed_item \<Rightarrow> int" where
  "time_of x = clock (snd (snd x)) 0"

lemma kept_simps [simp]:
  "typable x \<Longrightarrow> Mid (kept now q x) = mid_of x" "QID (kept now q x) = q" "StoredAt (kept now q x) = time_of x"
  using hex_not_Nil [of "fst x"]
  by (auto simp: kept_def typable_def sent_message_def send_mid_def typed_envelope_def mid_of_def time_of_def split: prod.splits)

lemma line_waits:
  assumes "proc n = Up r" "good C (core r)" "c \<in> C" "ready n r c a" "my_queue (sess a) = q" "map_of (queues (core r)) q = Some qs" "sub qs = None"
    and "q \<in> qids (db (core r))" "typable x" "mid_of x \<notin> row_mid ` set (messages_tab (db (core r)))"
    and "\<forall>m \<in> set (pending (db (core r)) q). StoredAt m \<le> time_of x" "int64_range now"
  obtains n' r' a' where "reaches quiet (net_step jerr) n n'" "proc n' = Up r'" "good C (core r')" "ready n' r' c a'" "my_queue (sess a') = q"
    "queues (core r') = queues (core r)" "qids (db (core r')) = qids (db (core r))"
    "pending (db (core r')) q = pending (db (core r)) q @ [kept now q x]"
    "row_mid ` set (messages_tab (db (core r'))) = insert (mid_of x) (row_mid ` set (messages_tab (db (core r))))"
    "said n' = said n @ [(c, q, mid_of x, text_of_item x)]" "shown n' = shown n" "wrote n' = wrote n" "got n' = got n"
    "\<And>d. d \<noteq> c \<Longrightarrow> idle n r d \<Longrightarrow> idle n' r' d"
proof -
  obtain b line io where x: "x = (b, line, io)" by (cases x)
  let ?t = "TrimSpace line" and ?e = "typed_envelope now b q (TrimSpace line)"
  have l: "length b = 16" "?t \<noteq> []" "?t \<noteq> ''/quit''" "length line \<le> 10000" "io_ok io" "\<not> f_save io"
    using assms(9) by (simp_all add: x typable_def)
  have v: "ValidQueueID q" using map_of_valid [OF _ assms(6)] assms(2) by (simp add: good_def hub_inv_def)
  have k: "kept now q x = sent_message io ?e" by (simp add: kept_def x)
  have fq: "find_queue io q (core r) = Inr (qs, core r)" using v assms(6) by (simp add: find_queue_def)
  have m: "Mid (sent_message io ?e) = mid_of x" using kept_simps(1) [OF assms(9), of now q] by (simp add: k)
  have "SaveMessage (f_save io) (fk_on io) (sent_message io ?e) (db (core r)) \<noteq> None"
    using assms(8,10) l(6) m kept_simps(2) [of now q x] k by (simp add: SaveMessage_def)
  moreover have "QueueID ?e = q" by (simp add: typed_envelope_def)
  ultimately have st: "send_stores io ?e (core r)" using fq by (simp add: send_stores_def)
  have old: "\<forall>m \<in> set (pending (db (core r)) q). StoredAt m \<le> clock io 0" using assms(11) by (simp add: x time_of_def)
  obtain h where h: "handle io c ?e (core r) = Ret h" "good C h" "queues h = queues (core r)" "qids (db h) = qids (db (core r))"
    "pending (db h) q = pending (db (core r)) q @ [sent_message io ?e]" "\<And>d. d \<noteq> c \<Longrightarrow> conns h d = conns (core r) d"
    "messages_tab (db h) = messages_tab (db (core r)) @ [new_row (db (core r)) (sent_message io ?e)]"
    using send_offline [OF assms(2) l(5) assms(3) l(1) assms(6,7) st old] by blast
  obtain f where f: "reaches quiet (net_step jerr) n
      (n\<lparr>said := said n @ [(c, q, hex_encode b, to_valid_utf8 ?t)], chats := (chats n)(c \<mapsto> sent_line f a), proc := Up (r\<lparr>core := h\<rparr>)\<rparr>)"
    using line_up [OF assms(4,5) v assms(1) l(5) h(1) refl l(2-4,1) assms(12,12), of jerr] by blast
  show thesis
    by (rule that [OF f, of "r\<lparr>core := h\<rparr>" "sent_line f a"])
      (use assms(4,5) h k m in \<open>simp_all add: ready_def idle_def x mid_of_def text_of_item_def row_mid_def new_row_def\<close>)
qed

lemma lines_wait:
  assumes "proc n = Up r" "good C (core r)" "c \<in> C" "ready n r c a" "my_queue (sess a) = q" "map_of (queues (core r)) q = Some qs" "sub qs = None"
    and "q \<in> qids (db (core r))" "list_all typable xs" "distinct (map mid_of xs)"
    and "mid_of ` set xs \<inter> row_mid ` set (messages_tab (db (core r))) = {}"
    and "\<forall>m \<in> set (pending (db (core r)) q). \<forall>x \<in> set xs. StoredAt m \<le> time_of x" "sorted (map time_of xs)" "int64_range now"
  shows "\<exists>n' r' a'. reaches quiet (net_step jerr) n n' \<and> proc n' = Up r' \<and> good C (core r') \<and> ready n' r' c a' \<and>
    queues (core r') = queues (core r) \<and> qids (db (core r')) = qids (db (core r)) \<and>
    pending (db (core r')) q = pending (db (core r)) q @ map (kept now q) xs \<and>
    said n' = said n @ map (\<lambda>x. (c, q, mid_of x, text_of_item x)) xs \<and> shown n' = shown n \<and> wrote n' = wrote n \<and> got n' = got n \<and>
    (\<forall>d. d \<noteq> c \<longrightarrow> idle n r d \<longrightarrow> idle n' r' d)"
  using assms
proof (induction xs arbitrary: n r a)
  case Nil
  then show ?case using here [of quiet "net_step jerr" n] by auto
next
  case (Cons x xs)
  have p: "typable x" "mid_of x \<notin> row_mid ` set (messages_tab (db (core r)))" "\<forall>m \<in> set (pending (db (core r)) q). StoredAt m \<le> time_of x"
    using Cons.prems(9,11,12) by auto
  obtain n1 r1 a1 where n1: "reaches quiet (net_step jerr) n n1" "proc n1 = Up r1" "good C (core r1)" "ready n1 r1 c a1" "my_queue (sess a1) = q"
    "queues (core r1) = queues (core r)" "qids (db (core r1)) = qids (db (core r))"
    "pending (db (core r1)) q = pending (db (core r)) q @ [kept now q x]"
    "row_mid ` set (messages_tab (db (core r1))) = insert (mid_of x) (row_mid ` set (messages_tab (db (core r))))"
    "said n1 = said n @ [(c, q, mid_of x, text_of_item x)]" "shown n1 = shown n" "wrote n1 = wrote n" "got n1 = got n"
    "\<And>d. d \<noteq> c \<Longrightarrow> idle n r d \<Longrightarrow> idle n1 r1 d"
    using line_waits [OF Cons.prems(1-8) p Cons.prems(14), of jerr] by blast
  have "map_of (queues (core r1)) q = Some qs" "q \<in> qids (db (core r1))" "list_all typable xs" "distinct (map mid_of xs)"
    "mid_of ` set xs \<inter> row_mid ` set (messages_tab (db (core r1))) = {}"
    "\<forall>m \<in> set (pending (db (core r1)) q). \<forall>x \<in> set xs. StoredAt m \<le> time_of x" "sorted (map time_of xs)"
    using n1(6-9) Cons.prems(6,8-13) by auto
  from Cons.IH [OF n1(2,3) Cons.prems(3) n1(4,5) this(1) Cons.prems(7) this(2-7) Cons.prems(14)]
  obtain n2 r2 a2 where n2: "reaches quiet (net_step jerr) n1 n2" "proc n2 = Up r2" "good C (core r2)" "ready n2 r2 c a2"
    "queues (core r2) = queues (core r1)" "qids (db (core r2)) = qids (db (core r1))"
    "pending (db (core r2)) q = pending (db (core r1)) q @ map (kept now q) xs"
    "said n2 = said n1 @ map (\<lambda>x. (c, q, mid_of x, text_of_item x)) xs" "shown n2 = shown n1" "wrote n2 = wrote n1" "got n2 = got n1"
    "\<forall>d. d \<noteq> c \<longrightarrow> idle n1 r1 d \<longrightarrow> idle n2 r2 d" by blast
  have "reaches quiet (net_step jerr) n n2" by (rule reaches_trans [OF n2(1) n1(1)])
  then show ?case using n1 n2 by (intro exI [of _ n2] exI [of _ r2] exI [of _ a2]) simp
qed

subsection \<open>The replay\<close>

text \<open>The frame \<open>g\<close> delivers the message \<open>m\<close> with the text \<open>t\<close> of the queue \<open>q\<close>, and fits.\<close>

definition carries :: "string \<Rightarrow> string \<Rightarrow> typed_item \<Rightarrow> bool" where
  "carries q g x \<longleftrightarrow> length g \<le> maxMsgSize \<and>
     (\<exists>ts. Parse g = Inr \<lparr>Version = 1, Typ = TypeDeliver, QueueID = q, MsgID = mid_of x, TS = ts,
       Payload = Some (payload_text (ChatMessage (TrimSpace (fst (snd x)))))\<rparr>)"

lemma replay_of_kept:
  assumes "typable x" "ValidQueueID q" "io_ok io0"
  obtains g where "replay_frame io0 q (i, kept now q x) = Some g" "carries q g x"
proof -
  obtain b line io where x: "x = (b, line, io)" by (cases x)
  let ?e = "typed_envelope now b q (TrimSpace line)"
  define io' where "io' = io0\<lparr>clock := (\<lambda>_. clock io0 (2 + i))\<rparr>"
  have l: "length b = 16" "length line \<le> 10000" using assms(1) by (simp_all add: x typable_def)
  have ok: "io_ok io'" and c: "clock io' 2 = clock io0 (2 + i)" using assms(3) by (simp_all add: io_ok_def io'_def)
  have e: "QueueID ?e = q" "Payload ?e = Some (payload_text (ChatMessage (TrimSpace line)))" by (simp_all add: typed_envelope_def)
  have m: "send_mid io' ?e = hex_encode b" "send_mid io ?e = hex_encode b"
    using hex_not_Nil [OF l(1)] by (simp_all add: send_mid_def typed_envelope_def)
  have "json_text (max_nesting - 1) (payload_text (ChatMessage (TrimSpace line)))" by (rule payload_text_ok) simp
  from deliver_frame_parses [OF ok e(2) this] assms(2) obtain g where
    g: "deliver_frame io' ?e = Some g" "Parse g = Inr \<lparr>Version = 1, Typ = TypeDeliver, QueueID = q, MsgID = hex_encode b,
       TS = clock io' 2, Payload = Some (payload_text (ChatMessage (TrimSpace line)))\<rparr>"
    by (auto simp: e m)
  have "replay_frame io0 q (i, kept now q x) = deliver_frame io' ?e"
    by (simp add: replay_frame_def deliver_frame_def kept_def x sent_message_def m e c payload_bytes_def)
  moreover have "length g \<le> maxMsgSize"
    using length_delivered_frame [OF assms(2) l(1) g(1)] length_esc_line [OF refl l(2)] length_show_int [OF io_ok_clock [OF ok], of 2]
    by (simp add: maxMsgSize_def)
  ultimately show thesis using that g by (simp add: carries_def x mid_of_def)
qed

lemma replay_frames_kept:
  assumes "list_all typable xs" "ValidQueueID q" "io_ok io0"
  shows "list_all2 (carries q) (replay_frames io0 q (map (kept now q) xs)) xs"
proof -
  have "list_all2 (carries q) (concat (map (\<lambda>im. opt_list (replay_frame io0 q im)) (List.enumerate k (map (kept now q) xs)))) xs" for k
    using assms(1)
  proof (induction xs arbitrary: k)
    case (Cons x xs)
    from Cons.prems have "typable x" by simp
    from replay_of_kept [OF this assms(2,3)] obtain g where "replay_frame io0 q (k, kept now q x) = Some g" "carries q g x" by blast
    then show ?case using Cons by (simp add: opt_list_def)
  qed simp
  then show ?thesis by (simp add: replay_frames_def)
qed

subsection \<open>The reader takes them one by one\<close>

definition shown_line :: "string \<Rightarrow> typed_item \<Rightarrow> string" where
  "shown_line name x = clearLine @ ''['' @ name @ ''] '' @ text_of_item x @ newline @ prompt"

lemma enqueue_simps [simp]:
  "typing (enqueue k s) = typing s" "wp_on (enqueue k s) = wp_on s" "conn_open (enqueue k s) = conn_open s" "rp (enqueue k s) = rp s"
  "screen (enqueue k s) = screen s" "seen (sess (enqueue k s)) = seen (sess s)" "nick (sess (enqueue k s)) = nick (sess s)"
  by (simp_all add: enqueue_def)

lemma take_one:
  assumes "proc n = Up r" "ready n r d s" "buf (conns (core r) d) = g # gs" "carries q g x" "ValidQueueID q" "length (fst x) = 16"
    and "mid_of x \<notin> set (seen (sess s))" "int64_range now" "io_ok io" "\<not> f_delete io"
  obtains n' r' s' where "reaches quiet (net_step jerr) n n'" "proc n' = Up r'" "ready n' r' d s'" "buf (conns (core r') d) = gs"
    "shown n' = shown n @ [(d, q, mid_of x, text_of_item x)]" "screen s' = screen s @ [shown_line (nick (sess s)) x]"
    "nick (sess s') = nick (sess s)" "seen (sess s') = mid_of x # seen (sess s)"
    "messages_tab (db (core r')) = filter (\<lambda>w. row_mid w \<noteq> mid_of x) (messages_tab (db (core r)))" "said n' = said n"
    "wrote n' = wrote n" "got n' = got n"
proof -
  note ready = assms(2) [unfolded ready_def]
  obtain ts where g: "length g \<le> maxMsgSize" "Parse g = Inr \<lparr>Version = 1, Typ = TypeDeliver, QueueID = q, MsgID = mid_of x, TS = ts,
       Payload = Some (payload_text (ChatMessage (TrimSpace (fst (snd x)))))\<rparr>" using assms(4) by (auto simp: carries_def)
  let ?s1 = "receive_turn now g s"
  let ?r1 = "put_wire d ((conns (core r) d)\<lparr>buf := gs\<rparr>, [TextMsg g], True) r"
  let ?n1 = "n\<lparr>proc := Up ?r1, chats := (chats n)(d \<mapsto> ?s1), shown := shown n @ showing d g s\<rparr>"
  have r1: "reaches quiet (net_step jerr) n ?n1"
    using ready by (intro hop_down [OF assms(1) _ assms(3) _ _ _ _ _ g(1) assms(8)]) simp_all
  note sh = client_shows [OF g(2) assms(7,8)]
  have rv: "receive (seen (sess s)) g = (ShowChat q (mid_of x) (text_of_item x), mid_of x # seen (sess s))"
    using g(2) assms(7) by (simp add: receive_def decode_chat_of text_of_item_def)
  obtain k where k: "rp ?s1 = Acking k" "Parse k = Inr \<lparr>Version = 1, Typ = TypeAck, QueueID = q, MsgID = mid_of x, TS = now,
      Payload = Some (payload_text (AckMessage (mid_of x)))\<rparr>" (is "_ = Inr ?y") using sh(3) by blast
  have "valid_utf8 (mid_of x)" by (simp add: valid_utf8_def mid_of_def)
  then have "ack_for now q (mid_of x) = Some k"
    using k(1) ack_for_parses [OF assms(8), of q "mid_of x"] ValidQueueID_utf8 [OF assms(5)] rv
    by (auto simp: receive_turn_def valid_utf8_def)
  then have lk: "length k \<le> maxMsgSize" unfolding mid_of_def by (rule length_ack_frame [OF assms(5,6,8)])
  let ?s2 = "(enqueue k ?s1)\<lparr>rp := Receiving\<rparr>" and ?n2 = "?n1\<lparr>chats := (chats ?n1)(d \<mapsto> (enqueue k (receive_turn now g s))\<lparr>rp := Receiving\<rparr>)\<rparr>"
  have "client_step ?s1 AckQueued ?s2" using ready k(1) by (intro ack_queued) (simp_all add: has_room_def)
  then have r2: "reaches quiet (net_step jerr) ?n1 ?n2"
    using hop_chat [of ?n1 d ?s1 AckQueued ?s2 jerr] by (simp add: reading_def client_event_ok_def enqueue_def saying_def)
  have t: "Typ ?y = TypeAck" "8 \<le> length (QueueID ?y)" "8 \<le> length (MsgID ?y)" "Typ ?y \<noteq> TypePing"
    using ValidQueueID_length [OF assms(5)] assms(6) by (simp_all add: mid_of_def) (simp add: proto_simps)
  obtain h where h: "handle io d ?y (core ?r1) = Ret h"
    "messages_tab (db h) = filter (\<lambda>w. row_mid w \<noteq> mid_of x) (messages_tab (db (core ?r1)))"
    using ack_removes [OF t(1-3) assms(10), of d "core ?r1"] by auto
  have hc: "conns h = conns (core ?r1)"
    using h(1) assms(10) t(1-3) by (auto simp: handle_def handle_ack_def DeleteMessage_def slice8_def proto_simps)
  let ?n3 = "?n2\<lparr>chats := (chats ?n2)(d \<mapsto> written k ?s2), proc := Up (?r1\<lparr>core := h\<rparr>)\<rparr>"
  have r3: "reaches quiet (net_step jerr) ?n2 ?n3"
    using ready lk k(2) h(1) t(4) assms(8,9)
    by (intro hop_up [where e = ?y and now = now and io = io]) (simp_all add: enqueue_def put_wire_def)
  have "reaches quiet (net_step jerr) n ?n3" by (rule reaches_trans [OF r3 reaches_trans [OF r2 r1]])
  moreover have "ready ?n3 (?r1\<lparr>core := h\<rparr>) d (written k ?s2)" using ready by (simp add: ready_def put_wire_def)
  moreover have "showing d g s = [(d, q, mid_of x, text_of_item x)]" by (simp add: showing_def rv)
  moreover have "nick (sess (written k ?s2)) = nick (sess s)"
    by (simp add: written_def enqueue_def receive_turn_def rv)
  ultimately show thesis
    using sh(1,2) h(2) hc
    by (intro that [of ?n3 "?r1\<lparr>core := h\<rparr>" "written k ?s2"]) (simp_all add: put_wire_def shown_line_def text_of_item_def)
qed

lemma take_all:
  assumes "list_all2 (carries q) gs xs" "proc n = Up r" "ready n r d s" "buf (conns (core r) d) = gs" "ValidQueueID q"
    and "\<forall>x \<in> set xs. length (fst x) = 16" "distinct (map mid_of xs)" "mid_of ` set xs \<inter> set (seen (sess s)) = {}"
    and "int64_range now" "io_ok io" "\<not> f_delete io"
  shows "\<exists>n' r' s'. reaches quiet (net_step jerr) n n' \<and> proc n' = Up r' \<and> ready n' r' d s' \<and>
    shown n' = shown n @ map (\<lambda>x. (d, q, mid_of x, text_of_item x)) xs \<and> screen s' = screen s @ map (shown_line (nick (sess s))) xs \<and>
    messages_tab (db (core r')) = filter (\<lambda>w. row_mid w \<notin> mid_of ` set xs) (messages_tab (db (core r))) \<and>
    said n' = said n \<and> wrote n' = wrote n \<and> got n' = got n"
  using assms
proof (induction gs xs arbitrary: n r s rule: list_all2_induct)
  case Nil
  then show ?case using here [of quiet "net_step jerr" n] by auto
next
  case (Cons g gs x xs)
  have "length (fst x) = 16" "mid_of x \<notin> set (seen (sess s))" using Cons.prems(5,7) by auto
  from take_one [OF Cons.prems(1-3) Cons.hyps(1) Cons.prems(4) this Cons.prems(8-10), of jerr]
  obtain n1 r1 s1 where n1: "reaches quiet (net_step jerr) n n1" "proc n1 = Up r1" "ready n1 r1 d s1" "buf (conns (core r1) d) = gs"
    "shown n1 = shown n @ [(d, q, mid_of x, text_of_item x)]" "screen s1 = screen s @ [shown_line (nick (sess s)) x]"
    "nick (sess s1) = nick (sess s)" "seen (sess s1) = mid_of x # seen (sess s)"
    "messages_tab (db (core r1)) = filter (\<lambda>w. row_mid w \<noteq> mid_of x) (messages_tab (db (core r)))" "said n1 = said n"
    "wrote n1 = wrote n" "got n1 = got n" by blast
  have "\<forall>x \<in> set xs. length (fst x) = 16" "distinct (map mid_of xs)" "mid_of ` set xs \<inter> set (seen (sess s1)) = {}"
    using Cons.prems(5-7) n1(8) by auto
  from Cons.IH [OF n1(2-4) Cons.prems(4) this Cons.prems(8-10)]
  obtain n2 r2 s2 where n2: "reaches quiet (net_step jerr) n1 n2" "proc n2 = Up r2" "ready n2 r2 d s2"
    "shown n2 = shown n1 @ map (\<lambda>x. (d, q, mid_of x, text_of_item x)) xs" "screen s2 = screen s1 @ map (shown_line (nick (sess s1))) xs"
    "messages_tab (db (core r2)) = filter (\<lambda>w. row_mid w \<notin> mid_of ` set xs) (messages_tab (db (core r1)))"
    "said n2 = said n1" "wrote n2 = wrote n1" "got n2 = got n1" by blast
  have "filter (\<lambda>w. row_mid w \<notin> mid_of ` set xs) (filter (\<lambda>w. row_mid w \<noteq> mid_of x) ws) = filter (\<lambda>w. row_mid w \<notin> mid_of ` set (x # xs)) ws" for ws
    by (simp add: conj_commute)
  with n1 n2 have "messages_tab (db (core r2)) = filter (\<lambda>w. row_mid w \<notin> mid_of ` set (x # xs)) (messages_tab (db (core r)))" by simp
  moreover have "reaches quiet (net_step jerr) n n2" by (rule reaches_trans [OF n2(1) n1(1)])
  ultimately show ?case using n1 n2 by (intro exI [of _ n2] exI [of _ r2] exI [of _ s2]) simp
qed

subsection \<open>A subscription to a queue in which messages wait\<close>

lemma sub_replayed:
  assumes "proc n = Up r" "good C (core r)" "d \<in> C" "idle n r d" "io_ok io" "\<not> f_undelivered io" "int64_range now"
    and "map_of (queues (core r)) q = Some qs" "owner qs \<noteq> Some d" "sub qs = None"
    and "length (replay_frames io q (pending (db (core r)) q)) \<le> 15" "sendq se = new_client" "seen se = []"
  obtains n' r' f g e where "reaches net_ok (net_step jerr) n n'" "proc n' = Up r'" "ready n' r' d (start_chat se)"
    "marshal_envelope (bare_envelope now TypeSub q) = Some f" "Parse g = Inr e" "Typ e = TypeSubOk"
    "wrote n' = wrote n @ [(d, f)]" "got n' = got n @ [(d, g)]" "said n' = said n" "shown n' = shown n"
    "buf (conns (core r') d) = replay_frames io q (pending (db (core r)) q)" "messages_tab (db (core r')) = messages_tab (db (core r))"
proof -
  let ?e = "\<lparr>Version = 1, Typ = TypeSub, QueueID = q, MsgID = [], TS = now, Payload = Some (payload_text NoPayload)\<rparr>"
  let ?gs = "replay_frames io q (pending (db (core r)) q)"
  have v: "ValidQueueID q" using map_of_valid [OF _ assms(8)] assms(2) by (simp add: good_def hub_inv_def)
  obtain f where f: "marshal_envelope (bare_envelope now TypeSub q) = Some f" "length f \<le> maxMsgSize" "Parse f = Inr ?e"
    using bare_frame [OF assms(7), of TypeSub q] v by auto
  have fq: "find_queue io (QueueID ?e) (core r) = Inr (qs, core r)" using v assms(8) by (simp add: find_queue_def)
  obtain g where g: "sub_ok_frame io q = Some g" using frame_of_sendable [of NoPayload] by (simp add: sub_ok_frame_def)
  then have pg: "Parse g = Inr \<lparr>Version = 1, Typ = TypeSubOk, QueueID = q, MsgID = [], TS = clock io 0, Payload = Some (payload_text NoPayload)\<rparr>"
    using frame_of_Parse [OF _ io_ok_clock [OF assms(5), of 0] _ g [unfolded sub_ok_frame_def]] ValidQueueID_utf8 [OF v]
    by (simp add: proto_simps ascii_valid_utf8 is_ascii_def)
  obtain h where h: "handle_sub io d ?e (core r) = Ret h"
    "buf (conns h d) = take sendCap (buf (conns (core r) d) @ opt_list (sub_ok_frame io q) @ ?gs)"
    "messages_tab (db h) = messages_tab (db (core r))"
    using handle_sub_ok [OF assms(2,5,3) fq assms(9) _ assms(6)] assms(10) by auto
  have b: "buf (conns h d) = g # ?gs" using h(2) g assms(4,11) by (simp add: idle_def opt_list_def sendCap_def)
  have hd: "handle io d ?e (core r) = Ret h" "Typ ?e \<in> {TypeNew, TypeSub}" using h(1) by (simp_all add: handle_def proto_simps)
  obtain n1 r1 where n1: "reaches net_ok (net_step jerr) n n1" "proc n1 = Up r1"
    "core r1 = h\<lparr>conns := (conns h)(d := (conns h d)\<lparr>buf := ?gs\<rparr>)\<rparr>" "dialled n1 = dialled n" "chats n1 = chats n" "up n1 = up n" "down n1 = down n"
    "readers r1 = readers r" "writing r1 = writing r" "said n1 = said n" "shown n1 = shown n"
    "wrote n1 = wrote n @ [(d, f)]" "got n1 = got n @ [(d, g)]"
    by (rule ask_first [OF assms(1,4) f(2,3) hd(2) assms(7,5) hd(1) b])
  let ?n2 = "n1\<lparr>chats := (chats n1)(d \<mapsto> start_chat se)\<rparr>"
  have "reaches net_ok (net_step jerr) n1 ?n2" using join_in [of d n1 se jerr] assms(4,12,13) n1(4,5) by (simp add: idle_def)
  from reaches_trans [OF this n1(1)] have r: "reaches net_ok (net_step jerr) n ?n2" .
  have "ready ?n2 r1 d (start_chat se)" using assms(4,12) n1 by (simp add: ready_def idle_def new_client_def)
  moreover obtain e where "Parse g = Inr e" "Typ e = TypeSubOk" using pg by simp
  ultimately show thesis using n1 f(1) h(3) by (intro that [OF r, of r1 f g e]) simp_all
qed

end
