(* ===== verification/Meeting_Props.thy ===== *)
theory Meeting_Props
  imports Network_Props Waiting_Lines
begin

text \<open>
  From nothing to the first words: two people who have only exchanged their links, over a relay that knows neither of them.
  And what is said while one of them is away.
\<close>

text \<open>
  C5.  Two people who have never used the program before meet and talk.  The first starts it with the address of the relay, the second
  with the link the first one's program prints, and the first types the link of the second one's when asked.  The four
  requests these two programs make are answered by the relay with frames that make both come through, each subscribed to the other's
  queue; and then the first line one of them types can run its course, to the other's screen and nowhere else.
\<close>

theorem two_clients_meet_and_talk:
  assumes "proc n = Up r" "good C (core r)" "a \<in> C" "b \<in> C" "a \<noteq> b" "idle n r a" "idle n r b" "messages_tab (db (core r)) = []"
    and "easy_io ioA qA" "easy_io ioB qB" "qA \<noteq> qB"
    and "first_start cA wA iA dA" "first_start cB wB iB dB" "parseAddr addr = (host, port)" "addr \<noteq> []"
    and "list_all host_plain host" "1 \<le> port" "port \<le> 65535" "length host \<le> 255"
    and "io_ok io" "\<not> f_save io" "io_ok io2" "\<not> f_delete io2"
    and "TrimSpace line \<noteq> []" "TrimSpace line \<noteq> ''/quit''" "length line \<le> 10000" "length m = 16" "int64_range now"
  shows "\<exists>n1 n2 f1 g1 f2 g2 f3 g3 f4 g4 wA' wB' s. reaches net_ok (net_step jerr) n n1 \<and>
    wrote n1 = wrote n @ [(a, f1), (b, f2), (b, f3), (a, f4)] \<and> got n1 = got n @ [(a, g1), (b, g2), (b, g3), (a, g4)] \<and>
    runChat cA [] addr [] (wA\<lparr>typed := [last (links wB')], arriving := [g1, g4]\<rparr>) = Ret (Inr (met host port qA qB iA), wA') \<and>
    runChat cB (last (links wA')) [] [] (wB\<lparr>typed := [], arriving := [g2, g3]\<rparr>) = Ret (Inr (met host port qB qA iB), wB') \<and>
    sent wA' = sent wA @ [f1, f4] \<and> sent wB' = sent wB @ [f2, f3] \<and>
    chats n1 a = Some (start_chat (met host port qA qB iA)) \<and> chats n1 b = Some (start_chat (met host port qB qA iB)) \<and>
    reaches net_ok (net_step jerr) n1 n2 \<and>
    shown n2 = shown n @ [(b, qA, hex_encode m, to_valid_utf8 (TrimSpace line))] \<and> chats n2 b = Some s \<and>
    screen s = [clearLine @ prompt, clearLine @ ''['' @ host @ ''] '' @ to_valid_utf8 (TrimSpace line) @ newline @ prompt]"
proof -
  let ?sa = "start_chat (met host port qA qB iA)" and ?sb = "start_chat (met host port qB qA iB)"
  obtain n1 r1 f1 g1 f2 g2 f3 g3 f4 g4 wA' wB' where m: "reaches net_ok (net_step jerr) n n1" "proc n1 = Up r1" "good C (core r1)"
    "wrote n1 = wrote n @ [(a, f1), (b, f2), (b, f3), (a, f4)]" "got n1 = got n @ [(a, g1), (b, g2), (b, g3), (a, g4)]"
    "runChat cA [] addr [] (wA\<lparr>typed := [myInvite (met host port qB [] iB)], arriving := [g1, g4]\<rparr>) = Ret (Inr (met host port qA qB iA), wA')"
    "sent wA' = sent wA @ [f1, f4]" "links wA' = links wA @ [myInvite (met host port qA [] iA)]"
    "runChat cB (myInvite (met host port qA [] iA)) [] [] (wB\<lparr>typed := [], arriving := [g2, g3]\<rparr>) = Ret (Inr (met host port qB qA iB), wB')"
    "sent wB' = sent wB @ [f2, f3]" "links wB' = links wB @ [myInvite (met host port qB [] iB)]"
    "ready n1 r1 a ?sa" "ready n1 r1 b ?sb" "map_of (queues (core r1)) qA = Some \<lparr>owner = Some a, sub = Some b\<rparr>"
    "map_of (queues (core r1)) qB = Some \<lparr>owner = Some b, sub = Some a\<rparr>" "{qA, qB} \<subseteq> qids (db (core r1))"
    "messages_tab (db (core r1)) = []" "said n1 = said n" "shown n1 = shown n"
    "buf (conns (core r1) a) = []" "buf (conns (core r1) b) = []"
    by (rule clients_meet [OF assms(1-19)])
  have "send_stores io (typed_envelope now m qA (TrimSpace line)) (core r1)"
    using m(14,16,17) easy_io_valid [OF assms(9)] assms(21)
    by (simp add: send_stores_def typed_envelope_def find_queue_def SaveMessage_def sent_message_def)
  then obtain n2 s where "reaches quiet (net_step jerr) n1 n2" "chats n2 b = Some s"
    "shown n2 = shown n1 @ [(b, qA, hex_encode m, to_valid_utf8 (TrimSpace line))]"
    "screen s = screen ?sb @ [clearLine @ ''['' @ host @ ''] '' @ to_valid_utf8 (TrimSpace line) @ newline @ prompt]"
    using line_crosses [OF m(2,3) assms(20,22,23,3) _ _ _ _ _ m(12,13) _ assms(24-28), of _ jerr] m(14,21) assms(5)
    by (auto simp: ready_def)
  moreover from this(1) have "reaches net_ok (net_step jerr) n1 n2" by (rule reaches_mono) (simp add: quiet_def)
  moreover have "chats n1 a = Some ?sa" "chats n1 b = Some ?sb" using m(12,13) by (simp_all add: ready_def)
  moreover have "screen ?sb = [clearLine @ prompt]" by (simp add: start_chat_def)
  moreover have "last (links wA') = myInvite (met host port qA [] iA)" "last (links wB') = myInvite (met host port qB [] iB)"
    using m(8,11) by simp_all
  ultimately show ?thesis
    using m(1,4-7,9,10,19) by (intro exI [of _ n1] exI [of _ n2] exI [of _ wA'] exI [of _ wB'] exI conjI) simp_all
qed

text \<open>The instance: two first starts over the relay of the earlier examples, one as connection 0 and one as connection 1.\<close>

definition demo_io2 :: io where
  "demo_io2 = demo_io\<lparr>rnd := Some (replicate 16 (CHR ''y''))\<rparr>"

lemma demo_easy:
  "easy_io demo_io (hex_encode (replicate 16 (CHR ''x'')))" "easy_io demo_io2 (hex_encode (replicate 16 (CHR ''y'')))"
  "hex_encode (replicate 16 (CHR ''x'')) \<noteq> hex_encode (replicate 16 (CHR ''y''))" "\<not> f_save demo_io"
proof -
  show "easy_io demo_io (hex_encode (replicate 16 (CHR ''x'')))"
    using demo_io_ok by (simp add: easy_io_def NewID_def) (simp add: demo_io_def)
  show "easy_io demo_io2 (hex_encode (replicate 16 (CHR ''y'')))"
    by (simp add: easy_io_def NewID_def demo_io2_def io_ok_def int64_range_def) (simp add: demo_io_def)
  have "replicate 16 (CHR ''x'') \<noteq> replicate 16 (CHR ''y'')" by (simp add: replicate_eq_replicate)
  then show "hex_encode (replicate 16 (CHR ''x'')) \<noteq> hex_encode (replicate 16 (CHR ''y''))" by (metis hex_decode_encode option.inject)
  show "\<not> f_save demo_io" by (simp add: demo_io_def)
qed

lemma demo_first_start: "\<exists>i d. first_start demo_setting demo_world i d"
proof -
  obtain i d where i: "loadMyIdentity demo_setting demo_world = (Inr i, demo_world\<lparr>files := d\<rparr>)" "\<forall>x. x \<noteq> ''it'' \<and> x \<noteq> ''id'' \<longrightarrow> d x = None"
    "length (BoxPub i) = 32"
    by (rule demo_identity_start)
  obtain path where p: "statePath (Some ''d'') i = Some path" "path \<noteq> ''t''" "path \<noteq> ''it''" "path \<noteq> ''id''" by (rule demo_statePath)
  have "loadState (Some ''d'') False i d = empty_state" using p i(2) by (simp add: loadState_def)
  moreover have "saved_ok AllFine (Some ''d'') i" using p(1) by (simp add: saved_ok_def write_ok_def)
  moreover have "int64_range 100" by (simp add: int64_range_def)
  moreover have "\<forall>u. dials demo_setting u" by simp
  moreover have "\<forall>path n. statePath (config_dir demo_setting) i = Some path \<longrightarrow> state_tmp demo_setting n \<noteq> path" using p by auto
  ultimately have "first_start demo_setting demo_world i d" using i(1,3) by (simp add: first_start_def)
  then show ?thesis by blast
qed

lemma demo_address:
  "parseAddr ''h:8080'' = (''h'', 8080)" "''h:8080'' \<noteq> []" "list_all host_plain ''h''" "(1 :: int) \<le> 8080" "(8080 :: int) \<le> 65535"
  "length ''h'' \<le> 255"
proof -
  have "''h:8080'' = ''h'' @ '':'' @ show_int 8080" by (simp add: show_int_def show_nat.simps, intro conjI; rule char_of_byte_eq [symmetric]; simp)
  then show "parseAddr ''h:8080'' = (''h'', 8080)" using parseAddr_plain [of "''h''" 8080] by simp
qed (simp_all add: host_plain_def is_alnum_def is_letter_def)

theorem two_clients_meet_and_talk_witness:
  "\<exists>n1 n2 qA s. reaches net_ok (net_step (\<lambda>_. [])) (start_net demo_store) n1 \<and> map fst (wrote n1) = [0, 1, 1, 0] \<and>
     reaches net_ok (net_step (\<lambda>_. [])) n1 n2 \<and> shown n2 = [(1, qA, hex_encode demo_bytes, ''hi'')] \<and> chats n2 1 = Some s \<and>
     screen s = [clearLine @ prompt, clearLine @ ''[h] hi'' @ newline @ prompt]"
proof -
  obtain n r where n: "reaches net_ok (net_step (\<lambda>_. [])) (start_net demo_store) n" "proc n = Up r" "good {0, 1} (core r)"
    "db (core r) = demo_store" "idle n r 0" "idle n r 1" "shown n = []" "wrote n = []"
    by (rule demo_dialled)
  obtain i d where f: "first_start demo_setting demo_world i d" using demo_first_start by blast
  have c: "(0 :: nat) \<in> {0, 1}" "(1 :: nat) \<in> {0, 1}" "(0 :: nat) \<noteq> 1" "messages_tab (db (core r)) = []"
    by (simp_all add: n(4) demo_store_def)
  from two_clients_meet_and_talk [OF n(2,3) c(1-3) n(5,6) c(4) demo_easy(1-3) f f demo_address demo_io_ok demo_easy(4) demo_io_ok demo_run(1)
      demo_line(1-5), of "\<lambda>_. []"]
  obtain n1 n2 s where m: "reaches net_ok (net_step (\<lambda>_. [])) n n1" "map fst (wrote n1) = [0, 1, 1, 0]" "reaches net_ok (net_step (\<lambda>_. [])) n1 n2"
    "shown n2 = [(1, hex_encode (replicate 16 (CHR ''x'')), hex_encode demo_bytes, ''hi'')]" "chats n2 1 = Some s"
    "screen s = [clearLine @ prompt, clearLine @ ''[h] hi'' @ newline @ prompt]"
    unfolding n(7,8) trim_hi demo_line(8) by (elim exE conjE) (rule that, auto)
  have "reaches net_ok (net_step (\<lambda>_. [])) (start_net demo_store) n1" by (rule reaches_trans [OF m(1) n(1)])
  then show ?thesis using m(2-6) by (intro exI conjI)
qed

text \<open>
  C6.  Store and forward.  Lines typed in a chat while nobody is subscribed to its queue wait in the relay, in the order in which they
  were typed.  When another connection then asks for the queue with SUB and starts its chat, the network can run until every
  line, up to 15 of them, is on the screen of that chat in the same order, each once and with its own text, and none is left in the relay.
  The relay's clock must not go back while the lines are typed: it decides the order of the replay.
\<close>

theorem waiting_lines_are_shown_in_order:
  assumes "proc n = Up r" "good C (core r)" "c \<in> C" "d \<in> C" "d \<noteq> c" "ready n r c a" "idle n r d"
    and "my_queue (sess a) = q" "map_of (queues (core r)) q = Some qs" "sub qs = None" "owner qs \<noteq> Some d" "q \<in> qids (db (core r))"
    and "messages_tab (db (core r)) = []" "list_all typable xs" "distinct (map mid_of xs)" "length xs \<le> 15" "sorted (map time_of xs)"
    and "io_ok io" "\<not> f_undelivered io" "\<not> f_delete io" "int64_range now" "sendq se = new_client" "seen se = []"
  shows "\<exists>n1 n2 n3 f g e s. reaches net_ok (net_step jerr) n n1 \<and>
    said n1 = said n @ map (\<lambda>x. (c, q, mid_of x, text_of_item x)) xs \<and> shown n1 = shown n \<and>
    pending (disk (proc n1)) q = map (kept now q) xs \<and>
    reaches net_ok (net_step jerr) n1 n2 \<and> marshal_envelope (bare_envelope now TypeSub q) = Some f \<and> wrote n2 = wrote n @ [(d, f)] \<and>
    got n2 = got n @ [(d, g)] \<and> Parse g = Inr e \<and> Typ e = TypeSubOk \<and> chats n2 d = Some (start_chat se) \<and>
    reaches net_ok (net_step jerr) n2 n3 \<and> chats n3 d = Some s \<and>
    shown n3 = shown n @ map (\<lambda>x. (d, q, mid_of x, text_of_item x)) xs \<and>
    screen s = screen (start_chat se) @ map (shown_line (nick se)) xs \<and> pending (disk (proc n3)) q = []"
proof -
  have quiet: "reaches quiet (net_step jerr) m m' \<Longrightarrow> reaches net_ok (net_step jerr) m m'" for m m'
    by (erule reaches_mono) (simp add: quiet_def)
  have v: "ValidQueueID q" using map_of_valid [OF _ assms(9)] assms(2) by (simp add: good_def hub_inv_def)
  have p: "pending (db (core r)) q = []" using assms(13) by (simp add: pending_eq)
  obtain n1 r1 a1 where n1: "reaches quiet (net_step jerr) n n1" "proc n1 = Up r1" "good C (core r1)"
    "queues (core r1) = queues (core r)" "pending (db (core r1)) q = map (kept now q) xs"
    "said n1 = said n @ map (\<lambda>x. (c, q, mid_of x, text_of_item x)) xs" "shown n1 = shown n" "wrote n1 = wrote n" "got n1 = got n"
    "idle n1 r1 d"
    using lines_wait [OF assms(1-3,6,8-10,12,14,15) _ _ assms(17,21), of jerr] assms(5,7,13) p by auto
  let ?gs = "replay_frames io q (pending (db (core r1)) q)"
  have gs: "list_all2 (carries q) ?gs xs" unfolding n1(5) by (rule replay_frames_kept [OF assms(14) v assms(18)])
  have l: "length ?gs \<le> 15" using list_all2_lengthD [OF gs] assms(16) by simp
  have m1: "map_of (queues (core r1)) q = Some qs" using assms(9) n1(4) by simp
  obtain n2 r2 f g e where n2: "reaches net_ok (net_step jerr) n1 n2" "proc n2 = Up r2" "ready n2 r2 d (start_chat se)"
    "marshal_envelope (bare_envelope now TypeSub q) = Some f" "Parse g = Inr e" "Typ e = TypeSubOk"
    "wrote n2 = wrote n1 @ [(d, f)]" "got n2 = got n1 @ [(d, g)]" "said n2 = said n1" "shown n2 = shown n1"
    "buf (conns (core r2) d) = ?gs" "messages_tab (db (core r2)) = messages_tab (db (core r1))"
    by (rule sub_replayed [OF n1(2,3) assms(4) n1(10) assms(18,19,21) m1 assms(11,10) l assms(22,23)])
  have x: "\<forall>x \<in> set xs. length (fst x) = 16" using assms(14) by (auto simp: list_all_iff typable_def)
  have "mid_of ` set xs \<inter> set (seen (sess (start_chat se))) = {}" using assms(23) by (simp add: start_chat_def)
  from take_all [OF gs n2(2,3,11) v x assms(15) this assms(21,18,20), of jerr]
  obtain n3 r3 s where n3: "reaches quiet (net_step jerr) n2 n3" "proc n3 = Up r3" "ready n3 r3 d s"
    "shown n3 = shown n2 @ map (\<lambda>x. (d, q, mid_of x, text_of_item x)) xs"
    "screen s = screen (start_chat se) @ map (shown_line (nick (sess (start_chat se)))) xs"
    "messages_tab (db (core r3)) = filter (\<lambda>w. row_mid w \<notin> mid_of ` set xs) (messages_tab (db (core r2)))" by blast
  have "m \<notin> set (pending (db (core r3)) q)" for m
  proof
    assume "m \<in> set (pending (db (core r3)) q)"
    then have m: "m \<in> set (pending (db (core r1)) q)" "Mid m \<notin> mid_of ` set xs"
      using n3(6) n2(12) by (auto simp: set_pending row_mid_def)
    from m(1) obtain x where "x \<in> set xs" "m = kept now q x" by (auto simp: n1(5))
    with m(2) assms(14) show False by (simp add: list_all_iff)
  qed
  then have "pending (db (core r3)) q = []" by (metis last_in_set)
  moreover have "nick (sess (start_chat se)) = nick se" by (simp add: start_chat_def)
  moreover have "chats n2 d = Some (start_chat se)" "chats n3 d = Some s" using n2(3) n3(3) by (simp_all add: ready_def)
  ultimately show ?thesis
    using quiet [OF n1(1)] quiet [OF n3(1)] n1 n2 n3
    by (intro exI [of _ n1] exI [of _ n2] exI [of _ n3] exI [of _ f] exI [of _ g] exI [of _ e] exI [of _ s]) simp
qed

text \<open>The instance: connection 0 makes its queue and types two lines, connection 1 comes later.\<close>

definition demo_lines :: "typed_item list" where
  "demo_lines = [(replicate 16 (CHR ''x''), ''hi'', demo_io), (replicate 16 (CHR ''y''), ''hi'', demo_io)]"

lemma demo_lines_typable: "list_all typable demo_lines" "distinct (map mid_of demo_lines)" "sorted (map time_of demo_lines)"
  "length demo_lines \<le> 15"
proof -
  show "list_all typable demo_lines"
    using demo_line(1,2) demo_io_ok demo_easy(4) by (simp add: demo_lines_def typable_def)
  show "distinct (map mid_of demo_lines)" using demo_easy(3) by (simp add: demo_lines_def mid_of_def)
qed (simp_all add: demo_lines_def time_of_def)

theorem waiting_lines_are_shown_in_order_witness:
  "\<exists>n q. reaches net_ok (net_step (\<lambda>_. [])) (start_net demo_store) n \<and> pending (disk (proc n)) q = [] \<and>
     shown n = [(1, q, hex_encode (replicate 16 (CHR ''x'')), ''hi''), (1, q, hex_encode (replicate 16 (CHR ''y'')), ''hi'')]"
proof -
  obtain n r where n: "reaches net_ok (net_step (\<lambda>_. [])) (start_net demo_store) n" "proc n = Up r" "good {0, 1} (core r)"
    "db (core r) = demo_store" "idle n r 0" "idle n r 1" "shown n = []" by (rule demo_dialled)
  define q where "q = hex_encode (replicate 16 (CHR ''x''))"
  have io: "NewID (rnd demo_io) = Some q" "\<not> f_create demo_io" "\<not> f_undelivered demo_io" "int64_range 3" "(0 :: nat) \<in> {0, 1}"
      "(1 :: nat) \<in> {0, 1}" "(1 :: nat) \<noteq> 0"
    using demo_easy(1) demo_line(5) by (simp_all add: easy_io_def q_def)
  from new_hop [OF n(2,3) io(5) n(5) demo_io_ok io(4,1,2), of "\<lambda>_. []"]
  obtain n1 r1 f g where m: "served (\<lambda>_. []) {0, 1} 0 f g n r n1 r1" "map_of (queues (core r1)) q = Some \<lparr>owner = Some 0, sub = None\<rparr>"
    "q \<in> qids (db (core r1))" by blast
  have s: "proc n1 = Up r1" "good {0, 1} (core r1)" "idle n1 r1 0" "idle n1 r1 1" "shown n1 = []" "messages_tab (db (core r1)) = []"
    "reaches net_ok (net_step (\<lambda>_. [])) n n1"
    using m(1) n(4-7) by (simp_all add: served_def demo_store_def)
  let ?se = "demo_session\<lparr>my_queue := q\<rparr>"
  have se: "sendq ?se = new_client" "seen ?se = []" "sendq demo_session = new_client" "seen demo_session = []" by simp_all
  obtain n2 where n2: "reaches net_ok (net_step (\<lambda>_. [])) n1 n2" "proc n2 = Up r1" "ready n2 r1 0 (start_chat ?se)" "idle n2 r1 1" "shown n2 = []"
    using join_ready [OF s(1,3) se(1,2), of "\<lambda>_. []"] s(4,5) by auto
  have "my_queue (sess (start_chat ?se)) = q" by (simp add: start_chat_def)
  from waiting_lines_are_shown_in_order [OF n2(2) s(2) io(5-7) n2(3,4) this m(2) _ _ m(3) s(6) demo_lines_typable(1,2,4,3) demo_io_ok io(3)
      demo_run(1) io(4) se(3,4), of "\<lambda>_. []"]
  obtain n3 n4 n5 where n5: "reaches net_ok (net_step (\<lambda>_. [])) n2 n3" "reaches net_ok (net_step (\<lambda>_. [])) n3 n4"
    "reaches net_ok (net_step (\<lambda>_. [])) n4 n5" "shown n5 = map (\<lambda>x. (1, q, mid_of x, text_of_item x)) demo_lines"
    "pending (disk (proc n5)) q = []" unfolding n2(5) by auto
  have "shown n5 = [(1, q, hex_encode (replicate 16 (CHR ''x'')), ''hi''), (1, q, hex_encode (replicate 16 (CHR ''y'')), ''hi'')]"
    unfolding n5(4) demo_lines_def by (simp add: mid_of_def text_of_item_def trim_hi demo_line(8) del: replicate.simps)
  moreover have "reaches net_ok (net_step (\<lambda>_. [])) (start_net demo_store) n5"
    by (rule reaches_trans [OF n5(3) reaches_trans [OF n5(2) reaches_trans [OF n5(1) reaches_trans [OF n2(1) reaches_trans [OF s(7) n(1)]]]]])
  ultimately show ?thesis using n5(5) by blast
qed

end
