(* ===== verification/Spec2Isabelle.thy ===== *)
theory Spec2Isabelle
  imports Relay_Props Client_Props Client_Main Contact_List Recorded_Vectors Meeting_Props
begin

text \<open>
  Knock (\<open>github.com/xinchen666v/knock\<close>, Go): a chat program and its store-and-forward relay.  A user owns
  a queue on a relay and sends into it; the other side subscribes to that queue.  The two exchange invitation links (server, queue,
  public key, checksum).  This development models the relay, the client and what they share.

  \<^bold>\<open>How the parts interact.\<close>  A client dials a relay (WebSocket), sends NEW, SUB, SEND, ACK envelopes as JSON
  frames and gets NEW_OK, SUB_OK, DELIVER, ACK, ERROR frames.  In the relay each connection has a reader and a
  writer goroutine and a channel of 16 frames; the single goroutine of the hub takes all commands in turn, keeps the table of queues
  and stores messages in SQLite; a sweeper removes queues that were silent for seven days.  In the client a reader, a writer
  and the keyboard loop share one session; identity and contacts are JSON files.

  \<^bold>\<open>Theories.\<close>
  \<^item> \<open>Knock_Prelude\<close>: results with panics (\<open>outcome\<close>), the locales \<open>codec\<close>, \<open>machine\<close>, \<open>refined_machine\<close>, reachability.
  \<^item> \<open>Go_Strings\<close>, \<open>Go_Json\<close>, \<open>Go_Json_Facts\<close>, \<open>Go_Utf8\<close>, \<open>Base64\<close>, \<open>Sha256\<close>, \<open>Go_Url\<close>, \<open>Go_Net\<close>:
    what the programs use of Go's library, executable: hexadecimal and decimal, JSON (parser, encoder, compaction, struct
    decoding), UTF-8, base64, SHA-256, URLs, \<open>TrimSpace\<close>, \<open>SplitHostPort\<close>, \<open>Scanner\<close>.
  \<^item> \<open>Envelope\<close>, \<open>Frames\<close>: \<open>protocol/envelope.go\<close>, \<open>protocol/payloads.go\<close>; what is sent is what is parsed.
  \<^item> \<open>Invite\<close>: \<open>protocol/invite.go\<close>.
  \<^item> \<open>Store\<close>, \<open>Store_Facts\<close>: \<open>server/store.go\<close>, both tables, each statement with its driver errors and
    the foreign key; the locale \<open>outbox\<close> is what the hub relies on.
  \<^item> \<open>Conn\<close>: \<open>server/client.go\<close>, one connection.  \<open>Hub\<close>: \<open>server/hub.go\<close>, the handlers as functions from hub to hub or panic.
    \<open>Hub_Facts\<close>, \<open>Hub_Safety\<close>, \<open>Hub_Panics\<close>, \<open>Hub_Behaviour\<close>: frames and database, the invariant, when a
    handler panics, what each command does.
  \<^item> \<open>Relay\<close>: \<open>server/main.go\<close> and the goroutines as a step relation with crash, kill and restart; the specification \<open>mailbox\<close>
    and the refinement.  \<open>Relay_Props\<close>: the properties of the relay.
  \<^item> \<open>Knock_Crypto\<close>: \<open>crypto/crypto.go\<close>.  \<open>Gen_Vectors\<close>, \<open>Vector_File\<close>: \<open>crypto/genvectors/main.go\<close>, the vectors, and the
    document with its indented text and the writing of it.  \<open>Sha256_Eval\<close>: SHA-256 on integers, equal to the one on words and fast to
    evaluate; \<open>Recorded_Vectors\<close>: the generator against the file \<open>crypto/vectors.json\<close> of the repository.  \<open>Identity_File\<close>:
    \<open>identity/identity.go\<close> over a file system whose writes are lists of disk states.
  \<^item> \<open>Client_State\<close>: \<open>client/state.go\<close> and the contact book.  \<open>Client_Session\<close>, \<open>Client_Session_Facts\<close>: \<open>client/session.go\<close> and
    \<open>runNew\<close>, the start of a chat.  \<open>Client_Pumps\<close>: \<open>client/pumps.go\<close>, the running chat as a step relation.
    \<open>Contact_List\<close>: the printed list of contacts with \<open>formatTime\<close>.  \<open>Client_Main\<close>: \<open>main\<close> of \<open>client/main.go\<close>, the command line and the exit status.
  \<^item> \<open>End_To_End\<close>, \<open>Client_Props\<close>: both programs together, and the properties of the client.
  \<^item> \<open>Provenance\<close>: what the relay has heard from each connection, and that everything it keeps, replays or sends stems from it.
    \<open>Network\<close>, \<open>Network_Run\<close>, \<open>Network_Props\<close>: one relay, any number of chats and strangers as one step relation;
    the hops of a line; the properties of the whole.  \<open>Network_Start\<close>, \<open>Meeting\<close>, \<open>Meeting_Props\<close>: NEW and SUB over the network, two
    clients at their first start, and what their programs make of the answers.  \<open>Waiting_Lines\<close>: lines typed while nobody is
    subscribed, and their replay.

  \<^bold>\<open>How state and operations correspond.\<close>  A Go struct is a record with the source's fields; a map is a list of pairs with
  distinct keys; \<open>error\<close> results are sums or options; a panic is \<open>Panic\<close> with the database it leaves.  A handler of the hub is one
  function because only the hub's goroutine touches the hub and each handler runs to its end.  Unbuffered channels are
  reader states (\<open>Handing\<close>, \<open>Leaving\<close>).  Clock readings and random bytes are arguments; of the clock only the range is assumed, of the random source the
  number of bytes.  The start of the client threads a record \<open>world\<close> (disk, typed lines, arriving frames, sent frames)
  and takes every fault from a record \<open>setting\<close>.  Input is a terminal: a read gives one line.

  In the network a connection is a pair of queues, \<open>up\<close> to the relay and \<open>down\<close> from it, in order and without loss until it breaks.  A
  connection that is not (yet) a chat is a stranger: this includes a client that is still at its start, whose NEW and SUB a
  stranger may send; \<open>Meeting\<close> compares the frames such a stranger writes and hears with \<open>sent\<close> and \<open>arriving\<close> of \<open>runChat\<close>.  The fields
  \<open>said\<close>, \<open>shown\<close>, \<open>asked\<close>, \<open>acked\<close>, \<open>wrote\<close>, \<open>got\<close> record history; no step reads them.  The network starts
  from a database without messages.

  \<^bold>\<open>What is shown.\<close>  For the relay: the invariant of every reachable state, refinement of the mailbox, messages kept until
  acknowledged or expired, each command's effect, exactly when a command panics, sweeps, reopening.
  For the client: the invariant of every reachable chat (bounded queue, only own frames, no message acknowledged twice), the
  reader equals its declarative specification (first deliveries only), no acknowledgement of a shown message is dropped and all can be
  written, the guarantees of a started chat, links and files that read back, atomic writes, vectors that agree; keys that agree for one
  direction, and under which messages that are reflected or have other associated data are refused.
  For the network, over every run with crashes, restarts and strangers that send what they like: a chat shows only what was said to
  a queue its connection asked for, under its identifier, each identifier at most once; a stored message whose identifier no other message has
  is lost only when a chat has shown this message, a stranger has acknowledged it, or its queue has expired; and from any idle state a typed line can go to the
  other screen and its acknowledgement back.  Two people who have never used the program come from two idle connections to
  two chats, each subscribed to the queue the other's link names, and to a first line on the other's screen.  Lines typed
  while nobody is subscribed can all come to the screen of the one who subscribes later, in order.  Also the size at which a message is lost.

  \<^bold>\<open>Fuel and bounds.\<close>  The JSON parser's fuel is twice the length of the text plus one; \<open>jvalue_fuel_enough\<close> and
  \<open>jvalue_any_fuel\<close> show that more never changes the answer.  \<open>drain\<close> has one unit per queued frame and one for the close.
  Channels hold 16 frames, frames 64 KiB, JSON nests 10000 deep.  \<open>year_of\<close> terminates because every year has days.

  \<^bold>\<open>Grain of the steps.\<close>  A turn of the hub is one step.  In the program the writer of a connection may take frames from its channel
  while the hub is still filling it; so where a replay is cut at 16 frames, that is what happens when the writer does not run in the
  meantime, and with a writer that does run more frames may get through, never fewer.  The three statements of the sweep are one
  step, each of which may fail; the program may have a turn of the hub between two of them.  A crash is one of the process:
  what was written stays written, the loss of unsynchronised writes by a power failure is not modelled.
  A client may still read a frame that was buffered when another goroutine closed the connection.  \<open>Fingerprint\<close> is written by
  recursion on the groups of digits; the loop over their positions is \<open>fingerprint\<close> of \<open>Gen_Vectors\<close>, and the two are proved equal.

  \<^bold>\<open>Parameters.\<close>  \<open>prims\<close> (curve, HKDF, cipher, Ed25519; the laws used are \<open>dh_commutes\<close>, \<open>labels_separate\<close>, \<open>aead_opens\<close>, \<open>aead_binds\<close>), \<open>ipl\<close> (bracketed IP literals in URLs, which differ between Go
  releases), \<open>jerr\<close> (texts of JSON errors), the time zone, whether a dial succeeds.

  \<^bold>\<open>Not modelled.\<close>  TCP, TLS, the WebSocket protocol and its deadlines (a deadline is a read or write that fails); SQL
  as a language (each statement is its effect on the tables); logging; the order of equal times in the
  contact list, which Go leaves open; the remaining fixed texts printed at the start and by \<open>usage\<close>.
\<close>

end
